(* ===== verification/Prelude.thy ===== *)
theory Prelude
  imports Main "HOL-Library.Word" "HOL-Library.Sublist"
begin

text \<open>
  The shared base of the development: the fact collections the component theories
  extend, the byte view of Go strings and the generic lemmas on bytes and fallible
  computations that several components use.

  Go's \<open>string\<close> and \<open>[]byte\<close> are both sequences of bytes. They are modelled by HOL's
  \<open>string\<close> (a list of 8-bit characters), so that \<open>length\<close> counts bytes as Go's
  \<open>len\<close> does; the number of a byte is read with \<open>byte_of\<close>.
\<close>

section \<open>Fact collections\<close>

named_theorems bytes_simps \<open>facts about byte classes\<close>
named_theorems result_simps \<open>facts about fallible computations\<close>
named_theorems flag_simps \<open>facts about meta flags\<close>

section \<open>Bytes\<close>

type_synonym bytes = string

abbreviation byte_of :: "char \<Rightarrow> nat" where
  "byte_of c \<equiv> (of_char c :: nat)"

abbreviation CR :: char where "CR \<equiv> CHR 0x0D"
abbreviation LF :: char where "LF \<equiv> CHR 0x0A"
abbreviation SP :: char where "SP \<equiv> CHR '' ''"
abbreviation CRLF :: bytes where "CRLF \<equiv> [CR, LF]"

text \<open>
  The byte class the client refuses in keys, tokens and flags: whitespace and control
  bytes, \<open>b <= 0x20 || b == 0x7f\<close>.
\<close>

definition ctl_byte :: "char \<Rightarrow> bool" where
  "ctl_byte c \<longleftrightarrow> byte_of c \<le> 0x20 \<or> byte_of c = 0x7f"

definition clean :: "bytes \<Rightarrow> bool" where
  "clean s \<longleftrightarrow> (\<forall>c \<in> set s. \<not> ctl_byte c)"

lemma clean_Nil [simp, bytes_simps]: "clean []"
  by (simp add: clean_def)

lemma clean_Cons [simp, bytes_simps]: "clean (c # s) \<longleftrightarrow> \<not> ctl_byte c \<and> clean s"
  by (simp add: clean_def)

lemma clean_append [simp, bytes_simps]: "clean (s @ t) \<longleftrightarrow> clean s \<and> clean t"
  by (auto simp: clean_def)

lemma ctl_byte_SP [simp, bytes_simps]: "ctl_byte SP"
  and ctl_byte_CR [simp, bytes_simps]: "ctl_byte CR"
  and ctl_byte_LF [simp, bytes_simps]: "ctl_byte LF"
  by (simp_all add: ctl_byte_def)

lemma clean_not_in:
  assumes "clean s"
  shows "SP \<notin> set s" and "CR \<notin> set s" and "LF \<notin> set s"
  using assms ctl_byte_SP ctl_byte_CR ctl_byte_LF by (auto simp: clean_def)

section \<open>Fallible computations\<close>

text \<open>
  Where Go returns \<open>(value, error)\<close> and the value is meaningful only without the error,
  the model returns a sum: \<open>Inl\<close> the error, \<open>Inr\<close> the value. \<open>and_then\<close> is the
  \<open>if err != nil \<lbrace> return err \<rbrace>\<close> between two calls.
\<close>

fun and_then :: "'e + 'a \<Rightarrow> ('a \<Rightarrow> 'e + 'b) \<Rightarrow> 'e + 'b" where
  "and_then (Inl e) f = Inl e"
| "and_then (Inr x) f = f x"

lemma and_then_Inr [result_simps]:
  "and_then r f = Inr y \<longleftrightarrow> (\<exists>x. r = Inr x \<and> f x = Inr y)"
  by (cases r) auto

lemma and_then_Inl [result_simps]:
  "and_then r f = Inl e \<longleftrightarrow> r = Inl e \<or> (\<exists>x. r = Inr x \<and> f x = Inl e)"
  by (cases r) auto

lemma and_then_cong [fundef_cong]:
  "\<lbrakk>r = r'; \<And>x. r' = Inr x \<Longrightarrow> f x = g x\<rbrakk> \<Longrightarrow> and_then r f = and_then r' g"
  by (cases r') auto

definition ensure :: "bool \<Rightarrow> 'e \<Rightarrow> 'e + unit" where
  "ensure b e = (if b then Inr () else Inl e)"

lemma ensure_Inr [simp, result_simps]: "ensure b e = Inr u \<longleftrightarrow> b"
  by (simp add: ensure_def)

lemma ensure_Inl [simp, result_simps]: "ensure b e = Inl e' \<longleftrightarrow> \<not> b \<and> e' = e"
  by (auto simp: ensure_def)

lemma and_then_ensure [simp]:
  "and_then (ensure b e) f = (if b then f () else Inl e)"
  by (simp add: ensure_def)

lemma guard_Inr: "(if b then x else Inl e) = Inr y \<longleftrightarrow> b \<and> x = Inr y"
  by simp

end
