(* ===== verification/Go_Std.thy ===== *)
theory Go_Std
  imports Prelude
begin

unbundle bit_operations_syntax

text \<open>
  The part of Go's standard library the client computes with: \<open>strconv\<close> (decimal printing
  and parsing), \<open>encoding/base64\<close> (standard alphabet, with padding), \<open>hash/fnv\<close>
  (64-bit FNV-1a), the byte-level functions of \<open>strings\<close>, and truncating division of
  signed 64-bit integers. Each is executable, and the round trips the protocol relies on
  are proved here once.
\<close>

section \<open>Signed 64-bit arithmetic\<close>

text \<open>
  \<open>int64\<close> values are modelled by \<open>int\<close>, with the wrap-around written out where an
  operation can leave the range. Division truncates towards zero.
\<close>

definition wrap64 :: "int \<Rightarrow> int" where
  "wrap64 x = (x + 2 ^ 63) mod 2 ^ 64 - 2 ^ 63"

definition in_int64 :: "int \<Rightarrow> bool" where
  "in_int64 x \<longleftrightarrow> - (2 ^ 63) \<le> x \<and> x < 2 ^ 63"

definition go_div :: "int \<Rightarrow> int \<Rightarrow> int" where
  "go_div a b = sgn a * sgn b * (\<bar>a\<bar> div \<bar>b\<bar>)"

lemma wrap64_id [simp]: "in_int64 x \<Longrightarrow> wrap64 x = x"
  by (simp add: wrap64_def in_int64_def mod_pos_pos_trivial)

lemma wrap64_range: "in_int64 (wrap64 x)"
  unfolding in_int64_def wrap64_def
  using pos_mod_bound [of "2 ^ 64" "x + 2 ^ 63"] pos_mod_sign [of "2 ^ 64" "x + 2 ^ 63"]
  by simp

lemma go_div_nonneg: "0 \<le> a \<Longrightarrow> 0 < b \<Longrightarrow> go_div a b = a div b"
  by (cases "a = 0") (simp_all add: go_div_def)

lemma go_div_neg: "a < 0 \<Longrightarrow> 0 < b \<Longrightarrow> go_div a b = - ((- a) div b)"
  by (simp add: go_div_def)

section \<open>strconv\<close>

definition digit_char :: "nat \<Rightarrow> char" where
  "digit_char d = char_of (48 + d)"

definition is_digit :: "char \<Rightarrow> bool" where
  "is_digit c \<longleftrightarrow> 48 \<le> byte_of c \<and> byte_of c \<le> 57"

definition digit_val :: "char \<Rightarrow> nat" where
  "digit_val c = byte_of c - 48"

text \<open>\<open>strconv.FormatUint(n, 10)\<close>.\<close>

fun format_nat :: "nat \<Rightarrow> bytes" where
  "format_nat n = (if n < 10 then [digit_char n] else format_nat (n div 10) @ [digit_char (n mod 10)])"

declare format_nat.simps [simp del]

definition format_uint :: "64 word \<Rightarrow> bytes" where
  "format_uint w = format_nat (unat w)"

text \<open>\<open>strconv.FormatInt(i, 10)\<close> and \<open>strconv.Itoa\<close>.\<close>

definition format_int :: "int \<Rightarrow> bytes" where
  "format_int i = (if i < 0 then ''-'' @ format_nat (nat (- i)) else format_nat (nat i))"

definition digits_val :: "bytes \<Rightarrow> nat" where
  "digits_val s = foldl (\<lambda>acc c. 10 * acc + digit_val c) 0 s"

text \<open>\<open>strconv.ParseUint(s, 10, bits)\<close>; \<open>None\<close> is its syntax or range error.\<close>

definition parse_nat :: "nat \<Rightarrow> bytes \<Rightarrow> nat option" where
  "parse_nat bits s =
     (if s = [] \<or> \<not> list_all is_digit s then None
      else if digits_val s < 2 ^ bits then Some (digits_val s) else None)"

definition parse_uint :: "nat \<Rightarrow> bytes \<Rightarrow> 64 word option" where
  "parse_uint bits s = map_option of_nat (parse_nat bits s)"

text \<open>\<open>strconv.ParseInt(s, 10, 64)\<close>, which is also \<open>strconv.Atoi\<close> on a 64-bit platform.\<close>

definition parse_int :: "bytes \<Rightarrow> int option" where
  "parse_int s =
     (let neg = (s \<noteq> [] \<and> hd s = CHR ''-'');
          body = (if s \<noteq> [] \<and> (hd s = CHR ''+'' \<or> hd s = CHR ''-'') then tl s else s)
      in case parse_nat 64 body of
           None \<Rightarrow> None
         | Some n \<Rightarrow>
             if neg then (if n \<le> 2 ^ 63 then Some (- int n) else None)
             else (if n < 2 ^ 63 then Some (int n) else None))"

abbreviation atoi :: "bytes \<Rightarrow> int option" where
  "atoi \<equiv> parse_int"

lemma is_digit_digit_char [simp]: "d < 10 \<Longrightarrow> is_digit (digit_char d)"
  by (simp add: is_digit_def digit_char_def)

lemma digit_val_digit_char [simp]: "d < 10 \<Longrightarrow> digit_val (digit_char d) = d"
  by (simp add: digit_val_def digit_char_def)

lemma is_digit_clean: "is_digit c \<Longrightarrow> \<not> ctl_byte c"
  by (simp add: is_digit_def ctl_byte_def)

lemma format_nat_digits: "list_all is_digit (format_nat n)"
proof (induction n rule: format_nat.induct)
  case (1 n)
  show ?case
  proof (cases "n < 10")
    case True
    then show ?thesis by (subst format_nat.simps) simp
  next
    case False
    with "1" show ?thesis by (subst format_nat.simps) simp
  qed
qed

lemma format_nat_ne [simp]: "format_nat n \<noteq> []"
  by (subst format_nat.simps) simp

lemma digits_val_snoc: "digits_val (s @ [c]) = 10 * digits_val s + digit_val c"
  by (simp add: digits_val_def)

lemma digits_val_format_nat [simp]: "digits_val (format_nat n) = n"
proof (induction n rule: format_nat.induct)
  case (1 n)
  show ?case
  proof (cases "n < 10")
    case True
    then show ?thesis by (subst format_nat.simps) (simp add: digits_val_def)
  next
    case False
    with "1" have "digits_val (format_nat (n div 10)) = n div 10" by simp
    with False show ?thesis by (subst format_nat.simps) (simp add: digits_val_snoc)
  qed
qed

lemma parse_format_nat [simp]: "n < 2 ^ bits \<Longrightarrow> parse_nat bits (format_nat n) = Some n"
  by (simp add: parse_nat_def format_nat_digits)

lemma parse_format_uint [simp]: "parse_uint 64 (format_uint w) = Some w"
proof -
  have "unat w < 2 ^ 64" using unsigned_less [of w, where 'a = nat] by simp
  then show ?thesis by (simp add: parse_uint_def format_uint_def)
qed

lemma format_nat_inj: "format_nat m = format_nat n \<longleftrightarrow> m = n"
  by (metis digits_val_format_nat)

lemma clean_digits: "list_all is_digit s \<Longrightarrow> clean s"
  by (induction s) (simp_all add: is_digit_clean)

lemma clean_format_nat [simp, bytes_simps]: "clean (format_nat n)"
  by (rule clean_digits [OF format_nat_digits])

lemma clean_format_uint [simp, bytes_simps]: "clean (format_uint w)"
  by (simp add: format_uint_def)

lemma format_uint_ne [simp]: "format_uint w \<noteq> []"
  by (simp add: format_uint_def)

lemma clean_format_int [simp, bytes_simps]: "clean (format_int i)"
  by (simp add: format_int_def ctl_byte_def)

lemma format_int_ne [simp]: "format_int i \<noteq> []"
  by (simp add: format_int_def)

lemma hd_format_nat: "is_digit (hd (format_nat n))"
  using format_nat_digits [of n] by (cases "format_nat n") auto

lemma parse_format_int [simp]:
  assumes "in_int64 i"
  shows "parse_int (format_int i) = Some i"
proof (cases "i < 0")
  case True
  with assms have "nat (- i) \<le> 2 ^ 63" by (simp add: in_int64_def nat_le_iff)
  moreover from this have "nat (- i) < 2 ^ 64" by simp
  ultimately show ?thesis
    using True by (simp add: format_int_def parse_int_def)
next
  case False
  with assms have n: "nat i < 2 ^ 63" by (simp add: in_int64_def nat_less_iff)
  have "hd (format_nat (nat i)) \<noteq> CHR ''+'' \<and> hd (format_nat (nat i)) \<noteq> CHR ''-''"
    using hd_format_nat [of "nat i"] by (auto simp: is_digit_def)
  with n False show ?thesis
    by (simp add: format_int_def parse_int_def)
qed

section \<open>encoding/base64\<close>

text \<open>
  \<open>base64.StdEncoding\<close>: the alphabet by number, its inverse, the encoder with padding and
  the decoder, which skips carriage returns and newlines, wants the padding in place and
  ignores the unused low bits of the last symbol.
\<close>

definition b64_char :: "nat \<Rightarrow> char" where
  "b64_char i =
     (if i < 26 then char_of (65 + i)
      else if i < 52 then char_of (71 + i)
      else if i < 62 then char_of (i - 4)
      else if i = 62 then CHR ''+'' else CHR ''/'')"

definition b64_val :: "char \<Rightarrow> nat option" where
  "b64_val c =
     (let n = byte_of c in
      if 65 \<le> n \<and> n \<le> 90 then Some (n - 65)
      else if 97 \<le> n \<and> n \<le> 122 then Some (n - 71)
      else if 48 \<le> n \<and> n \<le> 57 then Some (n + 4)
      else if n = 43 then Some 62
      else if n = 47 then Some 63
      else None)"

fun b64_encode :: "bytes \<Rightarrow> bytes" where
  "b64_encode [] = []"
| "b64_encode [a] =
     [b64_char (byte_of a div 4), b64_char (byte_of a mod 4 * 16), CHR ''='', CHR ''='']"
| "b64_encode [a, b] =
     [b64_char (byte_of a div 4), b64_char (byte_of a mod 4 * 16 + byte_of b div 16),
      b64_char (byte_of b mod 16 * 4), CHR ''='']"
| "b64_encode (a # b # c # s) =
     b64_char (byte_of a div 4) # b64_char (byte_of a mod 4 * 16 + byte_of b div 16) #
     b64_char (byte_of b mod 16 * 4 + byte_of c div 64) # b64_char (byte_of c mod 64) #
     b64_encode s"

fun b64_quanta :: "bytes \<Rightarrow> bytes option" where
  "b64_quanta [] = Some []"
| "b64_quanta (a # b # c # d # s) =
     (case (b64_val a, b64_val b) of
        (Some w, Some x) \<Rightarrow>
          (if c = CHR ''='' then
             (if d = CHR ''='' \<and> s = [] then Some [char_of (w * 4 + x div 16)] else None)
           else
             (case b64_val c of
                None \<Rightarrow> None
              | Some y \<Rightarrow>
                  (if d = CHR ''='' then
                     (if s = []
                      then Some [char_of (w * 4 + x div 16), char_of (x mod 16 * 16 + y div 4)]
                      else None)
                   else
                     (case (b64_val d, b64_quanta s) of
                        (Some z, Some r) \<Rightarrow>
                          Some (char_of (w * 4 + x div 16) # char_of (x mod 16 * 16 + y div 4) #
                                char_of (y mod 4 * 64 + z) # r)
                      | _ \<Rightarrow> None))))
      | _ \<Rightarrow> None)"
| "b64_quanta _ = None"

definition b64_decode :: "bytes \<Rightarrow> bytes option" where
  "b64_decode s = b64_quanta (filter (\<lambda>c. c \<noteq> CR \<and> c \<noteq> LF) s)"

lemma b64_val_char [simp]: "i < 64 \<Longrightarrow> b64_val (b64_char i) = Some i"
  by (auto simp: b64_char_def b64_val_def Let_def)

lemma byte_of_b64_char_ge: "43 \<le> byte_of (b64_char i)" if "i < 64"
  using that by (auto simp: b64_char_def)

lemma b64_char_not_pad [simp]: "i < 64 \<Longrightarrow> b64_char i \<noteq> CHR ''=''"
  using b64_val_char [of i] by (auto simp: b64_val_def)

lemma b64_char_not_ctl [simp]: "i < 64 \<Longrightarrow> \<not> ctl_byte (b64_char i)"
  by (auto simp: b64_char_def ctl_byte_def)

lemma byte_div [simp]:
  "byte_of a div 4 < 64" "byte_of a div 16 < 16" "byte_of a div 64 < 4"
  by (rule less_mult_imp_div_less, simp)+

lemma b64_bits [simp]:
  "byte_of a mod 4 * 16 < 64"
  "byte_of a mod 4 * 16 + byte_of b div 16 < 64"
  "byte_of b mod 16 * 4 < 64" "byte_of b mod 16 * 4 + byte_of c div 64 < 64"
  "byte_of c mod 64 < 64"
proof -
  have a: "byte_of a mod 4 \<le> 3" and b: "byte_of b mod 16 \<le> 15" by simp_all
  show "byte_of a mod 4 * 16 < 64" using a by linarith
  show "byte_of a mod 4 * 16 + byte_of b div 16 < 64" using a byte_div(2) [of b] by linarith
  show "byte_of b mod 16 * 4 < 64" using b by linarith
  show "byte_of b mod 16 * 4 + byte_of c div 64 < 64" using b byte_div(3) [of c] by linarith
qed simp

lemma not_ctl_pad [simp]: "\<not> ctl_byte (CHR ''='')"
  by (simp add: ctl_byte_def)

lemma clean_b64_encode [simp, bytes_simps]: "clean (b64_encode s)"
  by (induction s rule: b64_encode.induct) simp_all

lemma b64_quanta_encode: "b64_quanta (b64_encode s) = Some s"
  by (induction s rule: b64_encode.induct) simp_all

theorem b64_decode_encode: "b64_decode (b64_encode s) = Some s"
proof -
  have "filter (\<lambda>c. c \<noteq> CR \<and> c \<noteq> LF) (b64_encode s) = b64_encode s"
    using clean_b64_encode [of s] by (auto simp: filter_id_conv clean_def ctl_byte_def)
  then show ?thesis by (simp add: b64_decode_def b64_quanta_encode)
qed

lemma b64_encode_inj: "b64_encode s = b64_encode t \<longleftrightarrow> s = t"
  by (metis b64_decode_encode option.inject)

lemma b64_encode_Nil_iff [simp]: "b64_encode s = [] \<longleftrightarrow> s = []"
  by (cases s rule: b64_encode.cases) simp_all

lemma length_b64_encode: "length (b64_encode s) = 4 * ((length s + 2) div 3)"
proof (induction s rule: b64_encode.induct)
  case (4 a b c s)
  have "(length s + 5) div 3 = Suc ((length s + 2) div 3)" by presburger
  with 4 show ?case by (simp add: add.commute)
qed simp_all

section \<open>hash/fnv\<close>

text \<open>64-bit FNV-1a: \<open>New64a\<close>, \<open>Write\<close> of a byte sequence, \<open>Sum64\<close>.\<close>

definition fnv_offset :: "64 word" where
  "fnv_offset = 14695981039346656037"

definition fnv_write :: "64 word \<Rightarrow> bytes \<Rightarrow> 64 word" where
  "fnv_write h s = foldl (\<lambda>h c. (h XOR of_nat (byte_of c)) * 1099511628211) h s"

section \<open>strings\<close>

text \<open>\<open>strings.HasPrefix\<close>, \<open>strings.TrimPrefix\<close> and \<open>strings.Cut(s, "=")\<close>.\<close>

definition has_prefix :: "bytes \<Rightarrow> bytes \<Rightarrow> bool" where
  "has_prefix s p \<longleftrightarrow> take (length p) s = p"

definition trim_prefix :: "bytes \<Rightarrow> bytes \<Rightarrow> bytes" where
  "trim_prefix s p = (if has_prefix s p then drop (length p) s else s)"

definition cut :: "char \<Rightarrow> bytes \<Rightarrow> (bytes \<times> bytes) option" where
  "cut sep s =
     (if sep \<in> set s
      then Some (takeWhile (\<lambda>c. c \<noteq> sep) s, tl (dropWhile (\<lambda>c. c \<noteq> sep) s))
      else None)"

text \<open>
  \<open>strings.TrimSpace\<close> removes Unicode white space at both ends; the encodings of the
  white-space code points are listed as byte sequences.
\<close>

definition go_spaces :: "bytes list" where
  "go_spaces =
     map (\<lambda>n. [char_of n]) [9, 10, 11, 12, 13, 32 :: nat] @
     map (map char_of)
       ([[0xC2, 0x85], [0xC2, 0xA0], [0xE1, 0x9A, 0x80]] @
        map (\<lambda>n. [0xE2, 0x80, n]) ([0x80 ..< 0x8B] @ [0xA8, 0xA9, 0xAF]) @
        [[0xE2, 0x81, 0x9F], [0xE3, 0x80, 0x80 :: nat]])"

fun trim_fuel :: "nat \<Rightarrow> bytes list \<Rightarrow> bytes \<Rightarrow> bytes" where
  "trim_fuel 0 ps s = s"
| "trim_fuel (Suc n) ps s =
     (case find (has_prefix s) ps of
        None \<Rightarrow> s
      | Some p \<Rightarrow> trim_fuel n ps (drop (length p) s))"

text \<open>Each round drops at least one byte, so the length of the string is enough fuel.\<close>

definition trim_left_of :: "bytes list \<Rightarrow> bytes \<Rightarrow> bytes" where
  "trim_left_of ps s = trim_fuel (length s) ps s"

definition trim_space :: "bytes \<Rightarrow> bytes" where
  "trim_space s = rev (trim_left_of (map rev go_spaces) (rev (trim_left_of go_spaces s)))"

lemma has_prefix_append [simp]: "has_prefix (p @ s) p"
  by (simp add: has_prefix_def)

lemma cut_append: "sep \<notin> set a \<Longrightarrow> cut sep (a @ sep # b) = Some (a, b)"
  by (simp add: cut_def takeWhile_append dropWhile_append)

end
