(* ===== verification/Errors.thy ===== *)
theory Errors
  imports Go_Std
begin

text \<open>
  The error values of \<open>errors.go\<close>, with the ones \<open>wire.go\<close> and
  \<open>transport.go\<close> add, as one datatype: an error is data, so every \<open>return err\<close> of
  the client is a value of the model. \<open>errors.As\<close> and \<open>errors.Is\<close> walk the chain of
  \<open>Unwrap\<close> calls, which is \<open>err_chain\<close> here.
\<close>

section \<open>Error values\<close>

text \<open>
  A formatted message keeps its format string and its arguments instead of the text they
  print to. \<open>Errorf f as (Some e)\<close> is a \<open>fmt.Errorf\<close> whose last verb is \<open>%w\<close>.
  \<open>EnvError\<close> is any other error handed to the client by the network, a codec or a
  caller's function. The cause of a \<open>ConnectionLostError\<close> may be nil: a connection that was
  closed without a failure has none. \<open>bufio.ErrBufferFull\<close> never leaves \<open>readLine\<close> and has no value here.
\<close>

datatype fmtarg = FStr bytes | FInt int

datatype goerr =
    ErrCacheMiss
  | ErrClosed
  | ErrNotStored
  | ErrConflict
  | ErrNilOption
  | ErrEmptyValue
  | CtxCanceled
  | CtxDeadlineExceeded
  | OsDeadlineExceeded
  | IoEOF
  | IoUnexpectedEOF
  | EnvError bytes
  | Errorf bytes "fmtarg list" "goerr option"
  | UsageError goerr
  | ProtocolError bytes "fmtarg list"
  | ServerError bytes bytes
  | AmbiguousWriteError bytes bytes goerr
  | FramedResponseError goerr
  | ConnectionLostError "goerr option"

type_synonym 'a result = "goerr + 'a"

abbreviation errorf :: "bytes \<Rightarrow> fmtarg list \<Rightarrow> goerr" where
  "errorf f as \<equiv> Errorf f as None"

abbreviation wrapf :: "bytes \<Rightarrow> fmtarg list \<Rightarrow> goerr \<Rightarrow> goerr" where
  "wrapf f as e \<equiv> Errorf f as (Some e)"

section \<open>The chain of wrapped errors\<close>

text \<open>
  The \<open>Unwrap\<close> methods. A \<open>ConnectionLostError\<close> deliberately has none: its cause is
  another request's outcome.
\<close>

fun unwrap :: "goerr \<Rightarrow> goerr option" where
  "unwrap (Errorf _ _ w) = w"
| "unwrap (UsageError e) = Some e"
| "unwrap (AmbiguousWriteError _ _ e) = Some e"
| "unwrap (FramedResponseError e) = Some e"
| "unwrap _ = None"

fun err_chain :: "goerr \<Rightarrow> goerr list" where
  "err_chain (Errorf f as (Some e)) = Errorf f as (Some e) # err_chain e"
| "err_chain (UsageError e) = UsageError e # err_chain e"
| "err_chain (AmbiguousWriteError p k e) = AmbiguousWriteError p k e # err_chain e"
| "err_chain (FramedResponseError e) = FramedResponseError e # err_chain e"
| "err_chain e = [e]"

text \<open>\<open>err_chain\<close> is the iteration of \<open>unwrap\<close>.\<close>

lemma err_chain_unwrap:
  "err_chain e = e # (case unwrap e of None \<Rightarrow> [] | Some e' \<Rightarrow> err_chain e')"
  by (cases e rule: err_chain.cases) simp_all

lemma err_chain_head [simp]: "e \<in> set (err_chain e)"
  by (subst err_chain_unwrap) simp

text \<open>\<open>errors.Is(err, target)\<close> and \<open>errors.As(err, &target)\<close> for the types the client asks for.\<close>

definition errors_is :: "goerr \<Rightarrow> goerr \<Rightarrow> bool" where
  "errors_is e target \<longleftrightarrow> List.member (err_chain e) target"

fun is_ambiguous :: "goerr \<Rightarrow> bool" where
  "is_ambiguous (AmbiguousWriteError _ _ _) = True"
| "is_ambiguous _ = False"

fun is_usage :: "goerr \<Rightarrow> bool" where
  "is_usage (UsageError _) = True"
| "is_usage _ = False"

fun is_server :: "goerr \<Rightarrow> bool" where
  "is_server (ServerError _ _) = True"
| "is_server _ = False"

fun is_framed :: "goerr \<Rightarrow> bool" where
  "is_framed (FramedResponseError _) = True"
| "is_framed _ = False"

definition as_ambiguous :: "goerr \<Rightarrow> bool" where
  "as_ambiguous e \<longleftrightarrow> list_ex is_ambiguous (err_chain e)"

definition as_usage :: "goerr \<Rightarrow> bool" where
  "as_usage e \<longleftrightarrow> list_ex is_usage (err_chain e)"

definition as_server :: "goerr \<Rightarrow> bool" where
  "as_server e \<longleftrightarrow> list_ex is_server (err_chain e)"

definition as_framed :: "goerr \<Rightarrow> bool" where
  "as_framed e \<longleftrightarrow> list_ex is_framed (err_chain e)"

lemma errors_is_self [simp]: "errors_is e e"
  by (simp add: errors_is_def)

lemma errors_is_wrapf [simp]: "errors_is (wrapf f as e) t \<longleftrightarrow> wrapf f as e = t \<or> errors_is e t"
  by (auto simp: errors_is_def)

lemma as_wrapf [simp]:
  "as_ambiguous (wrapf f as e) = as_ambiguous e" "as_usage (wrapf f as e) = as_usage e"
  "as_server (wrapf f as e) = as_server e" "as_framed (wrapf f as e) = as_framed e"
  by (simp_all add: as_ambiguous_def as_usage_def as_server_def as_framed_def)

lemma as_ambiguous_intro [simp]: "as_ambiguous (AmbiguousWriteError p k e)"
  by (simp add: as_ambiguous_def)

lemma as_usage_intro [simp]: "as_usage (UsageError e)"
  by (simp add: as_usage_def)

end
