(* ===== verification/Types.thy ===== *)
theory Types
  imports Errors
begin

text \<open>
  The data types of \<open>types.go\<close>: expirations, protocol response codes, results and the
  option structs of the meta commands, one record per struct with the source's fields
  behind a short prefix, and one datatype per enumeration.
\<close>

section \<open>Expirations\<close>

text \<open>
  Durations and timestamps are \<open>int64\<close> nanosecond counts, an expiration an \<open>int64\<close>
  number of seconds. \<open>now\<close> is what \<open>time.Now()\<close> returns, in nanoseconds since the epoch.
\<close>

type_synonym duration = int
type_synonym expiration = int

definition time_Second :: duration where
  "time_Second = 1000000000"

definition maxRelativeExpiration :: duration where
  "maxRelativeExpiration = 30 * 24 * 3600 * time_Second"

definition ExpiresAt :: "int \<Rightarrow> expiration" where
  "ExpiresAt t = t div time_Second"

definition ExpiresIn :: "int \<Rightarrow> duration \<Rightarrow> expiration" where
  "ExpiresIn now d =
     (if d < 0 then
        (let seconds = go_div d time_Second in if seconds = 0 then -1 else seconds)
      else if d = 0 then go_div d time_Second
      else if d > maxRelativeExpiration then ExpiresAt (now + d)
      else go_div (wrap64 (wrap64 (d + time_Second) - 1)) time_Second)"

lemmas duration_consts = time_Second_def maxRelativeExpiration_def

section \<open>Response codes and results\<close>

type_synonym response_code = bytes

abbreviation ResponseHeader :: response_code where "ResponseHeader \<equiv> ''HD''"
abbreviation ResponseValue :: response_code where "ResponseValue \<equiv> ''VA''"
abbreviation ResponseMiss :: response_code where "ResponseMiss \<equiv> ''EN''"
abbreviation ResponseNotStored :: response_code where "ResponseNotStored \<equiv> ''NS''"
abbreviation ResponseExists :: response_code where "ResponseExists \<equiv> ''EX''"
abbreviation ResponseNotFound :: response_code where "ResponseNotFound \<equiv> ''NF''"
abbreviation ResponseNoop :: response_code where "ResponseNoop \<equiv> ''MN''"
abbreviation ResponseDebug :: response_code where "ResponseDebug \<equiv> ''ME''"

record Metadata =
  md_CAS :: "64 word option"
  md_TTL :: "int option"
  md_Size :: "64 word option"
  md_ClientFlags :: "32 word option"
  md_LastAccess :: "64 word option"
  md_HitBefore :: "bool option"

definition no_metadata :: Metadata where
  "no_metadata = \<lparr>md_CAS = None, md_TTL = None, md_Size = None, md_ClientFlags = None,
     md_LastAccess = None, md_HitBefore = None\<rparr>"

datatype GetStatus = GetUnknown | GetHit | GetMiss | GetPending | GetUnchanged

datatype ValueState = ValueUnknown | ValueFresh | ValueStale | ValueMissing

datatype LeaseState = LeaseNone | LeaseGranted | LeaseBusy

record GetResult =
  gr_Key :: bytes
  gr_Status :: GetStatus
  gr_Value :: bytes
  gr_Metadata :: Metadata
  gr_ValueState :: ValueState
  gr_Lease :: LeaseState
  gr_ReturnedKey :: "bytes option"
  gr_Opaque :: bytes

definition zero_GetResult :: GetResult where
  "zero_GetResult = \<lparr>gr_Key = [], gr_Status = GetUnknown, gr_Value = [], gr_Metadata = no_metadata,
     gr_ValueState = ValueUnknown, gr_Lease = LeaseNone, gr_ReturnedKey = None, gr_Opaque = []\<rparr>"

definition Hit :: "GetResult \<Rightarrow> bool" where
  "Hit r \<longleftrightarrow> gr_Status r = GetHit"

datatype MutationStatus =
    MutationUnknown | MutationApplied | MutationNotFound | MutationAlreadyExists | MutationCASMismatch

record MutationResult =
  mr_Key :: bytes
  mr_Status :: MutationStatus
  mr_CAS :: "64 word option"
  mr_Size :: "64 word option"
  mr_ReturnedKey :: "bytes option"
  mr_Opaque :: bytes

definition Applied :: "MutationResult \<Rightarrow> bool" where
  "Applied r \<longleftrightarrow> mr_Status r = MutationApplied"

record ArithmeticResult =
  ar_Key :: bytes
  ar_Status :: MutationStatus
  ar_Value :: "64 word"
  ar_HasValue :: bool
  ar_Metadata :: Metadata
  ar_ReturnedKey :: "bytes option"
  ar_Opaque :: bytes

definition zero_ArithmeticResult :: ArithmeticResult where
  "zero_ArithmeticResult = \<lparr>ar_Key = [], ar_Status = MutationUnknown, ar_Value = 0,
     ar_HasValue = False, ar_Metadata = no_metadata, ar_ReturnedKey = None, ar_Opaque = []\<rparr>"

section \<open>Option structs\<close>

text \<open>
  \<open>StoreMode\<close> is a \<open>uint8\<close> in the source, so a caller can pass a number that names no
  mode; \<open>ModeOther\<close> stands for those.
\<close>

datatype StoreMode = ModeSet | ModeAdd | ModeReplace | ModeAppend | ModePrepend | ModeOther nat

record MetaGetOptions =
  mg_MetadataOnly :: bool
  mg_ReturnCAS :: bool
  mg_ReturnTTL :: bool
  mg_ReturnSize :: bool
  mg_ReturnLastAccess :: bool
  mg_ReturnHitBefore :: bool
  mg_ReturnClientFlags :: bool
  mg_ReturnKey :: bool
  mg_Touch :: "expiration option"
  mg_VivifyTTL :: "expiration option"
  mg_RefreshBefore :: "expiration option"
  mg_UnlessCAS :: "64 word option"
  mg_SetCAS :: "64 word option"
  mg_NoLRUBump :: bool
  mg_Opaque :: bytes

definition zero_MetaGetOptions :: MetaGetOptions where
  "zero_MetaGetOptions = \<lparr>mg_MetadataOnly = False, mg_ReturnCAS = False, mg_ReturnTTL = False,
     mg_ReturnSize = False, mg_ReturnLastAccess = False, mg_ReturnHitBefore = False,
     mg_ReturnClientFlags = False, mg_ReturnKey = False, mg_Touch = None, mg_VivifyTTL = None,
     mg_RefreshBefore = None, mg_UnlessCAS = None, mg_SetCAS = None, mg_NoLRUBump = False,
     mg_Opaque = []\<rparr>"

record MetaSetOptions =
  ms_TTL :: expiration
  ms_ClientFlags :: "32 word"
  ms_Mode :: StoreMode
  ms_CompareCAS :: "64 word option"
  ms_SetCAS :: "64 word option"
  ms_Invalidate :: bool
  ms_VivifyTTL :: "expiration option"
  ms_ReturnCAS :: bool
  ms_ReturnSize :: bool
  ms_ReturnKey :: bool
  ms_Opaque :: bytes

definition zero_MetaSetOptions :: MetaSetOptions where
  "zero_MetaSetOptions = \<lparr>ms_TTL = 0, ms_ClientFlags = 0, ms_Mode = ModeSet, ms_CompareCAS = None,
     ms_SetCAS = None, ms_Invalidate = False, ms_VivifyTTL = None, ms_ReturnCAS = False,
     ms_ReturnSize = False, ms_ReturnKey = False, ms_Opaque = []\<rparr>"

record MetaDeleteOptions =
  mdo_CompareCAS :: "64 word option"
  mdo_SetCAS :: "64 word option"
  mdo_Invalidate :: bool
  mdo_StaleFor :: "expiration option"
  mdo_DropValue :: bool
  mdo_ReturnKey :: bool
  mdo_Opaque :: bytes

definition zero_MetaDeleteOptions :: MetaDeleteOptions where
  "zero_MetaDeleteOptions = \<lparr>mdo_CompareCAS = None, mdo_SetCAS = None, mdo_Invalidate = False,
     mdo_StaleFor = None, mdo_DropValue = False, mdo_ReturnKey = False, mdo_Opaque = []\<rparr>"

record MetaArithmeticOptions =
  ma_Delta :: "64 word"
  ma_Decrement :: bool
  ma_Initial :: "64 word option"
  ma_InitialTTL :: "expiration option"
  ma_Touch :: "expiration option"
  ma_CompareCAS :: "64 word option"
  ma_SetCAS :: "64 word option"
  ma_MetadataOnly :: bool
  ma_ReturnTTL :: bool
  ma_ReturnCAS :: bool
  ma_ReturnKey :: bool
  ma_Opaque :: bytes

definition zero_MetaArithmeticOptions :: MetaArithmeticOptions where
  "zero_MetaArithmeticOptions = \<lparr>ma_Delta = 0, ma_Decrement = False, ma_Initial = None,
     ma_InitialTTL = None, ma_Touch = None, ma_CompareCAS = None, ma_SetCAS = None,
     ma_MetadataOnly = False, ma_ReturnTTL = False, ma_ReturnCAS = False, ma_ReturnKey = False,
     ma_Opaque = []\<rparr>"

record RawResponse =
  raw_Code :: response_code
  raw_Value :: bytes
  raw_Metadata :: Metadata
  raw_Key :: "bytes option"
  raw_Opaque :: bytes
  raw_Won :: bool
  raw_Busy :: bool
  raw_Stale :: bool
  raw_Flags :: "bytes list"
  raw_Debug :: "(bytes \<times> bytes) list"
  raw_parseErr :: "goerr option"

text \<open>
  \<open>raw_Debug\<close> is the Go map of an \<open>ME\<close> response as an association list with one entry
  per name, updated in place.
\<close>

definition raw_of_code :: "response_code \<Rightarrow> RawResponse" where
  "raw_of_code code = \<lparr>raw_Code = code, raw_Value = [], raw_Metadata = no_metadata, raw_Key = None,
     raw_Opaque = [], raw_Won = False, raw_Busy = False, raw_Stale = False, raw_Flags = [],
     raw_Debug = [], raw_parseErr = None\<rparr>"

abbreviation zero_RawResponse :: RawResponse where
  "zero_RawResponse \<equiv> raw_of_code []"

section \<open>Facts on expirations\<close>

lemma ExpiresIn_zero [simp]: "ExpiresIn now 0 = 0"
  by (simp add: ExpiresIn_def go_div_def)

lemma ExpiresIn_relative:
  assumes "0 < d" and "d \<le> maxRelativeExpiration"
  shows "ExpiresIn now d = (d + time_Second - 1) div time_Second"
proof -
  have "in_int64 (d + time_Second)" and "in_int64 (d + time_Second - 1)"
    using assms by (simp_all add: in_int64_def duration_consts)
  with assms show ?thesis
    by (simp add: ExpiresIn_def go_div_nonneg duration_consts)
qed

lemma ExpiresIn_absolute:
  "maxRelativeExpiration < d \<Longrightarrow> ExpiresIn now d = (now + d) div time_Second"
  by (simp add: ExpiresIn_def ExpiresAt_def duration_consts)

lemma ceil_bounds:
  assumes "0 < (d :: int)" and "0 < s"
  shows "d \<le> s * ((d + s - 1) div s)" and "s * ((d + s - 1) div s) < d + s"
proof -
  have "(d + s - 1) mod s < s" and "0 \<le> (d + s - 1) mod s"
    using assms by simp_all
  then show "d \<le> s * ((d + s - 1) div s)" and "s * ((d + s - 1) div s) < d + s"
    using mult_div_mod_eq [of s "d + s - 1"] by linarith+
qed

text \<open>
  A positive lifetime is never encoded as the zero that means "no expiration". Up to
  30 days it becomes the number of whole seconds that covers the duration, rounded up by
  less than a second, and stays in the range memcached reads as relative; beyond 30 days it
  becomes the absolute Unix time, which memcached cannot mistake for a relative one when
  the clock is past the first second of the epoch.
\<close>

theorem expires_in_positive:
  assumes "0 < d" and "time_Second \<le> now"
  shows "(d \<le> maxRelativeExpiration \<and> 1 \<le> ExpiresIn now d \<and> ExpiresIn now d \<le> 2592000 \<and>
          d \<le> time_Second * ExpiresIn now d \<and> time_Second * ExpiresIn now d < d + time_Second) \<or>
         (maxRelativeExpiration < d \<and> 2592000 < ExpiresIn now d \<and>
          time_Second * ExpiresIn now d \<le> now + d \<and> now + d < time_Second * (ExpiresIn now d + 1))"
proof (cases "d \<le> maxRelativeExpiration")
  case True
  then have e: "ExpiresIn now d = (d + time_Second - 1) div time_Second"
    using assms ExpiresIn_relative by blast
  have s: "(0 :: int) < time_Second" by (simp add: time_Second_def)
  have "1 \<le> ExpiresIn now d" and "ExpiresIn now d \<le> 2592000"
    using ceil_bounds [OF assms(1) s] assms(1) True
    unfolding e [symmetric] by (simp_all add: duration_consts)
  with True ceil_bounds [OF assms(1) s] show ?thesis
    unfolding e [symmetric] by simp
next
  case False
  then have e: "ExpiresIn now d = (now + d) div time_Second"
    by (simp add: ExpiresIn_absolute)
  have "(2592001 * time_Second) div time_Second \<le> (now + d) div time_Second"
    using assms(2) False by (intro zdiv_mono1) (simp_all add: duration_consts)
  then have "2592000 < ExpiresIn now d" by (simp add: e time_Second_def)
  moreover have "(now + d) mod time_Second < time_Second" "0 \<le> (now + d) mod time_Second"
    by (simp_all add: time_Second_def)
  then have "time_Second * ExpiresIn now d \<le> now + d"
    and "now + d < time_Second * (ExpiresIn now d + 1)"
    using mult_div_mod_eq [of time_Second "now + d"] unfolding e distrib_left by linarith+
  ultimately show ?thesis using False by simp
qed

theorem expires_in_positive_witness:
  "ExpiresIn 1700000000000000000 1500000000 = 2 \<and>
   ((1500000000 \<le> maxRelativeExpiration \<and> 1 \<le> ExpiresIn 1700000000000000000 1500000000 \<and>
     ExpiresIn 1700000000000000000 1500000000 \<le> 2592000 \<and>
     1500000000 \<le> time_Second * ExpiresIn 1700000000000000000 1500000000 \<and>
     time_Second * ExpiresIn 1700000000000000000 1500000000 < 1500000000 + time_Second) \<or>
    (maxRelativeExpiration < 1500000000 \<and> 2592000 < ExpiresIn 1700000000000000000 1500000000 \<and>
     time_Second * ExpiresIn 1700000000000000000 1500000000 \<le> 1700000000000000000 + 1500000000 \<and>
     1700000000000000000 + 1500000000 < time_Second * (ExpiresIn 1700000000000000000 1500000000 + 1)))"
proof -
  have h: "(0 :: int) < 1500000000" "time_Second \<le> 1700000000000000000"
    by (simp_all add: time_Second_def)
  have "ExpiresIn 1700000000000000000 1500000000 = 2"
    by (simp add: ExpiresIn_def duration_consts go_div_def wrap64_def)
  with expires_in_positive [OF h] show ?thesis by blast
qed

end
