(* ===== verification/Wire.thy ===== *)
theory Wire
  imports Types "HOL-Library.AList"
begin

text \<open>
  The wire format of \<open>wire.go\<close>: framing a meta command into bytes, reading one response
  frame from a connection, and parsing the flags of a response. A reader is the bytes the
  connection still delivers and the error it ends with; every read returns the reader
  after it.
\<close>

section \<open>Commands\<close>

definition maxWireKey :: nat where "maxWireKey = 250"
definition maxLineSize :: nat where "maxLineSize = 64 * 1024"

record MetaCommand =
  mc_Command :: bytes
  mc_Key :: bytes
  mc_Flags :: "bytes list"
  mc_Value :: bytes
  mc_HasValue :: bool

definition encodeKey :: "bytes \<Rightarrow> (bytes \<times> bool) result" where
  "encodeKey key =
     (if key = [] then Inl (errorf ''memcache: key must not be empty'' [])
      else
        let binary = list_ex ctl_byte key;
            wire = (if binary then b64_encode key else key)
        in if length wire > maxWireKey
           then Inl (errorf ''memcache: encoded key is %d bytes; maximum is %d''
                  [FInt (int (length wire)), FInt (int maxWireKey)])
           else Inr (wire, binary))"

definition validateOpaque :: "bytes \<Rightarrow> unit result" where
  "validateOpaque token =
     (if token = [] then Inr ()
      else if length token > 32 then Inl (errorf ''memcache: opaque token exceeds 32 bytes'' [])
      else if list_ex ctl_byte token
        then Inl (errorf ''memcache: opaque token contains whitespace or control bytes'' [])
      else Inr ())"

text \<open>
  The flag loop of \<open>marshal\<close>. Its \<open>IndexFunc\<close> looks at runes, and a rune at most
  \<open>0x20\<close> or equal to \<open>0x7f\<close> is always a single byte of that value, so the bytes
  are what is checked.
\<close>

fun marshalFlags :: "bytes list \<Rightarrow> bytes result" where
  "marshalFlags [] = Inr []"
| "marshalFlags (flag # flags) =
     (if flag = [] \<or> list_ex ctl_byte flag
      then Inl (errorf ''memcache: invalid meta flag %q'' [FStr flag])
      else and_then (marshalFlags flags) (\<lambda>rest. Inr ([SP] @ flag @ rest)))"

definition wireFlags :: "bool \<Rightarrow> bytes list \<Rightarrow> bytes list" where
  "wireFlags binary flags =
     (if binary \<and> \<not> List.member flags ''b'' then flags @ [''b''] else flags)"

definition marshal :: "MetaCommand \<Rightarrow> bytes result" where
  "marshal m =
     and_then (ensure (List.member [''mg'', ''ms'', ''md'', ''ma'', ''me''] (mc_Command m))
        (errorf ''memcache: unsupported meta command %q'' [FStr (mc_Command m)])) (\<lambda>_.
     and_then (ensure (\<not> (mc_Command m = ''ms'' \<and> \<not> mc_HasValue m))
        (errorf ''memcache: ms requires HasValue'' [])) (\<lambda>_.
     and_then (ensure (\<not> (mc_Command m \<noteq> ''ms'' \<and> mc_HasValue m))
        (errorf ''memcache: %s does not accept a value'' [FStr (mc_Command m)])) (\<lambda>_.
     and_then (encodeKey (mc_Key m)) (\<lambda>(key, binary).
     and_then (ensure (\<not> (binary \<and> mc_Command m = ''me''))
        (errorf ''memcache: meta debug does not reliably support binary keys'' [])) (\<lambda>_.
     and_then (marshalFlags (wireFlags binary (mc_Flags m))) (\<lambda>flags.
       Inr (mc_Command m @ [SP] @ key @
            (if mc_HasValue m then [SP] @ format_nat (length (mc_Value m)) else []) @
            flags @ CRLF @
            (if mc_HasValue m then mc_Value m @ CRLF else []))))))))"

section \<open>Reading bytes\<close>

record reader =
  rd_buf :: bytes
  rd_err :: goerr

text \<open>
  \<open>bufio.Reader.ReadSlice\<close> with the default buffer of 4096 bytes: the bytes through the
  newline, or a full buffer without one, or what is left with the connection's error.
\<close>

definition bufioSize :: nat where "bufioSize = 4096"

datatype slice = SliceLine bytes | SliceFull bytes | SliceErr bytes goerr

definition readSlice :: "reader \<Rightarrow> slice \<times> reader" where
  "readSlice r =
     (let chunk = take bufioSize (rd_buf r) in
      if List.member chunk LF then
        (let line = takeWhile (\<lambda>c. c \<noteq> LF) chunk @ [LF]
         in (SliceLine line, r\<lparr>rd_buf := drop (length line) (rd_buf r)\<rparr>))
      else if bufioSize \<le> length (rd_buf r)
        then (SliceFull chunk, r\<lparr>rd_buf := drop bufioSize (rd_buf r)\<rparr>)
      else (SliceErr (rd_buf r) (rd_err r), r\<lparr>rd_buf := []\<rparr>))"

definition finishLine :: "bytes \<Rightarrow> bytes result" where
  "finishLine line =
     (if length line < 2 \<or> line ! (length line - 2) \<noteq> CR
      then Inl (ProtocolError ''response line is not CRLF terminated'' [])
      else Inr (take (length line - 2) line))"

abbreviation lineTooLong :: goerr where
  "lineTooLong \<equiv> ProtocolError ''response line exceeds 64 KiB'' []"

function readLineLoop :: "bytes \<Rightarrow> reader \<Rightarrow> bytes result \<times> reader" where
  "readLineLoop line r =
     (case readSlice r of
        (SliceLine part, r') \<Rightarrow>
          if length (line @ part) > maxLineSize then (Inl lineTooLong, r')
          else (finishLine (line @ part), r')
      | (SliceFull part, r') \<Rightarrow>
          if length (line @ part) > maxLineSize then (Inl lineTooLong, r')
          else readLineLoop (line @ part) r'
      | (SliceErr part e, r') \<Rightarrow>
          if length (line @ part) > maxLineSize then (Inl lineTooLong, r')
          else (Inl e, r'))"
  by pat_completeness auto
termination
  by (relation "measure (\<lambda>(line, r). length (rd_buf r))")
    (auto simp: readSlice_def Let_def bufioSize_def split: if_splits)

declare readLineLoop.simps [simp del]

definition readLine :: "reader \<Rightarrow> bytes result \<times> reader" where
  "readLine r = readLineLoop [] r"

text \<open>\<open>io.ReadFull\<close> into a buffer of \<open>n\<close> bytes.\<close>

definition readFull :: "nat \<Rightarrow> reader \<Rightarrow> bytes result \<times> reader" where
  "readFull n r =
     (if n \<le> length (rd_buf r)
      then (Inr (take n (rd_buf r)), r\<lparr>rd_buf := drop n (rd_buf r)\<rparr>)
      else (Inl (if rd_err r = IoEOF \<and> rd_buf r \<noteq> [] then IoUnexpectedEOF else rd_err r),
            r\<lparr>rd_buf := []\<rparr>))"

section \<open>Response flags\<close>

function asciiFields :: "bytes \<Rightarrow> bytes list" where
  "asciiFields line =
     (let start = dropWhile (\<lambda>c. c = SP) line in
      if start = [] then []
      else takeWhile (\<lambda>c. c \<noteq> SP) start # asciiFields (dropWhile (\<lambda>c. c \<noteq> SP) start))"
  by pat_completeness auto
termination
proof (relation "measure length", goal_cases)
  case (2 line start)
  then have "start \<noteq> []" and "hd start \<noteq> SP" and "length start \<le> length line"
    using hd_dropWhile [of "\<lambda>c. c = SP" line] length_dropWhile_le [of "\<lambda>c. c = SP" line] by auto
  then have "length (dropWhile (\<lambda>c. c \<noteq> SP) start) < length start"
    using length_dropWhile_le [of "\<lambda>c. c \<noteq> SP" "tl start"] by (cases start) auto
  with \<open>length start \<le> length line\<close> show ?case by simp
qed simp

declare asciiFields.simps [simp del]

text \<open>
  The state of the flag loop: the response, whether the \<open>b\<close> flag was seen, and the first
  error. \<open>recordErr\<close> keeps the first one.
\<close>

type_synonym flag_state = "RawResponse \<times> bool \<times> goerr option"

definition recordErr :: "goerr \<Rightarrow> goerr option \<Rightarrow> goerr option" where
  "recordErr e first = (case first of None \<Rightarrow> Some e | Some e0 \<Rightarrow> Some e0)"

abbreviation badFlag :: "char \<Rightarrow> goerr" where
  "badFlag code \<equiv> ProtocolError ''invalid %c response flag'' [FStr [code]]"

definition setMeta :: "(Metadata \<Rightarrow> Metadata) \<Rightarrow> RawResponse \<Rightarrow> RawResponse" where
  "setMeta f r = r\<lparr>raw_Metadata := f (raw_Metadata r)\<rparr>"

fun parseFlag :: "bytes \<Rightarrow> flag_state \<Rightarrow> flag_state" where
  "parseFlag [] st = st"
| "parseFlag (code # token) (r, b64, e) =
     (if code = CHR ''c'' then
        (case parse_uint 64 token of
           None \<Rightarrow> (r, b64, recordErr (badFlag code) e)
         | Some v \<Rightarrow> (setMeta (md_CAS_update (\<lambda>_. Some v)) r, b64, e))
      else if code = CHR ''t'' then
        (case parse_int token of
           None \<Rightarrow> (r, b64, recordErr (ProtocolError ''invalid t response flag'' []) e)
         | Some v \<Rightarrow> (setMeta (md_TTL_update (\<lambda>_. Some v)) r, b64, e))
      else if code = CHR ''s'' then
        (case parse_uint 64 token of
           None \<Rightarrow> (r, b64, recordErr (badFlag code) e)
         | Some v \<Rightarrow> (setMeta (md_Size_update (\<lambda>_. Some v)) r, b64, e))
      else if code = CHR ''f'' then
        (case parse_uint 32 token of
           None \<Rightarrow> (r, b64, recordErr (badFlag code) e)
         | Some v \<Rightarrow> (setMeta (md_ClientFlags_update (\<lambda>_. Some (ucast v))) r, b64, e))
      else if code = CHR ''l'' then
        (case parse_uint 64 token of
           None \<Rightarrow> (r, b64, recordErr (badFlag code) e)
         | Some v \<Rightarrow> (setMeta (md_LastAccess_update (\<lambda>_. Some v)) r, b64, e))
      else if code = CHR ''h'' then
        (if token \<noteq> ''0'' \<and> token \<noteq> ''1''
         then (r, b64, recordErr (ProtocolError ''invalid h response flag'' []) e)
         else (setMeta (md_HitBefore_update (\<lambda>_. Some (token = ''1''))) r, b64, e))
      else if code = CHR ''k'' then (r\<lparr>raw_Key := Some token\<rparr>, b64, e)
      else if code = CHR ''O'' then (r\<lparr>raw_Opaque := token\<rparr>, b64, e)
      else if code = CHR ''W'' then (r\<lparr>raw_Won := True\<rparr>, b64, e)
      else if code = CHR ''Z'' then (r\<lparr>raw_Busy := True\<rparr>, b64, e)
      else if code = CHR ''X'' then (r\<lparr>raw_Stale := True\<rparr>, b64, e)
      else if code = CHR ''b'' then (r, True, e)
      else (r, b64, e))"

definition finishFlags :: "flag_state \<Rightarrow> RawResponse \<times> goerr option" where
  "finishFlags st =
     (case st of (r, b64, e) \<Rightarrow>
        if b64 then
          (case raw_Key r of
             None \<Rightarrow> (r, e)
           | Some k \<Rightarrow>
               (case b64_decode k of
                  None \<Rightarrow> (r, recordErr (ProtocolError ''invalid base64 response key'' []) e)
                | Some k' \<Rightarrow> (r\<lparr>raw_Key := Some k'\<rparr>, e)))
        else (r, e))"

definition parseResponseFlags :: "RawResponse \<Rightarrow> RawResponse \<times> goerr option" where
  "parseResponseFlags r = finishFlags (fold parseFlag (raw_Flags r) (r, False, None))"

section \<open>Reading a response\<close>

definition plainCodes :: "response_code list" where
  "plainCodes = [ResponseHeader, ResponseMiss, ResponseNotStored, ResponseExists,
     ResponseNotFound, ResponseNoop]"

definition debugFields :: "bytes list \<Rightarrow> (bytes \<times> bytes) list" where
  "debugFields parts =
     fold (\<lambda>field m. case cut (CHR ''='') field of None \<Rightarrow> m | Some (n, v) \<Rightarrow> AList.update n v m)
       parts []"

text \<open>
  \<open>readRawResponse\<close> returns a response and an error. An error with the zero response is
  fatal for the connection; a \<open>FramedResponseError\<close> comes with the response whose frame was
  consumed. The value part of a \<open>VA\<close> frame is \<open>readValue\<close>.
\<close>

type_synonym read_result = "RawResponse \<times> goerr option"

abbreviation fatal :: "goerr \<Rightarrow> read_result" where
  "fatal e \<equiv> (zero_RawResponse, Some e)"

definition flagged :: "RawResponse \<Rightarrow> bytes list \<Rightarrow> read_result" where
  "flagged result flags =
     (case parseResponseFlags (result\<lparr>raw_Flags := flags\<rparr>) of
        (r, None) \<Rightarrow> (r, None)
      | (r, Some e) \<Rightarrow> (r\<lparr>raw_parseErr := Some e\<rparr>, Some (FramedResponseError e)))"

definition maxInt :: nat where "maxInt = 2 ^ 63 - 1"

definition readValue :: "nat \<Rightarrow> bytes list \<Rightarrow> reader \<Rightarrow> bytes result \<times> reader" where
  "readValue maxItemSize parts r =
     (if length parts < 2 then (Inl (ProtocolError ''VA response omitted value length'' []), r)
      else case parse_nat 63 (parts ! 1) of
        None \<Rightarrow> (Inl (ProtocolError ''invalid VA value length'' []), r)
      | Some valueSize \<Rightarrow>
          if maxItemSize > 0 \<and> valueSize > maxItemSize
          then (Inl (ProtocolError ''response value exceeds configured maximum'' []), r)
          else if valueSize > maxInt
          then (Inl (ProtocolError ''response value is too large for this platform'' []), r)
          else (case readFull valueSize r of
              (Inl e, r1) \<Rightarrow> (Inl e, r1)
            | (Inr value, r1) \<Rightarrow>
                (case readFull 2 r1 of
                   (Inl e, r2) \<Rightarrow> (Inl e, r2)
                 | (Inr crlf, r2) \<Rightarrow>
                     if crlf \<noteq> CRLF
                     then (Inl (ProtocolError ''value is not CRLF terminated'' []), r2)
                     else (Inr value, r2))))"

text \<open>\<open>respondLine\<close> is \<open>readRawResponse\<close> after its line was read.\<close>

definition respondLine :: "nat \<Rightarrow> bytes \<Rightarrow> reader \<Rightarrow> read_result \<times> reader" where
  "respondLine maxItemSize ln r =
     (if ln = ''ERROR'' then (fatal (ServerError ''ERROR'' []), r)
      else if has_prefix ln ''CLIENT_ERROR'' then
        (fatal (ServerError ''CLIENT_ERROR'' (trim_space (trim_prefix ln ''CLIENT_ERROR''))), r)
      else if has_prefix ln ''SERVER_ERROR'' then
        (fatal (ServerError ''SERVER_ERROR'' (trim_space (trim_prefix ln ''SERVER_ERROR''))), r)
      else (case asciiFields ln of
          [] \<Rightarrow> (fatal (ProtocolError ''empty response'' []), r)
        | code # args \<Rightarrow>
            if code = ResponseValue then
              (case readValue maxItemSize (code # args) r of
                 (Inl e, r') \<Rightarrow> (fatal e, r')
               | (Inr value, r') \<Rightarrow>
                   (flagged ((raw_of_code code)\<lparr>raw_Value := value\<rparr>) (drop 1 args), r'))
            else if List.member plainCodes code then (flagged (raw_of_code code) args, r)
            else if code = ResponseDebug then
              (case args of
                 [] \<Rightarrow> (fatal (ProtocolError ''ME response omitted key'' []), r)
               | key # debug \<Rightarrow>
                   (((raw_of_code code)\<lparr>raw_Key := Some key, raw_Flags := args,
                        raw_Debug := debugFields debug\<rparr>, None), r))
            else (fatal (ProtocolError ''unexpected response code %q'' [FStr code]), r)))"

definition readRawResponse :: "nat \<Rightarrow> reader \<Rightarrow> read_result \<times> reader" where
  "readRawResponse maxItemSize r0 =
     (case readLine r0 of
        (Inl e, r) \<Rightarrow> (fatal e, r)
      | (Inr ln, r) \<Rightarrow> respondLine maxItemSize ln r)"

lemma readRawResponse_line [simp]:
  "readLine r = (Inr ln, r1) \<Longrightarrow> readRawResponse mx r = respondLine mx ln r1"
  by (simp add: readRawResponse_def)

section \<open>Lines\<close>

lemma takeWhile_chunk:
  assumes "LF \<notin> set (take n s)"
  shows "takeWhile (\<lambda>c. c \<noteq> LF) s = take n s @ takeWhile (\<lambda>c. c \<noteq> LF) (drop n s)"
proof -
  have "takeWhile (\<lambda>c. c \<noteq> LF) (take n s @ drop n s) =
      take n s @ takeWhile (\<lambda>c. c \<noteq> LF) (drop n s)"
    using assms by (intro takeWhile_append2) auto
  then show ?thesis by simp
qed

lemma takeWhile_take_stop:
  assumes "LF \<in> set (take n s)"
  shows "takeWhile (\<lambda>c. c \<noteq> LF) (take n s) = takeWhile (\<lambda>c. c \<noteq> LF) s"
proof -
  have "takeWhile (\<lambda>c. c \<noteq> LF) (take n s @ drop n s) = takeWhile (\<lambda>c. c \<noteq> LF) (take n s)"
    using assms by (intro takeWhile_append1) auto
  then show ?thesis by simp
qed

lemma split_at_LF:
  assumes "LF \<in> set s"
  obtains w rest where "s = w @ LF # rest" and "LF \<notin> set w" and "takeWhile (\<lambda>c. c \<noteq> LF) s = w"
proof -
  from split_list_first [OF assms] obtain w rest where "s = w @ LF # rest" "LF \<notin> set w" by blast
  moreover from this have "takeWhile (\<lambda>c. c \<noteq> LF) s = w" by (simp add: takeWhile_append)
  ultimately show thesis by (rule that)
qed

lemma head_in_take [simp]: "0 < n \<Longrightarrow> x \<in> set (take n (x # xs))"
  by (simp add: take_Cons')

text \<open>
  The chunked loop reads the same line whatever the buffer boundaries: the bytes through
  the first newline when they fit the limit, an error otherwise.
\<close>

lemma readLineLoop_line:
  assumes "rd_buf r = w @ LF # rest" and "LF \<notin> set w" and "length line + length w < maxLineSize"
  shows "readLineLoop line r = (finishLine (line @ w @ [LF]), r\<lparr>rd_buf := rest\<rparr>)"
  using assms
proof (induction line r arbitrary: w rule: readLineLoop.induct)
  case (1 line r)
  show ?case
  proof (cases "length w < bufioSize")
    case True
    then have m: "LF \<in> set (take bufioSize (rd_buf r))" using "1.prems" by simp
    have "takeWhile (\<lambda>c. c \<noteq> LF) (take bufioSize (rd_buf r)) = w"
      unfolding takeWhile_take_stop [OF m] using "1.prems" by (simp add: takeWhile_append)
    with m "1.prems" have "readSlice r = (SliceLine (w @ [LF]), r\<lparr>rd_buf := rest\<rparr>)"
      by (simp add: readSlice_def)
    with "1.prems" show ?thesis by (subst readLineLoop.simps) simp
  next
    case False
    let ?c = "take bufioSize w" and ?d = "drop bufioSize w"
    have c: "?c @ ?d = w" "length ?c = bufioSize" using False by simp_all
    have s: "readSlice r = (SliceFull ?c, r\<lparr>rd_buf := ?d @ LF # rest\<rparr>)"
      using "1.prems" False by (auto simp: readSlice_def Let_def dest: in_set_takeD)
    have "readLineLoop (line @ ?c) (r\<lparr>rd_buf := ?d @ LF # rest\<rparr>) =
        (finishLine ((line @ ?c) @ ?d @ [LF]), (r\<lparr>rd_buf := ?d @ LF # rest\<rparr>)\<lparr>rd_buf := rest\<rparr>)"
      using "1.prems" False c
      by (intro "1.IH" [OF s [symmetric] refl]) (auto dest: in_set_dropD)
    also have "(line @ ?c) @ ?d @ [LF] = line @ w @ [LF]"
      by (metis append_assoc c(1))
    finally have "readLineLoop (line @ ?c) (r\<lparr>rd_buf := ?d @ LF # rest\<rparr>) =
        (finishLine (line @ w @ [LF]), r\<lparr>rd_buf := rest\<rparr>)" by simp
    moreover have "\<not> maxLineSize < length (line @ ?c)" using "1.prems" c False by simp
    ultimately show ?thesis using s by (subst readLineLoop.simps) simp
  qed
qed

lemma readLineLoop_fails:
  assumes "LF \<notin> set (take (maxLineSize - length line) (rd_buf r))"
  shows "\<exists>e. fst (readLineLoop line r) = Inl e"
  using assms
proof (induction line r rule: readLineLoop.induct)
  case (1 line r)
  obtain sl r' where s: "readSlice r = (sl, r')" by (cases "readSlice r")
  show ?case
  proof (cases sl)
    case (SliceErr part e)
    then show ?thesis using s by (subst readLineLoop.simps) simp
  next
    case (SliceFull part)
    then have part: "part = take bufioSize (rd_buf r)" "rd_buf r' = drop bufioSize (rd_buf r)"
      "length part = bufioSize" using s by (auto simp: readSlice_def Let_def split: if_splits)
    show ?thesis
    proof (cases "length (line @ part) > maxLineSize")
      case True
      with SliceFull s show ?thesis by (subst readLineLoop.simps) simp
    next
      case False
      have "set (take (maxLineSize - length (line @ part)) (drop bufioSize (rd_buf r))) \<subseteq>
          set (take (maxLineSize - length line) (rd_buf r))"
        using False part by (simp add: take_drop) (metis set_drop_subset)
      with "1.prems" part have "LF \<notin> set (take (maxLineSize - length (line @ part)) (rd_buf r'))"
        by auto
      with "1.IH" [OF s [symmetric] SliceFull False] SliceFull s False show ?thesis
        by (subst readLineLoop.simps) simp
    qed
  next
    case (SliceLine part)
    then have "LF \<in> set (rd_buf r)" and part: "part = takeWhile (\<lambda>c. c \<noteq> LF) (rd_buf r) @ [LF]"
      using s by (auto simp: readSlice_def Let_def takeWhile_take_stop dest: in_set_takeD split: if_splits)
    then obtain w rest where w: "rd_buf r = w @ LF # rest" "part = w @ [LF]"
      using split_at_LF by metis
    have "maxLineSize < length (line @ part)"
    proof (rule ccontr)
      assume "\<not> maxLineSize < length (line @ part)"
      then have "length w < maxLineSize - length line" using w by simp
      then have "LF \<in> set (take (maxLineSize - length line) (rd_buf r))" using w by simp
      with "1.prems" show False by simp
    qed
    with SliceLine s show ?thesis by (subst readLineLoop.simps) simp
  qed
qed

lemma finishLine_Inr:
  "finishLine (w @ [LF]) = Inr text \<longleftrightarrow> w = text @ [CR]"
  by (cases w rule: rev_cases) (auto simp: finishLine_def nth_append)

text \<open>A successful line is exactly the bytes before the first newline, less its carriage return.\<close>

lemma readLine_Inr:
  "readLine r = (Inr text, r') \<longleftrightarrow>
     LF \<notin> set text \<and> length text + 2 \<le> maxLineSize \<and>
     (\<exists>rest. rd_buf r = text @ CRLF @ rest \<and> r' = r\<lparr>rd_buf := rest\<rparr>)"
proof
  assume h: "readLine r = (Inr text, r')"
  have in_lim: "LF \<in> set (take maxLineSize (rd_buf r))"
    using readLineLoop_fails [of "[]" r] h by (auto simp: readLine_def)
  then obtain w rest where w: "rd_buf r = w @ LF # rest" "LF \<notin> set w"
    using split_at_LF [of "rd_buf r"] in_set_takeD by metis
  have "length w < maxLineSize"
  proof (rule ccontr)
    assume "\<not> length w < maxLineSize"
    then have "set (take maxLineSize (rd_buf r)) \<subseteq> set w" using w by (auto dest: in_set_takeD)
    with in_lim w show False by auto
  qed
  with h w have "finishLine (w @ [LF]) = Inr text" "r' = r\<lparr>rd_buf := rest\<rparr>"
    by (simp_all add: readLine_def readLineLoop_line)
  with w \<open>length w < maxLineSize\<close> show "LF \<notin> set text \<and> length text + 2 \<le> maxLineSize \<and>
     (\<exists>rest. rd_buf r = text @ CRLF @ rest \<and> r' = r\<lparr>rd_buf := rest\<rparr>)"
    by (auto simp: finishLine_Inr)
next
  assume "LF \<notin> set text \<and> length text + 2 \<le> maxLineSize \<and>
     (\<exists>rest. rd_buf r = text @ CRLF @ rest \<and> r' = r\<lparr>rd_buf := rest\<rparr>)"
  then obtain rest where h: "LF \<notin> set text" "length text + 2 \<le> maxLineSize"
    "rd_buf r = text @ CRLF @ rest" "r' = r\<lparr>rd_buf := rest\<rparr>" by blast
  then have "readLineLoop [] r = (finishLine ((text @ [CR]) @ [LF]), r\<lparr>rd_buf := rest\<rparr>)"
    by (subst readLineLoop_line [where w = "text @ [CR]"]) auto
  moreover have "finishLine ((text @ [CR]) @ [LF]) = Inr text"
    by (simp only: finishLine_Inr)
  ultimately show "readLine r = (Inr text, r')"
    using h by (simp add: readLine_def)
qed

end
