(* ===== verification/Wire_Commands.thy ===== *)
theory Wire_Commands
  imports Wire
begin

text \<open>
  What a marshalled command is on the wire: one line of clean tokens, the announced value
  bytes, and nothing else. The reference view of a line is its token list, joined by
  \<open>spaced\<close> and split by the client's own \<open>asciiFields\<close>.
\<close>

section \<open>Tokens and lines\<close>

definition token :: "bytes \<Rightarrow> bool" where
  "token t \<longleftrightarrow> t \<noteq> [] \<and> clean t"

fun spaced :: "bytes list \<Rightarrow> bytes" where
  "spaced [] = []"
| "spaced (t # ts) = [SP] @ t @ spaced ts"

lemma spaced_append [simp]: "spaced (ts @ us) = spaced ts @ spaced us"
  by (induction ts) simp_all

lemma token_no_SP: "token t \<Longrightarrow> SP \<notin> set t"
  by (simp add: token_def clean_not_in)

lemma asciiFields_Nil [simp]: "asciiFields [] = []"
  by (subst asciiFields.simps) simp

lemma asciiFields_SP [simp]: "asciiFields (SP # s) = asciiFields s"
  by (subst (1 2) asciiFields.simps) simp

lemma asciiFields_token:
  assumes "token t" and "s = [] \<or> hd s = SP"
  shows "asciiFields (t @ s) = t # asciiFields s"
proof -
  have sp: "SP \<notin> set t" and "t \<noteq> []"
    using assms(1) token_no_SP by (auto simp only: token_def)
  then have n: "t \<noteq> []" "hd t \<noteq> SP" "\<forall>c \<in> set t. c \<noteq> SP"
    using hd_in_set [of t] by metis+
  then have "dropWhile (\<lambda>c. c = SP) (t @ s) = t @ s" by (cases t) auto
  moreover have "takeWhile (\<lambda>c. c \<noteq> SP) (t @ s) = t" and "dropWhile (\<lambda>c. c \<noteq> SP) (t @ s) = s"
    using n assms(2) by (cases s; simp add: takeWhile_append dropWhile_append)+
  ultimately show ?thesis using n by (subst asciiFields.simps) (simp add: Let_def)
qed

lemma asciiFields_spaced: "list_all token ts \<Longrightarrow> asciiFields (spaced ts) = ts"
proof (induction ts)
  case (Cons t ts)
  have "spaced ts = [] \<or> hd (spaced ts) = SP" by (cases ts) auto
  with Cons show ?case by (simp add: asciiFields_token)
qed simp

lemma asciiFields_line [simp]: "list_all token (t # ts) \<Longrightarrow> asciiFields (t @ spaced ts) = t # ts"
  using asciiFields_spaced [of "t # ts"] by simp

lemma spaced_no_newline: "list_all token ts \<Longrightarrow> CR \<notin> set (spaced ts) \<and> LF \<notin> set (spaced ts)"
  by (induction ts) (auto simp: token_def clean_not_in)

section \<open>Keys\<close>

lemma list_ex_ctl [simp]: "list_ex ctl_byte s \<longleftrightarrow> \<not> clean s"
  by (auto simp: list_ex_iff clean_def)

lemma encodeKey_Inr:
  "encodeKey key = Inr (w, b) \<longleftrightarrow>
     key \<noteq> [] \<and> b = (\<not> clean key) \<and> w = (if b then b64_encode key else key) \<and> length w \<le> maxWireKey"
  by (auto simp: encodeKey_def Let_def)

lemma encodeKey_token: "encodeKey key = Inr (w, b) \<Longrightarrow> token w"
  by (auto simp: encodeKey_Inr token_def)

text \<open>
  Every accepted key is on the wire as a non-empty run of at most 250 bytes without
  whitespace or control bytes, and the key is recovered from it: as it is when the
  \<open>b\<close> flag is off, by base64 decoding when it is on. A key is refused exactly when it is
  empty or its encoding is longer than 250 bytes.
\<close>

theorem key_round_trip:
  "case encodeKey key of
     Inr (w, b) \<Rightarrow> key \<noteq> [] \<and> w \<noteq> [] \<and> clean w \<and> length w \<le> 250 \<and>
       (b \<longleftrightarrow> \<not> clean key) \<and> (if b then b64_decode w = Some key else w = key)
   | Inl e \<Rightarrow> key = [] \<or> 250 < length (if clean key then key else b64_encode key)"
proof (cases "encodeKey key")
  case (Inl e)
  then show ?thesis by (auto simp: encodeKey_def Let_def maxWireKey_def split: if_splits)
next
  case (Inr p)
  then obtain w b where k: "encodeKey key = Inr (w, b)" by (cases p) auto
  have "key \<noteq> [] \<and> b = (\<not> clean key) \<and> w = (if b then b64_encode key else key) \<and>
      length w \<le> maxWireKey" and "token w"
    using k encodeKey_token [OF k] unfolding encodeKey_Inr by auto
  with k show ?thesis
    by (cases "clean key") (auto simp: token_def maxWireKey_def b64_decode_encode)
qed

section \<open>Marshalling\<close>

lemma marshalFlags_Inr:
  "marshalFlags fs = Inr out \<longleftrightarrow> list_all token fs \<and> out = spaced fs"
  by (induction fs arbitrary: out) (auto simp: token_def result_simps)

lemma token_b [simp]: "token ''b''"
  by (simp add: token_def ctl_byte_def)

lemma list_all_wireFlags [simp]: "list_all token (wireFlags b fs) \<longleftrightarrow> list_all token fs"
  by (auto simp: wireFlags_def)

text \<open>The token list of a command: what its line says.\<close>

definition wireTokens :: "MetaCommand \<Rightarrow> bytes \<Rightarrow> bool \<Rightarrow> bytes list" where
  "wireTokens m key binary =
     mc_Command m # key # (if mc_HasValue m then [format_nat (length (mc_Value m))] else []) @
       wireFlags binary (mc_Flags m)"

definition wireLine :: "MetaCommand \<Rightarrow> bytes \<Rightarrow> bool \<Rightarrow> bytes" where
  "wireLine m key binary = tl (spaced (wireTokens m key binary))"

definition metaCommands :: "bytes list" where
  "metaCommands = [''mg'', ''ms'', ''md'', ''ma'', ''me'']"

lemma token_metaCommand: "List.member metaCommands c \<Longrightarrow> token c"
  by (auto simp: metaCommands_def token_def ctl_byte_def)

lemma marshal_Inr:
  "marshal m = Inr out \<longleftrightarrow>
     List.member metaCommands (mc_Command m) \<and> (mc_HasValue m \<longleftrightarrow> mc_Command m = ''ms'') \<and>
     list_all token (mc_Flags m) \<and>
     (\<exists>key binary. encodeKey (mc_Key m) = Inr (key, binary) \<and>
        \<not> (binary \<and> mc_Command m = ''me'') \<and>
        out = wireLine m key binary @ CRLF @ (if mc_HasValue m then mc_Value m @ CRLF else []))"
  unfolding marshal_def wireLine_def wireTokens_def metaCommands_def
  by (auto simp: result_simps marshalFlags_Inr; blast)

lemma wireLine_tokens:
  assumes "marshal m = Inr out" and "encodeKey (mc_Key m) = Inr (key, binary)"
  shows "list_all token (wireTokens m key binary)"
  using assms encodeKey_token [OF assms(2)] token_metaCommand [of "mc_Command m"]
  by (auto simp: marshal_Inr wireTokens_def token_def)

text \<open>
  C18: a command the client writes is exactly one line and, for a store, one value. The line
  has no carriage return or newline in it, so no key, flag or opaque token can inject a
  second command, and splitting it at spaces gives the command word, the encoded key, the
  decimal length of the value for a store, and the flags, with \<open>b\<close> among them whenever
  the key was base64 encoded.
\<close>

theorem marshal_frame:
  assumes "marshal m = Inr out"
  shows "\<exists>key binary line. encodeKey (mc_Key m) = Inr (key, binary) \<and>
     out = line @ CRLF @ (if mc_HasValue m then mc_Value m @ CRLF else []) \<and>
     CR \<notin> set line \<and> LF \<notin> set line \<and>
     asciiFields line =
       mc_Command m # key # (if mc_HasValue m then [format_nat (length (mc_Value m))] else []) @
         wireFlags binary (mc_Flags m) \<and>
     (binary \<longrightarrow> List.member (wireFlags binary (mc_Flags m)) ''b'')"
proof -
  from assms obtain key binary where k: "encodeKey (mc_Key m) = Inr (key, binary)"
    and out: "out = wireLine m key binary @ CRLF @ (if mc_HasValue m then mc_Value m @ CRLF else [])"
    by (auto simp: marshal_Inr)
  have t: "list_all token (wireTokens m key binary)" by (rule wireLine_tokens [OF assms k])
  have l: "SP # wireLine m key binary = spaced (wireTokens m key binary)"
    by (simp add: wireLine_def wireTokens_def)
  have "asciiFields (wireLine m key binary) = wireTokens m key binary"
    using asciiFields_spaced [OF t] asciiFields_SP [of "wireLine m key binary"] l by metis
  moreover have "CR \<notin> set (wireLine m key binary) \<and> LF \<notin> set (wireLine m key binary)"
    using spaced_no_newline [OF t] l by (metis list.set_intros(2))
  moreover have "binary \<longrightarrow> List.member (wireFlags binary (mc_Flags m)) ''b''"
    by (simp add: wireFlags_def)
  ultimately show ?thesis using k out unfolding wireTokens_def by blast
qed

definition demoStore :: MetaCommand where
  "demoStore = \<lparr>mc_Command = ''ms'', mc_Key = ''a b'', mc_Flags = [''F0'', ''T60''],
     mc_Value = ''hi'', mc_HasValue = True\<rparr>"

theorem marshal_frame_witness:
  "marshal demoStore = Inr (''ms YSBi 2 F0 T60 b'' @ CRLF @ ''hi'' @ CRLF) \<and>
   (\<exists>key binary line. encodeKey (mc_Key demoStore) = Inr (key, binary) \<and>
     ''ms YSBi 2 F0 T60 b'' @ CRLF @ ''hi'' @ CRLF =
       line @ CRLF @ (if mc_HasValue demoStore then mc_Value demoStore @ CRLF else []) \<and>
     CR \<notin> set line \<and> LF \<notin> set line)"
proof -
  have h: "marshal demoStore = Inr (''ms YSBi 2 F0 T60 b'' @ CRLF @ ''hi'' @ CRLF)"
    by code_simp
  with marshal_frame [OF h] show ?thesis by blast
qed

text \<open>The first newline of a written command ends its line.\<close>

lemma line_split_unique:
  assumes "l1 @ CRLF @ r1 = l2 @ CRLF @ r2" and "LF \<notin> set l1" and "LF \<notin> set l2"
  shows "l1 = l2 \<and> r1 = r2"
proof -
  have e: "(l1 @ [CR]) @ LF # r1 = (l2 @ [CR]) @ LF # r2" using assms(1) by simp
  have "takeWhile (\<lambda>c. c \<noteq> LF) ((l1 @ [CR]) @ LF # r1) = l1 @ [CR]"
    and "takeWhile (\<lambda>c. c \<noteq> LF) ((l2 @ [CR]) @ LF # r2) = l2 @ [CR]"
    using assms(2,3) by (auto simp: takeWhile_append)
  with e have "l1 @ [CR] = l2 @ [CR]" by metis
  with e show ?thesis by simp
qed

text \<open>
  C25: the written commands form a prefix code. If two command streams agree byte for byte
  and each starts with a marshalled command, the first commands are the same bytes, and so
  are the rests: whatever is queued behind a command on a shared connection, the server
  splits the stream at the same boundaries as the client.
\<close>

theorem marshal_prefix_free:
  assumes m1: "marshal m1 = Inr o1" and m2: "marshal m2 = Inr o2" and eq: "o1 @ r1 = o2 @ r2"
  shows "o1 = o2 \<and> r1 = r2"
proof -
  from marshal_frame [OF m1] obtain k1 b1 l1 where f1:
    "o1 = l1 @ CRLF @ (if mc_HasValue m1 then mc_Value m1 @ CRLF else [])" "LF \<notin> set l1"
    "asciiFields l1 = mc_Command m1 # k1 #
       (if mc_HasValue m1 then [format_nat (length (mc_Value m1))] else []) @ wireFlags b1 (mc_Flags m1)"
    by blast
  from marshal_frame [OF m2] obtain k2 b2 l2 where f2:
    "o2 = l2 @ CRLF @ (if mc_HasValue m2 then mc_Value m2 @ CRLF else [])" "LF \<notin> set l2"
    "asciiFields l2 = mc_Command m2 # k2 #
       (if mc_HasValue m2 then [format_nat (length (mc_Value m2))] else []) @ wireFlags b2 (mc_Flags m2)"
    by blast
  let ?v = "\<lambda>m. if mc_HasValue m then mc_Value m @ CRLF else []"
  have "l1 @ CRLF @ (?v m1 @ r1) = l2 @ CRLF @ (?v m2 @ r2)" using eq f1(1) f2(1) by simp
  from line_split_unique [OF this f1(2) f2(2)] have l: "l1 = l2" and v: "?v m1 @ r1 = ?v m2 @ r2"
    by simp_all
  have "mc_Command m1 = mc_Command m2" using f1(3) f2(3) l by simp
  then have h: "mc_HasValue m1 = mc_HasValue m2" using m1 m2 by (simp add: marshal_Inr)
  have "?v m1 = ?v m2"
  proof (cases "mc_HasValue m1")
    case True
    with h f1(3) f2(3) l have "length (mc_Value m1) = length (mc_Value m2)"
      by (simp add: format_nat_inj)
    with v True h show ?thesis by simp
  qed (use h in simp)
  with v l f1(1) f2(1) show ?thesis by simp
qed

theorem marshal_prefix_free_witness:
  "marshal demoStore = Inr (''ms YSBi 2 F0 T60 b'' @ CRLF @ ''hi'' @ CRLF) \<and>
   (''ms YSBi 2 F0 T60 b'' @ CRLF @ ''hi'' @ CRLF) @ ''mn'' =
   (''ms YSBi 2 F0 T60 b'' @ CRLF @ ''hi'' @ CRLF) @ ''mn'' \<and> ''mn'' = ''mn''"
proof -
  have h: "marshal demoStore = Inr (''ms YSBi 2 F0 T60 b'' @ CRLF @ ''hi'' @ CRLF)"
    by code_simp
  from marshal_prefix_free [OF h h refl, of "''mn''"] h show ?thesis by blast
qed

end
