(* ===== verification/Wire_Responses.thy ===== *)
theory Wire_Responses
  imports Wire_Commands
begin

text \<open>
  What reading a response gives: a printer of response frames in the documented format and
  the round trip through \<open>readRawResponse\<close>, the fact that every frame the client accepts is
  self-delimiting, and the bounds on what a response can carry.
\<close>

section \<open>Printing a response\<close>

text \<open>
  \<open>responseFlags bin r\<close> lists the return flags a server sends for the fields of \<open>r\<close>;
  \<open>bin\<close> says whether the returned key is base64 encoded and marked with \<open>b\<close>.
\<close>

definition optFlag :: "char \<Rightarrow> ('a \<Rightarrow> bytes) \<Rightarrow> 'a option \<Rightarrow> bytes list" where
  "optFlag c f x = (case x of None \<Rightarrow> [] | Some v \<Rightarrow> [c # f v])"

definition boolFlag :: "bytes \<Rightarrow> bool \<Rightarrow> bytes list" where
  "boolFlag s b = (if b then [s] else [])"

definition responseFlags :: "bool \<Rightarrow> RawResponse \<Rightarrow> bytes list" where
  "responseFlags bin r =
     optFlag (CHR ''c'') format_uint (md_CAS (raw_Metadata r)) @
     optFlag (CHR ''t'') format_int (md_TTL (raw_Metadata r)) @
     optFlag (CHR ''s'') format_uint (md_Size (raw_Metadata r)) @
     optFlag (CHR ''f'') (\<lambda>w. format_nat (unat w)) (md_ClientFlags (raw_Metadata r)) @
     optFlag (CHR ''l'') format_uint (md_LastAccess (raw_Metadata r)) @
     optFlag (CHR ''h'') (\<lambda>b. if b then ''1'' else ''0'') (md_HitBefore (raw_Metadata r)) @
     optFlag (CHR ''k'') (\<lambda>k. if bin then b64_encode k else k) (raw_Key r) @
     boolFlag ''b'' bin @
     boolFlag (CHR ''O'' # raw_Opaque r) (raw_Opaque r \<noteq> []) @
     boolFlag ''W'' (raw_Won r) @ boolFlag ''Z'' (raw_Busy r) @ boolFlag ''X'' (raw_Stale r)"

definition responseLine :: "RawResponse \<Rightarrow> bytes" where
  "responseLine r =
     raw_Code r @ (if raw_Code r = ResponseValue then [SP] @ format_nat (length (raw_Value r)) else []) @
     spaced (raw_Flags r)"

definition responseFrame :: "RawResponse \<Rightarrow> bytes" where
  "responseFrame r =
     responseLine r @ CRLF @ (if raw_Code r = ResponseValue then raw_Value r @ CRLF else [])"

text \<open>The responses a server can send in that format within the client's limits.\<close>

definition sendable :: "nat \<Rightarrow> bool \<Rightarrow> RawResponse \<Rightarrow> bool" where
  "sendable maxItemSize bin r \<longleftrightarrow>
     (raw_Code r = ResponseValue \<or> List.member plainCodes (raw_Code r) \<and> raw_Value r = []) \<and>
     raw_Flags r = responseFlags bin r \<and>
     (case md_TTL (raw_Metadata r) of None \<Rightarrow> True | Some t \<Rightarrow> in_int64 t) \<and>
     (case raw_Key r of None \<Rightarrow> True | Some k \<Rightarrow> bin \<or> clean k) \<and>
     clean (raw_Opaque r) \<and> raw_Debug r = [] \<and> raw_parseErr r = None \<and>
     length (responseLine r) + 2 \<le> maxLineSize \<and>
     (maxItemSize > 0 \<longrightarrow> length (raw_Value r) \<le> maxItemSize) \<and> length (raw_Value r) \<le> maxInt"

section \<open>Parsing the flags back\<close>

text \<open>
  Each printed flag sets its own field and nothing else. The metadata flags are read into
  fields that are still unset, so an absent flag leaves exactly the absent value.
\<close>

lemma parse_uint_32 [simp]: "parse_uint 32 (format_nat (unat (w :: 32 word))) = Some (ucast w)"
proof -
  have "unat w < 2 ^ 32" using unsigned_less [of w, where 'a = nat] by simp
  then show ?thesis by (simp add: parse_uint_def)
qed

lemma ucast_32_64 [simp]: "ucast (ucast (w :: 32 word) :: 64 word) = w"
  by (rule bit_word_eqI) (simp add: bit_ucast_iff)

lemma metadata_unset:
  "md_CAS m = None \<Longrightarrow> m\<lparr>md_CAS := None\<rparr> = m" "md_TTL m = None \<Longrightarrow> m\<lparr>md_TTL := None\<rparr> = m"
  "md_Size m = None \<Longrightarrow> m\<lparr>md_Size := None\<rparr> = m"
  "md_ClientFlags m = None \<Longrightarrow> m\<lparr>md_ClientFlags := None\<rparr> = m"
  "md_LastAccess m = None \<Longrightarrow> m\<lparr>md_LastAccess := None\<rparr> = m"
  "md_HitBefore m = None \<Longrightarrow> m\<lparr>md_HitBefore := None\<rparr> = m"
  by (cases m; simp)+

lemma response_unset:
  "raw_Key r = None \<Longrightarrow> r\<lparr>raw_Key := None\<rparr> = r" "raw_Opaque r = [] \<Longrightarrow> r\<lparr>raw_Opaque := []\<rparr> = r"
  "\<not> raw_Won r \<Longrightarrow> r\<lparr>raw_Won := False\<rparr> = r" "\<not> raw_Busy r \<Longrightarrow> r\<lparr>raw_Busy := False\<rparr> = r"
  "\<not> raw_Stale r \<Longrightarrow> r\<lparr>raw_Stale := False\<rparr> = r"
  by (cases r; simp)+

lemma parse_optFlag_meta [flag_simps]:
  "md_CAS (raw_Metadata r) = None \<Longrightarrow>
     fold parseFlag (optFlag (CHR ''c'') format_uint v1) (r, b, e) =
       (r\<lparr>raw_Metadata := (raw_Metadata r)\<lparr>md_CAS := v1\<rparr>\<rparr>, b, e)"
  "md_TTL (raw_Metadata r) = None \<Longrightarrow> \<forall>t. v2 = Some t \<longrightarrow> in_int64 t \<Longrightarrow>
     fold parseFlag (optFlag (CHR ''t'') format_int v2) (r, b, e) =
       (r\<lparr>raw_Metadata := (raw_Metadata r)\<lparr>md_TTL := v2\<rparr>\<rparr>, b, e)"
  "md_Size (raw_Metadata r) = None \<Longrightarrow>
     fold parseFlag (optFlag (CHR ''s'') format_uint v1) (r, b, e) =
       (r\<lparr>raw_Metadata := (raw_Metadata r)\<lparr>md_Size := v1\<rparr>\<rparr>, b, e)"
  "md_ClientFlags (raw_Metadata r) = None \<Longrightarrow>
     fold parseFlag (optFlag (CHR ''f'') (\<lambda>w. format_nat (unat w)) v4) (r, b, e) =
       (r\<lparr>raw_Metadata := (raw_Metadata r)\<lparr>md_ClientFlags := v4\<rparr>\<rparr>, b, e)"
  "md_LastAccess (raw_Metadata r) = None \<Longrightarrow>
     fold parseFlag (optFlag (CHR ''l'') format_uint v1) (r, b, e) =
       (r\<lparr>raw_Metadata := (raw_Metadata r)\<lparr>md_LastAccess := v1\<rparr>\<rparr>, b, e)"
  "md_HitBefore (raw_Metadata r) = None \<Longrightarrow>
     fold parseFlag (optFlag (CHR ''h'') (\<lambda>b. if b then ''1'' else ''0'') v6) (r, b, e) =
       (r\<lparr>raw_Metadata := (raw_Metadata r)\<lparr>md_HitBefore := v6\<rparr>\<rparr>, b, e)"
  by (simp_all add: optFlag_def setMeta_def metadata_unset split: option.split)

lemma parse_optFlag_key [flag_simps]:
  "raw_Key r = None \<Longrightarrow>
     fold parseFlag (optFlag (CHR ''k'') f v) (r, b, e) = (r\<lparr>raw_Key := map_option f v\<rparr>, b, e)"
  by (simp add: optFlag_def response_unset split: option.split)

lemma parse_boolFlag [flag_simps]:
  "fold parseFlag (boolFlag ''b'' v) (r, b, e) = (r, b \<or> v, e)"
  "raw_Opaque r = [] \<Longrightarrow>
     fold parseFlag (boolFlag (CHR ''O'' # s) (s \<noteq> [])) (r, b, e) = (r\<lparr>raw_Opaque := s\<rparr>, b, e)"
  "\<not> raw_Won r \<Longrightarrow> fold parseFlag (boolFlag ''W'' v) (r, b, e) = (r\<lparr>raw_Won := v\<rparr>, b, e)"
  "\<not> raw_Busy r \<Longrightarrow> fold parseFlag (boolFlag ''Z'' v) (r, b, e) = (r\<lparr>raw_Busy := v\<rparr>, b, e)"
  "\<not> raw_Stale r \<Longrightarrow> fold parseFlag (boolFlag ''X'' v) (r, b, e) = (r\<lparr>raw_Stale := v\<rparr>, b, e)"
  by (simp_all add: boolFlag_def response_unset)

lemma parse_responseFlags:
  assumes "\<forall>t. md_TTL (raw_Metadata r) = Some t \<longrightarrow> in_int64 t"
    and "raw_Debug r = []" and "raw_parseErr r = None"
  shows "parseResponseFlags ((raw_of_code (raw_Code r))\<lparr>raw_Value := raw_Value r,
      raw_Flags := responseFlags bin r\<rparr>) = (r\<lparr>raw_Flags := responseFlags bin r\<rparr>, None)"
proof -
  have "fold parseFlag (responseFlags bin r)
      ((raw_of_code (raw_Code r))\<lparr>raw_Value := raw_Value r, raw_Flags := responseFlags bin r\<rparr>,
        False, None) =
      (r\<lparr>raw_Flags := responseFlags bin r,
         raw_Key := map_option (\<lambda>k. if bin then b64_encode k else k) (raw_Key r)\<rparr>, bin, None)"
    using assms
    by (cases r; cases "raw_Metadata r")
      (simp add: responseFlags_def flag_simps raw_of_code_def no_metadata_def)
  then show ?thesis
    by (cases r) (simp add: parseResponseFlags_def finishFlags_def b64_decode_encode split: option.split)
qed

section \<open>The round trip\<close>

lemma token_flag [simp]: "token (c # s) \<longleftrightarrow> \<not> ctl_byte c \<and> clean s"
  by (simp add: token_def)

lemma list_all_optFlag [simp]:
  "list_all token (optFlag c f x) \<longleftrightarrow> (\<forall>v. x = Some v \<longrightarrow> token (c # f v))"
  by (auto simp: optFlag_def split: option.split)

lemma list_all_boolFlag [simp]: "list_all token (boolFlag s b) \<longleftrightarrow> (b \<longrightarrow> token s)"
  by (simp add: boolFlag_def)

lemma not_ctl_letters [simp]:
  "\<not> ctl_byte (CHR ''c'')" "\<not> ctl_byte (CHR ''t'')" "\<not> ctl_byte (CHR ''s'')"
  "\<not> ctl_byte (CHR ''f'')" "\<not> ctl_byte (CHR ''l'')" "\<not> ctl_byte (CHR ''h'')"
  "\<not> ctl_byte (CHR ''k'')" "\<not> ctl_byte (CHR ''O'')" "\<not> ctl_byte (CHR ''W'')"
  "\<not> ctl_byte (CHR ''Z'')" "\<not> ctl_byte (CHR ''X'')" "\<not> ctl_byte (CHR ''0'')"
  "\<not> ctl_byte (CHR ''1'')"
  by (simp_all add: ctl_byte_def)

lemma token_responseFlags:
  assumes "\<forall>k. raw_Key r = Some k \<longrightarrow> bin \<or> clean k" and "clean (raw_Opaque r)"
  shows "list_all token (responseFlags bin r)"
  using assms by (auto simp: responseFlags_def ctl_byte_def)

lemma token_format_nat [simp]: "token (format_nat n)"
  by (simp add: token_def)

definition responseCodes :: "response_code list" where
  "responseCodes = ResponseValue # plainCodes"

lemma token_code: "List.member responseCodes c \<Longrightarrow> token c"
  by (auto simp: responseCodes_def plainCodes_def ctl_byte_def)

lemma code_no_error_line:
  assumes "List.member responseCodes c"
  shows "c @ s \<noteq> ''ERROR''" and "\<not> has_prefix (c @ s) ''CLIENT_ERROR''"
    and "\<not> has_prefix (c @ s) ''SERVER_ERROR''"
  using assms by (auto simp: responseCodes_def plainCodes_def has_prefix_def)

text \<open>The line and the value part of a frame are read back.\<close>

lemma readLine_ok:
  "\<lbrakk>LF \<notin> set text; length text + 2 \<le> maxLineSize\<rbrakk> \<Longrightarrow>
     readLine \<lparr>rd_buf = text @ CRLF @ rest, rd_err = e\<rparr> = (Inr text, \<lparr>rd_buf = rest, rd_err = e\<rparr>)"
  by (simp add: readLine_Inr)

lemma readFull_ok: "readFull (length v) \<lparr>rd_buf = v @ s, rd_err = e\<rparr> = (Inr v, \<lparr>rd_buf = s, rd_err = e\<rparr>)"
  by (simp add: readFull_def)

lemma readFull_2: "readFull 2 \<lparr>rd_buf = CR # LF # s, rd_err = e\<rparr> = (Inr CRLF, \<lparr>rd_buf = s, rd_err = e\<rparr>)"
  by (simp add: readFull_def)

lemma readValue_ok:
  assumes "maxItemSize > 0 \<longrightarrow> length v \<le> maxItemSize" and "length v \<le> maxInt"
  shows "readValue maxItemSize (c # format_nat (length v) # flags)
      \<lparr>rd_buf = v @ CRLF @ rest, rd_err = e\<rparr> = (Inr v, \<lparr>rd_buf = rest, rd_err = e\<rparr>)"
proof -
  have "length v < 2 ^ 63" using assms(2) by (simp add: maxInt_def)
  with assms readFull_ok [of v "CRLF @ rest" e] show ?thesis
    by (auto simp: readValue_def readFull_2)
qed

lemma responseFrame_read:
  assumes "sendable maxItemSize bin r"
  shows "readRawResponse maxItemSize \<lparr>rd_buf = responseFrame r @ rest, rd_err = e\<rparr> =
    ((r, None), \<lparr>rd_buf = rest, rd_err = e\<rparr>)"
proof -
  let ?tail = "if raw_Code r = ResponseValue then [format_nat (length (raw_Value r))] else []"
  have code: "List.member responseCodes (raw_Code r)"
    using assms by (auto simp: sendable_def responseCodes_def)
  have flags: "raw_Flags r = responseFlags bin r" and ttl: "\<forall>t. md_TTL (raw_Metadata r) = Some t \<longrightarrow> in_int64 t"
    and empty: "raw_Debug r = []" "raw_parseErr r = None"
    and lim: "length (responseLine r) + 2 \<le> maxLineSize"
    using assms by (auto simp: sendable_def split: option.splits)
  have toks: "list_all token (raw_Code r # ?tail @ responseFlags bin r)"
    using assms token_code [OF code] token_responseFlags [of r bin]
    by (auto simp: sendable_def split: option.splits)
  have line: "responseLine r = raw_Code r @ spaced (?tail @ responseFlags bin r)"
    by (simp add: responseLine_def flags)
  have "LF \<notin> set (responseLine r)"
    using spaced_no_newline [OF toks] unfolding line by simp
  then have rl: "readLine \<lparr>rd_buf = responseFrame r @ rest, rd_err = e\<rparr> = (Inr (responseLine r),
      \<lparr>rd_buf = (if raw_Code r = ResponseValue then raw_Value r @ CRLF @ rest else rest), rd_err = e\<rparr>)"
    using lim readLine_ok [of "responseLine r"] by (simp add: responseFrame_def)
  have fields: "asciiFields (responseLine r) = raw_Code r # ?tail @ responseFlags bin r"
    using asciiFields_line [OF toks] unfolding line .
  have same: "r\<lparr>raw_Flags := responseFlags bin r\<rparr> = r" using flags by (cases r) simp
  have fl: "flagged ((raw_of_code (raw_Code r))\<lparr>raw_Value := raw_Value r\<rparr>) (responseFlags bin r) = (r, None)"
    using parse_responseFlags [OF ttl empty, of bin] by (simp add: flagged_def same)
  show ?thesis
  proof (cases "raw_Code r = ResponseValue")
    case True
    have "readValue maxItemSize (ResponseValue # format_nat (length (raw_Value r)) # responseFlags bin r)
        \<lparr>rd_buf = raw_Value r @ CRLF @ rest, rd_err = e\<rparr> =
        (Inr (raw_Value r), \<lparr>rd_buf = rest, rd_err = e\<rparr>)"
      using assms by (intro readValue_ok) (auto simp: sendable_def)
    with True rl fields fl code_no_error_line [OF code] show ?thesis
      by (simp add: respondLine_def line)
  next
    case False
    then have plain: "List.member plainCodes (raw_Code r)" "raw_Value r = []"
      using assms by (auto simp: sendable_def)
    have "raw_of_code (raw_Code r) = (raw_of_code (raw_Code r))\<lparr>raw_Value := []\<rparr>"
      by (simp add: raw_of_code_def)
    with False plain rl fields fl code_no_error_line [OF code] show ?thesis
      by (simp add: respondLine_def line)
  qed
qed

text \<open>
  C19: a response printed in the documented format is read back exactly, whatever its code,
  value, metadata, key, opaque token and lease flags, and the reader is left at the first
  byte after the frame, whatever follows it on the connection.
\<close>

theorem response_round_trip:
  assumes "sendable maxItemSize bin r"
  shows "readRawResponse maxItemSize \<lparr>rd_buf = responseFrame r @ rest, rd_err = e\<rparr> =
    ((r, None), \<lparr>rd_buf = rest, rd_err = e\<rparr>)"
  using assms by (rule responseFrame_read)

definition demoValue :: RawResponse where
  "demoValue = \<lparr>raw_Code = ResponseValue, raw_Value = ''hello'', 
     raw_Metadata = no_metadata\<lparr>md_CAS := Some 7, md_TTL := Some (-1)\<rparr>, raw_Key = Some ''a b'',
     raw_Opaque = ''3'', raw_Won = True, raw_Busy = False, raw_Stale = True,
     raw_Flags = [''c7'', ''t-1'', ''kYSBi'', ''b'', ''O3'', ''W'', ''X''], raw_Debug = [],
     raw_parseErr = None\<rparr>"

lemma demoValue_line: "responseLine demoValue = ''VA 5 c7 t-1 kYSBi b O3 W X''"
  by code_simp

lemma demoValue_sendable: "sendable 1048576 True demoValue"
proof -
  have "responseFlags True demoValue = [''c7'', ''t-1'', ''kYSBi'', ''b'', ''O3'', ''W'', ''X'']"
    by code_simp
  then show ?thesis
    unfolding sendable_def demoValue_line
    by (simp add: demoValue_def no_metadata_def in_int64_def maxLineSize_def maxInt_def ctl_byte_def)
qed

theorem response_round_trip_witness:
  "responseFrame demoValue = ''VA 5 c7 t-1 kYSBi b O3 W X'' @ CRLF @ ''hello'' @ CRLF \<and>
   readRawResponse 1048576 \<lparr>rd_buf = responseFrame demoValue @ ''MN'', rd_err = IoEOF\<rparr> =
     ((demoValue, None), \<lparr>rd_buf = ''MN'', rd_err = IoEOF\<rparr>)"
proof -
  have "responseFrame demoValue = ''VA 5 c7 t-1 kYSBi b O3 W X'' @ CRLF @ ''hello'' @ CRLF"
    unfolding responseFrame_def demoValue_line by (simp add: demoValue_def)
  with response_round_trip [OF demoValue_sendable, of "''MN''" IoEOF] show ?thesis by blast
qed

section \<open>Frames are self-delimiting\<close>

text \<open>
  Every outcome that is not fatal for the connection comes from a complete frame, and the
  same frame gives the same outcome whatever follows it.
\<close>

definition frameRead :: "read_result \<Rightarrow> bool" where
  "frameRead res \<longleftrightarrow> (case snd res of None \<Rightarrow> True | Some e \<Rightarrow> is_framed e)"

lemma frameRead_fatal [simp]:
  "frameRead (fatal (ProtocolError m a)) = False" "frameRead (fatal (ServerError k m)) = False"
  by (simp_all add: frameRead_def)

lemma readLine_replay:
  assumes "readLine r = (Inr text, r')"
  shows "rd_buf r = (text @ CRLF) @ rd_buf r'" and "rd_err r' = rd_err r"
    and "readLine \<lparr>rd_buf = (text @ CRLF) @ s, rd_err = e\<rparr> = (Inr text, \<lparr>rd_buf = s, rd_err = e\<rparr>)"
  using assms by (auto simp: readLine_Inr)

lemma readFull_replay:
  assumes "readFull n r = (Inr v, r')"
  shows "rd_buf r = v @ rd_buf r'" and "rd_err r' = rd_err r"
    and "readFull n \<lparr>rd_buf = v @ s, rd_err = e\<rparr> = (Inr v, \<lparr>rd_buf = s, rd_err = e\<rparr>)"
  using assms by (auto simp: readFull_def split: if_splits)

lemma readValue_Inr:
  "readValue mx parts r = (Inr v, r') \<longleftrightarrow>
     2 \<le> length parts \<and>
     (\<exists>n r1. parse_nat 63 (parts ! 1) = Some n \<and> (mx > 0 \<longrightarrow> n \<le> mx) \<and> n \<le> maxInt \<and>
        readFull n r = (Inr v, r1) \<and> readFull 2 r1 = (Inr CRLF, r'))"
  by (auto simp: readValue_def not_less split: option.splits prod.splits sum.splits if_splits)

lemma readValue_replay:
  assumes "readValue mx parts r = (Inr v, r')"
  shows "rd_buf r = (v @ CRLF) @ rd_buf r'" and "rd_err r' = rd_err r"
    and "readValue mx parts \<lparr>rd_buf = (v @ CRLF) @ s, rd_err = e\<rparr> = (Inr v, \<lparr>rd_buf = s, rd_err = e\<rparr>)"
    and "mx > 0 \<longrightarrow> length v \<le> mx"
proof -
  obtain n r1 where n: "2 \<le> length parts" "parse_nat 63 (parts ! 1) = Some n" "mx > 0 \<longrightarrow> n \<le> mx"
    "n \<le> maxInt" "readFull n r = (Inr v, r1)" "readFull 2 r1 = (Inr CRLF, r')"
    using assms by (auto simp: readValue_Inr)
  note r1 = readFull_replay [OF n(5)] and r2 = readFull_replay [OF n(6)]
  show "rd_buf r = (v @ CRLF) @ rd_buf r'" using r1(1) r2(1) by simp
  show "rd_err r' = rd_err r" using r1(2) r2(2) by simp
  have "readFull n \<lparr>rd_buf = v @ CRLF @ s, rd_err = e\<rparr> = (Inr v, \<lparr>rd_buf = CRLF @ s, rd_err = e\<rparr>)"
    by (rule r1(3))
  with n r2(3) [of s e]
  show "readValue mx parts \<lparr>rd_buf = (v @ CRLF) @ s, rd_err = e\<rparr> = (Inr v, \<lparr>rd_buf = s, rd_err = e\<rparr>)"
    by (auto simp: readValue_Inr)
  show "mx > 0 \<longrightarrow> length v \<le> mx" using n(3,5) by (auto simp: readFull_def split: if_splits)
qed

text \<open>Reading fails with the connection's own error or with one that is fatal.\<close>

lemma readSlice_err: "readSlice r = (sl, r') \<Longrightarrow> rd_err r' = rd_err r"
  and readSlice_SliceErr: "readSlice r = (SliceErr part e, r') \<Longrightarrow> e = rd_err r"
  by (auto simp: readSlice_def Let_def split: if_splits)

lemma readLineLoop_Inl:
  "readLineLoop line r = (Inl e, r') \<Longrightarrow> \<not> is_framed (rd_err r) \<Longrightarrow> \<not> is_framed e"
proof (induction line r rule: readLineLoop.induct)
  case (1 line r)
  obtain sl r1 where s: "readSlice r = (sl, r1)" by (cases "readSlice r")
  show ?case
  proof (cases sl)
    case (SliceFull part)
    with s "1.IH" [OF s [symmetric] SliceFull] "1.prems" readSlice_err [OF s] show ?thesis
      by (subst (asm) readLineLoop.simps) (auto split: if_splits)
  next
    case (SliceLine part)
    with s "1.prems" show ?thesis
      by (subst (asm) readLineLoop.simps) (auto simp: finishLine_def split: if_splits)
  next
    case (SliceErr part e')
    with s "1.prems" readSlice_SliceErr show ?thesis
      by (subst (asm) readLineLoop.simps) (auto split: if_splits)
  qed
qed

lemma readFull_Inl: "readFull n r = (Inl e, r') \<Longrightarrow> \<not> is_framed (rd_err r) \<Longrightarrow> \<not> is_framed e"
  by (auto simp: readFull_def split: if_splits)

lemma readValue_Inl:
  assumes "readValue mx parts r = (Inl e, r')" and "\<not> is_framed (rd_err r)"
  shows "\<not> is_framed e"
  using assms readFull_replay(2) readFull_Inl
  by (fastforce simp: readValue_def split: option.splits prod.splits sum.splits if_splits)

lemma accepted_line:
  assumes "readRawResponse mx r = (res, r')" and "frameRead res" and "\<not> is_framed (rd_err r)"
  obtains ln r1 where "readLine r = (Inr ln, r1)" and "\<not> is_framed (rd_err r1)"
    and "respondLine mx ln r1 = (res, r')"
proof (cases "readLine r")
  case (Pair tr r1)
  with assms readLineLoop_Inl [OF _ assms(3)] obtain ln where "tr = Inr ln"
    by (cases tr) (auto simp: readRawResponse_def readLine_def frameRead_def)
  with Pair assms readLine_replay(2) show thesis by (intro that [of ln r1]) auto
qed

text \<open>
  The three ways a line leads to an accepted frame: with a value read behind it, alone, or
  as a debug answer. In the last two the reader is untouched, so they replay on any reader.
\<close>

lemma respondLine_cases:
  assumes "respondLine mx ln r = (res, r')" and "frameRead res" and "\<not> is_framed (rd_err r)"
  obtains (va) args v where "asciiFields ln = ResponseValue # args"
      "readValue mx (ResponseValue # args) r = (Inr v, r')"
      "res = flagged ((raw_of_code ResponseValue)\<lparr>raw_Value := v\<rparr>) (drop 1 args)"
      "\<And>r2 r3. readValue mx (ResponseValue # args) r2 = (Inr v, r3) \<Longrightarrow>
         respondLine mx ln r2 = (res, r3)"
  | (plain) code args where "List.member plainCodes code" "r' = r"
      "res = flagged (raw_of_code code) args" "\<And>r2. respondLine mx ln r2 = (res, r2)"
  | (debug) key debug where "r' = r"
      "res = ((raw_of_code ResponseDebug)\<lparr>raw_Key := Some key, raw_Flags := key # debug,
         raw_Debug := debugFields debug\<rparr>, None)"
      "\<And>r2. respondLine mx ln r2 = (res, r2)"
proof -
  have nl: "ln \<noteq> ''ERROR''" "\<not> has_prefix ln ''CLIENT_ERROR''" "\<not> has_prefix ln ''SERVER_ERROR''"
    using assms(1,2) unfolding respondLine_def by (auto split: if_splits)
  obtain code args where f: "asciiFields ln = code # args"
    using assms(1,2) nl by (cases "asciiFields ln") (auto simp: respondLine_def)
  note eqs = assms(1) [unfolded respondLine_def f, simplified nl if_False list.case]
  show thesis
  proof (cases "code = ResponseValue")
    case True
    obtain vr r2 where rv: "readValue mx (ResponseValue # args) r = (vr, r2)" by fastforce
    then have "vr = Inl e \<Longrightarrow> False" for e
      using eqs True assms(2) readValue_Inl [OF _ assms(3)] by (auto simp: frameRead_def)
    then obtain v where "vr = Inr v" by (cases vr) auto
    with True f nl rv eqs show thesis by (intro va [of args v]) (auto simp: respondLine_def)
  next
    case False
    show thesis
    proof (cases "List.member plainCodes code")
      case True
      with False f nl eqs show thesis
        by (intro plain [of code args]) (auto simp: respondLine_def)
    next
      case nplain: False
      then have "code = ResponseDebug" using False eqs assms(2) by (auto split: if_splits)
      moreover from this obtain key dbg where "args = key # dbg"
        using False nplain eqs assms(2) by (cases args) auto
      ultimately show thesis
        using False nplain f nl eqs by (intro debug [where key = key and debug = dbg]) (auto simp: respondLine_def)
    qed
  qed
qed

text \<open>
  C20: every frame the client accepts is self-delimiting: the bytes it consumed are a prefix
  of the stream that determines the response alone, so the same frame followed by anything
  else, on any connection, is read as the same response and leaves the reader right behind
  it. This is what lets responses of pipelined requests be matched in order.
\<close>

theorem frame_self_delimiting:
  assumes read: "readRawResponse mx r = (res, r')" and ok: "frameRead res"
    and conn: "\<not> is_framed (rd_err r)"
  shows "\<exists>frame. frame \<noteq> [] \<and> rd_buf r = frame @ rd_buf r' \<and>
     (\<forall>s e. readRawResponse mx \<lparr>rd_buf = frame @ s, rd_err = e\<rparr> = (res, \<lparr>rd_buf = s, rd_err = e\<rparr>))"
proof -
  obtain ln r1 where rl: "readLine r = (Inr ln, r1)" and "\<not> is_framed (rd_err r1)"
    and rp: "respondLine mx ln r1 = (res, r')"
    using accepted_line [OF assms] by blast
  note line = readLine_replay [OF rl]
  let ?frame = "\<lambda>f. rd_buf r = f @ rd_buf r' \<and>
     (\<forall>s e. readRawResponse mx \<lparr>rd_buf = f @ s, rd_err = e\<rparr> = (res, \<lparr>rd_buf = s, rd_err = e\<rparr>))"
  from rp ok \<open>\<not> is_framed (rd_err r1)\<close> have "\<exists>t. ?frame ((ln @ CRLF) @ t)"
  proof (cases rule: respondLine_cases)
    case (va args v)
    note val = readValue_replay [OF va(2)]
    have "readRawResponse mx \<lparr>rd_buf = ((ln @ CRLF) @ v @ CRLF) @ s, rd_err = e\<rparr> =
        (res, \<lparr>rd_buf = s, rd_err = e\<rparr>)" for s e
      using line(3) [of "(v @ CRLF) @ s" e] va(4) [OF val(3)] by simp
    moreover have "rd_buf r = ((ln @ CRLF) @ v @ CRLF) @ rd_buf r'"
      using line(1) val(1) by simp
    ultimately show ?thesis by (intro exI [of _ "v @ CRLF"]) simp
  next
    case (plain code args)
    with line(1) readRawResponse_line [OF line(3)] show ?thesis by (intro exI [of _ "[]"]) simp
  next
    case (debug key dbg)
    with line(1) readRawResponse_line [OF line(3)] show ?thesis by (intro exI [of _ "[]"]) simp
  qed
  then obtain t where "?frame ((ln @ CRLF) @ t)" by (elim exE)
  then show ?thesis by (intro exI [of _ "(ln @ CRLF) @ t"]) simp
qed

theorem frame_self_delimiting_witness:
  "\<exists>frame. frame \<noteq> [] \<and> responseFrame demoValue @ ''MN'' = frame @ ''MN'' \<and>
     (\<forall>s e. readRawResponse 1048576 \<lparr>rd_buf = frame @ s, rd_err = e\<rparr> =
        ((demoValue, None), \<lparr>rd_buf = s, rd_err = e\<rparr>))"
  using frame_self_delimiting [OF responseFrame_read [OF demoValue_sendable, of "''MN''" IoEOF]]
  by (simp add: frameRead_def)

text \<open>Parsing flags touches neither the code nor the value, nor an earlier parse error.\<close>

lemma setMeta_frame [simp]:
  "raw_Code (setMeta f r) = raw_Code r" "raw_Value (setMeta f r) = raw_Value r"
  "raw_parseErr (setMeta f r) = raw_parseErr r"
  by (simp_all add: setMeta_def)

lemma parseFlag_frame [simp]:
  "raw_Code (fst (parseFlag f st)) = raw_Code (fst st)"
  "raw_Value (fst (parseFlag f st)) = raw_Value (fst st)"
  "raw_parseErr (fst (parseFlag f st)) = raw_parseErr (fst st)"
  unfolding atomize_conj
  by (cases "(f, st)" rule: parseFlag.cases)
    (simp_all add: if_distrib [of fst] if_distrib [of raw_Code] if_distrib [of raw_Value]
       if_distrib [of raw_parseErr] option.case_eq_if split del: if_split cong: if_cong)

lemma fold_parseFlag_frame [simp]:
  "raw_Code (fst (fold parseFlag fs st)) = raw_Code (fst st)"
  "raw_Value (fst (fold parseFlag fs st)) = raw_Value (fst st)"
  "raw_parseErr (fst (fold parseFlag fs st)) = raw_parseErr (fst st)"
  by (induction fs arbitrary: st; simp)+

lemma finishFlags_frame [simp]:
  "raw_Code (fst (finishFlags st)) = raw_Code (fst st)"
  "raw_Value (fst (finishFlags st)) = raw_Value (fst st)"
  "raw_parseErr (fst (finishFlags st)) = raw_parseErr (fst st)"
  by (cases st; simp add: finishFlags_def split: option.split)+

lemma flagged_frame:
  assumes "flagged r0 fs = (resp, err)" and "raw_parseErr r0 = None"
  shows "raw_Code resp = raw_Code r0" and "raw_Value resp = raw_Value r0"
    and "case raw_parseErr resp of None \<Rightarrow> err = None | Some e \<Rightarrow> err = Some (FramedResponseError e)"
proof -
  let ?p = "parseResponseFlags (r0\<lparr>raw_Flags := fs\<rparr>)"
  have p: "raw_Code (fst ?p) = raw_Code r0" "raw_Value (fst ?p) = raw_Value r0"
    "raw_parseErr (fst ?p) = None"
    by (simp_all add: parseResponseFlags_def assms(2))
  with assms(1) show "raw_Code resp = raw_Code r0" "raw_Value resp = raw_Value r0"
    "case raw_parseErr resp of None \<Rightarrow> err = None | Some e \<Rightarrow> err = Some (FramedResponseError e)"
    by (auto simp: flagged_def split: prod.splits option.splits)
qed



end
