(* ===== verification/Commands.thy ===== *)
theory Commands
  imports Wire_Responses
begin

text \<open>
  The command builders and response interpreters of \<open>client.go\<close>: each meta operation's
  option struct becomes a \<open>MetaCommand\<close> or a usage error before any byte is written, and a
  response becomes a typed result. Where the source returns a value together with an error,
  the model returns both.
\<close>

section \<open>Flags\<close>

text \<open>The flag letters whose presence makes a get a mutation.\<close>

definition commandHasSideEffect :: "MetaCommand \<Rightarrow> bool" where
  "commandHasSideEffect c =
     (if mc_Command c \<noteq> ''mg'' then mc_Command c \<noteq> ''me''
      else list_ex (\<lambda>flag. flag \<noteq> [] \<and> List.member ''TNRE'' (hd flag)) (mc_Flags c))"

definition appendOpaque :: "bytes list \<Rightarrow> bytes \<Rightarrow> bytes list result" where
  "appendOpaque flags opq =
     and_then (validateOpaque opq) (\<lambda>_. Inr (if opq \<noteq> [] then flags @ [''O'' @ opq] else flags))"

definition expirationFlag :: "bytes \<Rightarrow> expiration \<Rightarrow> bytes" where
  "expirationFlag pre e = pre @ format_int e"

text \<open>An optional flag and a conditional flag.\<close>

definition when_flag :: "bool \<Rightarrow> bytes \<Rightarrow> bytes list" where
  "when_flag b f = (if b then [f] else [])"

definition opt_flag :: "('a \<Rightarrow> bytes) \<Rightarrow> 'a option \<Rightarrow> bytes list" where
  "opt_flag f x = (case x of None \<Rightarrow> [] | Some v \<Rightarrow> [f v])"

definition positive_if_given :: "expiration option \<Rightarrow> bool" where
  "positive_if_given x = (case x of None \<Rightarrow> True | Some ttl \<Rightarrow> 0 < ttl)"

section \<open>Meta get\<close>

text \<open>
  The source checks \<open>VivifyTTL\<close> and \<open>RefreshBefore\<close> by ranging over a map, so which of
  two bad options is named in the message is not determined; the model names
  \<open>VivifyTTL\<close> first.
\<close>

definition getFlags :: "MetaGetOptions \<Rightarrow> bytes list" where
  "getFlags o1 =
     when_flag (\<not> mg_MetadataOnly o1) ''v'' @
     when_flag (mg_ReturnCAS o1 \<or> mg_VivifyTTL o1 \<noteq> None \<or> mg_RefreshBefore o1 \<noteq> None \<or>
       mg_UnlessCAS o1 \<noteq> None) ''c'' @
     when_flag (mg_ReturnClientFlags o1) ''f'' @
     when_flag (mg_ReturnTTL o1) ''t'' @
     when_flag (mg_ReturnSize o1) ''s'' @
     when_flag (mg_ReturnLastAccess o1) ''l'' @
     when_flag (mg_ReturnHitBefore o1) ''h'' @
     when_flag (mg_ReturnKey o1) ''k'' @
     when_flag (mg_NoLRUBump o1) ''u'' @
     opt_flag (expirationFlag ''T'') (mg_Touch o1) @
     opt_flag (expirationFlag ''N'') (mg_VivifyTTL o1) @
     opt_flag (expirationFlag ''R'') (mg_RefreshBefore o1) @
     opt_flag (\<lambda>c. ''C'' @ format_uint c) (mg_UnlessCAS o1) @
     opt_flag (\<lambda>c. ''E'' @ format_uint c) (mg_SetCAS o1)"

definition buildGet :: "bytes \<Rightarrow> MetaGetOptions \<Rightarrow> MetaCommand result" where
  "buildGet key o1 =
     and_then (ensure (\<not> (mg_UnlessCAS o1 \<noteq> None \<and> mg_MetadataOnly o1))
        (errorf ''memcache: UnlessCAS requires a value read'' [])) (\<lambda>_.
     and_then (ensure (\<not> (mg_MetadataOnly o1 \<and> mg_VivifyTTL o1 \<noteq> None \<and> mg_RefreshBefore o1 \<noteq> None))
        (errorf ''memcache: metadata-only refresh cannot distinguish a miss from an early recache hit'' [])) (\<lambda>_.
     and_then (ensure (positive_if_given (mg_VivifyTTL o1))
        (errorf ''memcache: %s must be positive'' [FStr ''VivifyTTL''])) (\<lambda>_.
     and_then (ensure (positive_if_given (mg_RefreshBefore o1))
        (errorf ''memcache: %s must be positive'' [FStr ''RefreshBefore''])) (\<lambda>_.
     and_then (appendOpaque (getFlags o1) (mg_Opaque o1)) (\<lambda>flags.
       Inr \<lparr>mc_Command = ''mg'', mc_Key = key, mc_Flags = flags, mc_Value = [], mc_HasValue = False\<rparr>)))))"

definition placeholder :: "MetaGetOptions \<Rightarrow> RawResponse \<Rightarrow> bool" where
  "placeholder o1 wire \<longleftrightarrow>
     mg_VivifyTTL o1 \<noteq> None \<and> (raw_Won wire \<or> raw_Busy wire) \<and> \<not> raw_Stale wire \<and>
     (mg_RefreshBefore o1 = None \<or> (raw_Code wire = ResponseValue \<and> raw_Value wire = []))"

definition semanticGet :: "bytes \<Rightarrow> MetaGetOptions \<Rightarrow> RawResponse \<Rightarrow> GetResult \<times> goerr option" where
  "semanticGet key o1 wire =
     (let base = \<lparr>gr_Key = key, gr_Status = GetUnknown, gr_Value = [], gr_Metadata = raw_Metadata wire,
            gr_ValueState = ValueFresh, gr_Lease = LeaseNone, gr_ReturnedKey = raw_Key wire,
            gr_Opaque = raw_Opaque wire\<rparr>
      in if raw_Code wire = ResponseMiss then
           (base\<lparr>gr_Status := GetMiss, gr_ValueState := ValueMissing\<rparr>, None)
         else if raw_Code wire = ResponseValue \<or> raw_Code wire = ResponseHeader then
           (if raw_Code wire = ResponseHeader \<and> \<not> mg_MetadataOnly o1 \<and> mg_UnlessCAS o1 = None
            then (zero_GetResult, Some (ProtocolError ''value-bearing get returned HD'' []))
            else
              let r1 = base\<lparr>gr_Status :=
                         (if raw_Code wire = ResponseHeader \<and> mg_UnlessCAS o1 \<noteq> None then GetUnchanged
                          else GetHit),
                       gr_Value := (if raw_Code wire = ResponseValue then raw_Value wire else []),
                       gr_ValueState := (if raw_Stale wire then ValueStale else ValueFresh),
                       gr_Lease := (if raw_Busy wire then LeaseBusy
                                    else if raw_Won wire then LeaseGranted else LeaseNone)\<rparr>
              in if placeholder o1 wire
                 then (r1\<lparr>gr_ValueState := ValueMissing,
                          gr_Status := (if raw_Won wire then GetMiss else GetPending)\<rparr>, None)
                 else (r1, None))
         else (zero_GetResult, Some (ProtocolError ''unexpected get response %q'' [FStr (raw_Code wire)])))"

section \<open>Meta set\<close>

fun modeFlag :: "StoreMode \<Rightarrow> bytes result" where
  "modeFlag ModeSet = Inr []"
| "modeFlag ModeAdd = Inr ''ME''"
| "modeFlag ModeReplace = Inr ''MR''"
| "modeFlag ModeAppend = Inr ''MA''"
| "modeFlag ModePrepend = Inr ''MP''"
| "modeFlag (ModeOther n) = Inl (errorf ''memcache: invalid store mode %d'' [FInt (int n)])"

definition setFlags :: "bytes \<Rightarrow> MetaSetOptions \<Rightarrow> bytes list" where
  "setFlags mode o1 =
     [''F'' @ format_nat (unat (ms_ClientFlags o1))] @
     when_flag (ms_TTL o1 \<noteq> 0) (expirationFlag ''T'' (ms_TTL o1)) @
     when_flag (mode \<noteq> []) mode @
     opt_flag (\<lambda>c. ''C'' @ format_uint c) (ms_CompareCAS o1) @
     opt_flag (\<lambda>c. ''E'' @ format_uint c) (ms_SetCAS o1) @
     when_flag (ms_Invalidate o1) ''I'' @
     opt_flag (expirationFlag ''N'') (ms_VivifyTTL o1) @
     when_flag (ms_ReturnCAS o1) ''c'' @
     when_flag (ms_ReturnSize o1) ''s'' @
     when_flag (ms_ReturnKey o1) ''k''"

definition buildSet :: "bytes \<Rightarrow> bytes \<Rightarrow> MetaSetOptions \<Rightarrow> MetaCommand result" where
  "buildSet key val o1 =
     and_then (modeFlag (ms_Mode o1)) (\<lambda>mode.
       let concatenate = (ms_Mode o1 = ModeAppend \<or> ms_Mode o1 = ModePrepend) in
     and_then (ensure (\<not> (concatenate \<and> ms_TTL o1 \<noteq> 0))
        (errorf ''memcache: TTL is ignored for append/prepend; use VivifyTTL'' [])) (\<lambda>_.
     and_then (ensure (\<not> (\<not> concatenate \<and> ms_VivifyTTL o1 \<noteq> None))
        (errorf ''memcache: VivifyTTL is only valid for append/prepend'' [])) (\<lambda>_.
     and_then (ensure (\<not> (ms_Mode o1 = ModeAdd \<and> ms_CompareCAS o1 \<noteq> None))
        (errorf ''memcache: add cannot compare CAS'' [])) (\<lambda>_.
     and_then (ensure (\<not> (ms_Invalidate o1 \<and> ms_CompareCAS o1 = None))
        (errorf ''memcache: Invalidate requires CompareCAS'' [])) (\<lambda>_.
     and_then (ensure (positive_if_given (ms_VivifyTTL o1))
        (errorf ''memcache: VivifyTTL must be positive'' [])) (\<lambda>_.
     and_then (appendOpaque (setFlags mode o1) (ms_Opaque o1)) (\<lambda>flags.
       Inr \<lparr>mc_Command = ''ms'', mc_Key = key, mc_Flags = flags, mc_Value = val, mc_HasValue = True\<rparr>)))))))"

definition storeStatus :: "response_code \<Rightarrow> StoreMode \<Rightarrow> MutationStatus \<times> goerr option" where
  "storeStatus code mode =
     (if code = ResponseHeader then (MutationApplied, None)
      else if code = ResponseExists then (MutationCASMismatch, None)
      else if code = ResponseNotFound then (MutationNotFound, None)
      else if code = ResponseNotStored then
        (if mode = ModeAdd then MutationAlreadyExists else MutationNotFound, None)
      else (MutationUnknown, Some (ProtocolError ''unexpected mutation response %q'' [FStr code])))"

section \<open>Meta delete\<close>

definition deleteStatus :: "response_code \<Rightarrow> MutationStatus \<times> goerr option" where
  "deleteStatus code =
     (if code = ResponseHeader then (MutationApplied, None)
      else if code = ResponseExists then (MutationCASMismatch, None)
      else if code = ResponseNotFound then (MutationNotFound, None)
      else (MutationUnknown, Some (ProtocolError ''unexpected delete response %q'' [FStr code])))"

definition deleteFlags :: "MetaDeleteOptions \<Rightarrow> bytes list" where
  "deleteFlags o1 =
     opt_flag (\<lambda>c. ''C'' @ format_uint c) (mdo_CompareCAS o1) @
     opt_flag (\<lambda>c. ''E'' @ format_uint c) (mdo_SetCAS o1) @
     when_flag (mdo_Invalidate o1) ''I'' @
     opt_flag (expirationFlag ''T'') (mdo_StaleFor o1) @
     when_flag (mdo_DropValue o1) ''x'' @
     when_flag (mdo_ReturnKey o1) ''k''"

definition buildDelete :: "bytes \<Rightarrow> MetaDeleteOptions \<Rightarrow> MetaCommand result" where
  "buildDelete key o1 =
     and_then (ensure (\<not> (mdo_StaleFor o1 \<noteq> None \<and> \<not> mdo_Invalidate o1))
        (errorf ''memcache: StaleFor requires Invalidate'' [])) (\<lambda>_.
     and_then (appendOpaque (deleteFlags o1) (mdo_Opaque o1)) (\<lambda>flags.
       Inr \<lparr>mc_Command = ''md'', mc_Key = key, mc_Flags = flags, mc_Value = [], mc_HasValue = False\<rparr>))"

section \<open>Meta arithmetic\<close>

definition arithmeticStatus :: "response_code \<Rightarrow> MutationStatus \<times> goerr option" where
  "arithmeticStatus code =
     (if code = ResponseHeader \<or> code = ResponseValue then (MutationApplied, None)
      else if code = ResponseExists then (MutationCASMismatch, None)
      else if code = ResponseNotFound \<or> code = ResponseNotStored then (MutationNotFound, None)
      else (MutationUnknown, Some (ProtocolError ''unexpected arithmetic response %q'' [FStr code])))"

definition arithmeticFlags :: "MetaArithmeticOptions \<Rightarrow> bytes list" where
  "arithmeticFlags o1 =
     [''D'' @ format_uint (ma_Delta o1)] @
     when_flag (ma_Decrement o1) ''MD'' @
     (case (ma_Initial o1, ma_InitialTTL o1) of
        (Some i, Some ttl) \<Rightarrow> [''J'' @ format_uint i, expirationFlag ''N'' ttl]
      | _ \<Rightarrow> []) @
     opt_flag (expirationFlag ''T'') (ma_Touch o1) @
     opt_flag (\<lambda>c. ''C'' @ format_uint c) (ma_CompareCAS o1) @
     opt_flag (\<lambda>c. ''E'' @ format_uint c) (ma_SetCAS o1) @
     when_flag (\<not> ma_MetadataOnly o1) ''v'' @
     when_flag (ma_ReturnTTL o1) ''t'' @
     when_flag (ma_ReturnCAS o1) ''c'' @
     when_flag (ma_ReturnKey o1) ''k''"

definition buildArithmetic :: "bytes \<Rightarrow> MetaArithmeticOptions \<Rightarrow> MetaCommand result" where
  "buildArithmetic key o1 =
     and_then (ensure ((ma_Initial o1 = None) = (ma_InitialTTL o1 = None))
        (errorf ''memcache: Initial and InitialTTL must be supplied together'' [])) (\<lambda>_.
     and_then (ensure (positive_if_given (ma_InitialTTL o1))
        (errorf ''memcache: InitialTTL must be positive'' [])) (\<lambda>_.
     and_then (appendOpaque (arithmeticFlags o1) (ma_Opaque o1)) (\<lambda>flags.
       Inr \<lparr>mc_Command = ''ma'', mc_Key = key, mc_Flags = flags, mc_Value = [], mc_HasValue = False\<rparr>)))"

definition semanticArithmetic ::
    "bytes \<Rightarrow> MetaArithmeticOptions \<Rightarrow> RawResponse \<Rightarrow> ArithmeticResult \<times> goerr option" where
  "semanticArithmetic key o1 wire =
     (let (status, err) = arithmeticStatus (raw_Code wire);
          result = \<lparr>ar_Key = key, ar_Status = status, ar_Value = 0, ar_HasValue = False,
            ar_Metadata = raw_Metadata wire, ar_ReturnedKey = raw_Key wire, ar_Opaque = raw_Opaque wire\<rparr>
      in if err = None \<and> status = MutationApplied \<and> ma_MetadataOnly o1 \<and> raw_Code wire \<noteq> ResponseHeader
         then (zero_ArithmeticResult, Some (ProtocolError ''metadata-only arithmetic returned a value'' []))
         else if err = None \<and> status = MutationApplied \<and> \<not> ma_MetadataOnly o1 \<and> raw_Code wire \<noteq> ResponseValue
         then (zero_ArithmeticResult, Some (ProtocolError ''value-bearing arithmetic returned HD'' []))
         else if raw_Code wire = ResponseValue then
           (case parse_uint 64 (raw_Value wire) of
              None \<Rightarrow> (zero_ArithmeticResult, Some (ProtocolError ''arithmetic value is not uint64'' []))
            | Some v \<Rightarrow> (result\<lparr>ar_Value := v, ar_HasValue := True\<rparr>, err))
         else (result, err))"

section \<open>Facts on the builders\<close>

lemma list_all_when_flag [simp]: "list_all P (when_flag b f) \<longleftrightarrow> (b \<longrightarrow> P f)"
  by (simp add: when_flag_def)

lemma list_all_opt_flag [simp]: "list_all P (opt_flag f x) \<longleftrightarrow> (\<forall>v. x = Some v \<longrightarrow> P (f v))"
  by (auto simp: opt_flag_def split: option.split)

lemma token_expirationFlag [simp]: "token (expirationFlag (c # s) e) \<longleftrightarrow> token (c # s)"
  by (auto simp: expirationFlag_def)

lemma validateOpaque_Inr [simp]: "validateOpaque s = Inr u \<longleftrightarrow> length s \<le> 32 \<and> clean s"
  by (auto simp: validateOpaque_def)

lemma appendOpaque_Inr:
  "appendOpaque flags s = Inr out \<longleftrightarrow>
     length s \<le> 32 \<and> clean s \<and> out = flags @ when_flag (s \<noteq> []) (''O'' @ s)"
  by (auto simp: appendOpaque_def when_flag_def result_simps)

lemma not_ctl_flag_letters [simp]:
  "\<not> ctl_byte (CHR ''v'')" "\<not> ctl_byte (CHR ''u'')" "\<not> ctl_byte (CHR ''T'')"
  "\<not> ctl_byte (CHR ''N'')" "\<not> ctl_byte (CHR ''R'')" "\<not> ctl_byte (CHR ''C'')"
  "\<not> ctl_byte (CHR ''E'')" "\<not> ctl_byte (CHR ''F'')" "\<not> ctl_byte (CHR ''M'')"
  "\<not> ctl_byte (CHR ''A'')" "\<not> ctl_byte (CHR ''P'')" "\<not> ctl_byte (CHR ''I'')"
  "\<not> ctl_byte (CHR ''x'')" "\<not> ctl_byte (CHR ''D'')" "\<not> ctl_byte (CHR ''J'')"
  "\<not> ctl_byte (CHR ''q'')" "\<not> ctl_byte (CHR ''b'')"
  by (simp_all add: ctl_byte_def)

lemma buildGet_Inr:
  "buildGet key o1 = Inr c \<longleftrightarrow>
     \<not> (mg_UnlessCAS o1 \<noteq> None \<and> mg_MetadataOnly o1) \<and>
     \<not> (mg_MetadataOnly o1 \<and> mg_VivifyTTL o1 \<noteq> None \<and> mg_RefreshBefore o1 \<noteq> None) \<and>
     positive_if_given (mg_VivifyTTL o1) \<and> positive_if_given (mg_RefreshBefore o1) \<and>
     length (mg_Opaque o1) \<le> 32 \<and> clean (mg_Opaque o1) \<and>
     c = \<lparr>mc_Command = ''mg'', mc_Key = key,
       mc_Flags = getFlags o1 @ when_flag (mg_Opaque o1 \<noteq> []) (''O'' @ mg_Opaque o1),
       mc_Value = [], mc_HasValue = False\<rparr>"
  by (auto simp: buildGet_def result_simps appendOpaque_Inr)

lemma buildSet_Inr:
  "buildSet key val o1 = Inr c \<longleftrightarrow>
     (\<exists>mode. modeFlag (ms_Mode o1) = Inr mode \<and>
       \<not> ((ms_Mode o1 = ModeAppend \<or> ms_Mode o1 = ModePrepend) \<and> ms_TTL o1 \<noteq> 0) \<and>
       (ms_VivifyTTL o1 \<noteq> None \<longrightarrow> ms_Mode o1 = ModeAppend \<or> ms_Mode o1 = ModePrepend) \<and>
       \<not> (ms_Mode o1 = ModeAdd \<and> ms_CompareCAS o1 \<noteq> None) \<and>
       \<not> (ms_Invalidate o1 \<and> ms_CompareCAS o1 = None) \<and> positive_if_given (ms_VivifyTTL o1) \<and>
       length (ms_Opaque o1) \<le> 32 \<and> clean (ms_Opaque o1) \<and>
       c = \<lparr>mc_Command = ''ms'', mc_Key = key,
         mc_Flags = setFlags mode o1 @ when_flag (ms_Opaque o1 \<noteq> []) (''O'' @ ms_Opaque o1),
         mc_Value = val, mc_HasValue = True\<rparr>)"
proof (cases "modeFlag (ms_Mode o1)")
  case (Inr mode)
  let ?flags = "setFlags mode o1" and ?mk = "\<lambda>flags. \<lparr>mc_Command = ''ms'', mc_Key = key,
     mc_Flags = flags, mc_Value = val, mc_HasValue = True\<rparr>"
  have *: "and_then (appendOpaque ?flags (ms_Opaque o1)) (\<lambda>flags. Inr (?mk flags)) = Inr c \<longleftrightarrow>
     length (ms_Opaque o1) \<le> 32 \<and> clean (ms_Opaque o1) \<and>
     c = ?mk (?flags @ when_flag (ms_Opaque o1 \<noteq> []) (''O'' @ ms_Opaque o1))"
    unfolding and_then_Inr appendOpaque_Inr by blast
  show ?thesis
    unfolding buildSet_def Inr and_then.simps Let_def and_then_ensure guard_Inr *
    by (simp only: sum.inject ex_simps simp_thms) blast
qed (simp add: buildSet_def)

lemma buildDelete_Inr:
  "buildDelete key o1 = Inr c \<longleftrightarrow>
     \<not> (mdo_StaleFor o1 \<noteq> None \<and> \<not> mdo_Invalidate o1) \<and>
     length (mdo_Opaque o1) \<le> 32 \<and> clean (mdo_Opaque o1) \<and>
     c = \<lparr>mc_Command = ''md'', mc_Key = key,
       mc_Flags = deleteFlags o1 @ when_flag (mdo_Opaque o1 \<noteq> []) (''O'' @ mdo_Opaque o1),
       mc_Value = [], mc_HasValue = False\<rparr>"
  by (auto simp: buildDelete_def result_simps appendOpaque_Inr)

lemma buildArithmetic_Inr:
  "buildArithmetic key o1 = Inr c \<longleftrightarrow>
     (ma_Initial o1 = None) = (ma_InitialTTL o1 = None) \<and> positive_if_given (ma_InitialTTL o1) \<and>
     length (ma_Opaque o1) \<le> 32 \<and> clean (ma_Opaque o1) \<and>
     c = \<lparr>mc_Command = ''ma'', mc_Key = key,
       mc_Flags = arithmeticFlags o1 @ when_flag (ma_Opaque o1 \<noteq> []) (''O'' @ ma_Opaque o1),
       mc_Value = [], mc_HasValue = False\<rparr>"
  by (auto simp: buildArithmetic_def result_simps appendOpaque_Inr)

lemmas build_Inr = buildGet_Inr buildSet_Inr buildDelete_Inr buildArithmetic_Inr

lemma modeFlag_Inr:
  "modeFlag m = Inr s \<Longrightarrow>
     s = (case m of ModeAdd \<Rightarrow> ''ME'' | ModeReplace \<Rightarrow> ''MR'' | ModeAppend \<Rightarrow> ''MA''
          | ModePrepend \<Rightarrow> ''MP'' | _ \<Rightarrow> [])"
  by (cases m) auto

lemma modeFlag_token: "modeFlag m = Inr s \<Longrightarrow> s \<noteq> [] \<longrightarrow> token s \<and> hd s = CHR ''M''"
  by (cases m) auto

lemma token_getFlags: "list_all token (getFlags o1)"
  by (simp add: getFlags_def)

lemma token_setFlags: "modeFlag (ms_Mode o1) = Inr mode \<Longrightarrow> list_all token (setFlags mode o1)"
  using modeFlag_token [of "ms_Mode o1" mode] by (simp add: setFlags_def)

lemma token_deleteFlags: "list_all token (deleteFlags o1)"
  by (simp add: deleteFlags_def)

lemma token_arithmeticFlags: "list_all token (arithmeticFlags o1)"
  by (auto simp: arithmeticFlags_def split: option.split)

section \<open>No flag is sent twice\<close>

text \<open>The letters of the flags a builder can emit, in its order.\<close>

lemma map_hd_when_flag: "f \<noteq> [] \<Longrightarrow> map hd (when_flag b f) = (if b then [hd f] else [])"
  by (simp add: when_flag_def)

lemma map_hd_opt_flag:
  "(\<And>v. f v \<noteq> []) \<Longrightarrow> map hd (opt_flag f x) = (case x of None \<Rightarrow> [] | Some v \<Rightarrow> [hd (f v)])"
  by (simp add: opt_flag_def split: option.split)

definition optional_letters :: "char list \<Rightarrow> bytes list \<Rightarrow> bool" where
  "optional_letters ls fs \<longleftrightarrow> subseq (map hd fs) ls"

lemma optional_letters_append:
  "\<lbrakk>optional_letters ls fs; optional_letters ms gs\<rbrakk> \<Longrightarrow> optional_letters (ls @ ms) (fs @ gs)"
  by (simp add: optional_letters_def list_emb_append_mono)

lemma optional_letters_when: "optional_letters [c] (when_flag b (c # s))"
  by (simp add: optional_letters_def when_flag_def)

lemma optional_letters_opt: "(\<And>v. f v \<noteq> [] \<and> hd (f v) = c) \<Longrightarrow> optional_letters [c] (opt_flag f x)"
  by (simp add: optional_letters_def opt_flag_def split: option.split)

lemma subseq_distinct: "subseq xs ys \<Longrightarrow> distinct ys \<Longrightarrow> distinct xs \<and> set xs \<subseteq> set ys"
  by (induction rule: list_emb.induct) auto

lemma optional_letters_distinct:
  "optional_letters ls fs \<Longrightarrow> distinct ls \<Longrightarrow> distinct (map hd fs) \<and> set (map hd fs) \<subseteq> set ls"
  unfolding optional_letters_def by (rule subseq_distinct)

text \<open>The letters of every builder's flags, in order.\<close>

lemma letters_getFlags: "optional_letters ''vcftslhkuTNRCE'' (getFlags o1)"
  unfolding getFlags_def
  by (intro optional_letters_append [where ls = "[c]" for c, simplified]
      optional_letters_when optional_letters_opt) (simp_all add: expirationFlag_def)

lemma letters_setFlags:
  assumes "modeFlag (ms_Mode o1) = Inr mode"
  shows "optional_letters ''FTMCEINcsk'' (setFlags mode o1)"
proof -
  have m: "optional_letters ''M'' (when_flag (mode \<noteq> []) mode)"
    using modeFlag_token [OF assms] by (auto simp: optional_letters_def when_flag_def)
  have f: "optional_letters ''F'' [''F'' @ s]" for s by (simp add: optional_letters_def)
  show ?thesis
    unfolding setFlags_def
    by (intro optional_letters_append [where ls = "[c]" for c, simplified] f m
        optional_letters_when [where s = "[]"] optional_letters_opt)
      (simp_all add: expirationFlag_def optional_letters_def when_flag_def)
qed

lemma letters_deleteFlags: "optional_letters ''CEITxk'' (deleteFlags o1)"
  unfolding deleteFlags_def
  by (intro optional_letters_append [where ls = "[c]" for c, simplified]
      optional_letters_when optional_letters_opt) (simp_all add: expirationFlag_def)

lemma letters_arithmeticFlags: "optional_letters ''DMJNTCEvtck'' (arithmeticFlags o1)"
proof -
  have d: "optional_letters ''D'' [''D'' @ s]" for s by (simp add: optional_letters_def)
  have j: "optional_letters ''JN'' (case (ma_Initial o1, ma_InitialTTL o1) of
        (Some i, Some ttl) \<Rightarrow> [''J'' @ format_uint i, expirationFlag ''N'' ttl] | _ \<Rightarrow> [])"
    by (simp add: optional_letters_def expirationFlag_def split: option.split)
  show ?thesis
    unfolding arithmeticFlags_def
    by (intro optional_letters_append [where ls = "[c]" for c, simplified]
        optional_letters_append [where ls = "''JN''", simplified] d j
        optional_letters_when optional_letters_opt) (simp_all add: expirationFlag_def)
qed

lemma optional_letters_opaque:
  "optional_letters ls fs \<Longrightarrow>
     optional_letters (ls @ ''O'') (fs @ when_flag b (''O'' @ s))"
  by (rule optional_letters_append) (simp_all add: optional_letters_def when_flag_def)

text \<open>What each builder's command is, for the proofs that only need the shape of its flags.\<close>

definition plainFlags :: "bytes list \<Rightarrow> bool" where
  "plainFlags fs \<longleftrightarrow>
     list_all token fs \<and> distinct (map hd fs) \<and> CHR ''q'' \<notin> hd ` set fs \<and> CHR ''b'' \<notin> hd ` set fs"

lemma plainFlags_intro:
  assumes "optional_letters ls fs" and "list_all token fs" and "distinct (ls @ ''O'')"
    and "CHR ''q'' \<notin> set ls \<and> CHR ''b'' \<notin> set ls" and "clean s"
  shows "plainFlags (fs @ when_flag (s \<noteq> []) (''O'' @ s))"
proof -
  let ?fs = "fs @ when_flag (s \<noteq> []) (''O'' @ s)"
  have d: "distinct (map hd ?fs) \<and> set (map hd ?fs) \<subseteq> set (ls @ ''O'')"
    by (rule optional_letters_distinct [OF optional_letters_opaque [OF assms(1)] assms(3)])
  have "list_all token ?fs" using assms(2,5) by (simp add: token_def)
  moreover have "CHR ''q'' \<notin> set (ls @ ''O'')" "CHR ''b'' \<notin> set (ls @ ''O'')"
    using assms(4) by simp_all
  ultimately show ?thesis
    using d unfolding plainFlags_def set_map by blast
qed

lemma plainFlags_get: "buildGet key o1 = Inr c \<Longrightarrow> plainFlags (mc_Flags c)"
  unfolding buildGet_Inr
  by (auto intro!: plainFlags_intro [OF letters_getFlags token_getFlags, simplified])

lemma plainFlags_set: "buildSet key val o1 = Inr c \<Longrightarrow> plainFlags (mc_Flags c)"
  unfolding buildSet_Inr
  by (auto intro!: plainFlags_intro [OF letters_setFlags token_setFlags, simplified])

lemma plainFlags_delete: "buildDelete key o1 = Inr c \<Longrightarrow> plainFlags (mc_Flags c)"
  unfolding buildDelete_Inr
  by (auto intro!: plainFlags_intro [OF letters_deleteFlags token_deleteFlags, simplified])

lemma plainFlags_arithmetic: "buildArithmetic key o1 = Inr c \<Longrightarrow> plainFlags (mc_Flags c)"
  unfolding buildArithmetic_Inr
  by (auto intro!: plainFlags_intro [OF letters_arithmeticFlags token_arithmeticFlags, simplified])

lemmas plainFlags_build = plainFlags_get plainFlags_set plainFlags_delete plainFlags_arithmetic

section \<open>Properties of the builders\<close>

lemma marshal_built:
  assumes "plainFlags (mc_Flags c)" and "List.member [''mg'', ''ms'', ''md'', ''ma''] (mc_Command c)"
    and "mc_HasValue c \<longleftrightarrow> mc_Command c = ''ms''"
  shows "(\<exists>out. marshal c = Inr out) \<longleftrightarrow> (\<exists>p. encodeKey (mc_Key c) = Inr p)"
proof -
  have "List.member metaCommands (mc_Command c)" and "mc_Command c \<noteq> ''me''"
    using assms(2) by (auto simp: metaCommands_def)
  with assms(1,3) show ?thesis by (simp add: marshal_Inr plainFlags_def)
qed

lemma plainFlags_no_q: "plainFlags fs \<Longrightarrow> \<not> List.member fs ''q''"
  by (force simp: plainFlags_def)

text \<open>
  C36: every command a builder accepts is one that \<open>marshal\<close> accepts, unless the key itself
  is unusable: the builders never emit an empty or dirty flag, whatever the options. No flag
  letter is emitted twice, which memcached refuses, and no builder emits \<open>q\<close>, whose
  suppressed responses the single-command path could not match.
\<close>

theorem built_commands_marshal:
  assumes "buildGet key go = Inr c \<or> buildSet key val so = Inr c \<or>
    buildDelete key deo = Inr c \<or> buildArithmetic key ao = Inr c"
  shows "mc_Key c = key \<and> distinct (map hd (mc_Flags c)) \<and> \<not> List.member (mc_Flags c) ''q'' \<and>
    ((\<exists>out. marshal c = Inr out) \<longleftrightarrow> (\<exists>w b. encodeKey key = Inr (w, b)))"
proof -
  have p: "plainFlags (mc_Flags c)" using assms plainFlags_build by blast
  have k: "mc_Key c = key" and "List.member [''mg'', ''ms'', ''md'', ''ma''] (mc_Command c)"
    and "mc_HasValue c \<longleftrightarrow> mc_Command c = ''ms''"
    using assms by (auto simp: build_Inr)
  with marshal_built [OF p] have "(\<exists>out. marshal c = Inr out) \<longleftrightarrow> (\<exists>w b. encodeKey key = Inr (w, b))"
    by simp
  with k p plainFlags_no_q [OF p] show ?thesis by (simp add: plainFlags_def)
qed

definition demoGet :: MetaGetOptions where
  "demoGet = zero_MetaGetOptions\<lparr>mg_ReturnCAS := True, mg_Touch := Some 60, mg_Opaque := ''r1''\<rparr>"

definition demoGetCommand :: MetaCommand where
  "demoGetCommand = \<lparr>mc_Command = ''mg'', mc_Key = ''k'', mc_Flags = [''v'', ''c'', ''T60'', ''Or1''],
     mc_Value = [], mc_HasValue = False\<rparr>"

lemma demoGet_builds: "buildGet ''k'' demoGet = Inr demoGetCommand"
  by code_simp

theorem built_commands_marshal_witness:
  "buildGet ''k'' demoGet = Inr demoGetCommand \<and> distinct (map hd (mc_Flags demoGetCommand)) \<and>
   ((\<exists>out. marshal demoGetCommand = Inr out) \<longleftrightarrow> (\<exists>w b. encodeKey ''k'' = Inr (w, b)))"
  using built_commands_marshal [of "''k''" demoGet demoGetCommand] demoGet_builds by blast

lemma side_effect_flags:
  "list_ex (\<lambda>flag. flag \<noteq> [] \<and> List.member ''TNRE'' (hd flag)) (getFlags o1) \<longleftrightarrow>
     mg_Touch o1 \<noteq> None \<or> mg_VivifyTTL o1 \<noteq> None \<or> mg_RefreshBefore o1 \<noteq> None \<or> mg_SetCAS o1 \<noteq> None"
  by (auto simp: getFlags_def when_flag_def opt_flag_def expirationFlag_def split: option.splits)

text \<open>
  The classification that decides whether a failure is ambiguous. A built get counts as
  a mutation exactly when it carries an option that changes the item (touch, vivify,
  refresh lease or an explicit CAS), so a plain read is never reported as ambiguous;
  every built store, delete and arithmetic command counts as one.
\<close>

theorem side_effect_classification:
  "(case buildGet key go of Inl e \<Rightarrow> True | Inr c \<Rightarrow> commandHasSideEffect c \<longleftrightarrow>
      mg_Touch go \<noteq> None \<or> mg_VivifyTTL go \<noteq> None \<or> mg_RefreshBefore go \<noteq> None \<or> mg_SetCAS go \<noteq> None) \<and>
   (case buildSet key val so of Inl e \<Rightarrow> True | Inr c \<Rightarrow> commandHasSideEffect c) \<and>
   (case buildDelete key deo of Inl e \<Rightarrow> True | Inr c \<Rightarrow> commandHasSideEffect c) \<and>
   (case buildArithmetic key ao of Inl e \<Rightarrow> True | Inr c \<Rightarrow> commandHasSideEffect c)"
proof -
  have "commandHasSideEffect c \<longleftrightarrow>
      mg_Touch go \<noteq> None \<or> mg_VivifyTTL go \<noteq> None \<or> mg_RefreshBefore go \<noteq> None \<or> mg_SetCAS go \<noteq> None"
    if "buildGet key go = Inr c" for c
    using that side_effect_flags [of go, simplified]
    by (auto simp: buildGet_Inr commandHasSideEffect_def when_flag_def)
  moreover have "commandHasSideEffect c" if "buildSet key val so = Inr c" for c
    using that by (auto simp: buildSet_Inr commandHasSideEffect_def)
  moreover have "commandHasSideEffect c" if "buildDelete key deo = Inr c" for c
    using that by (simp add: buildDelete_Inr commandHasSideEffect_def)
  moreover have "commandHasSideEffect c" if "buildArithmetic key ao = Inr c" for c
    using that by (simp add: buildArithmetic_Inr commandHasSideEffect_def)
  ultimately show ?thesis by (simp split: sum.split)
qed

theorem side_effect_classification_witness:
  "buildGet ''k'' demoGet = Inr demoGetCommand \<and> commandHasSideEffect demoGetCommand"
  using side_effect_classification [where key = "''k''" and go = demoGet] demoGet_builds
  by (simp add: demoGet_def)

section \<open>Properties of the interpreters\<close>

text \<open>
  C37: what the outcome of a get says about the response. A hit is a stored value or header
  that is not a lease placeholder; the placeholder a vivifying get creates is a miss for
  the lease winner and pending for everyone else, never a hit with an empty value; an
  unchanged value is reported only for a conditional get that got no value back; a value
  comes only from a value response, unaltered; the value is missing exactly for a miss or a
  placeholder. Any other response is a protocol error with the zero result.
\<close>

theorem get_outcome:
  "case semanticGet key o1 wire of
     (r, None) \<Rightarrow>
       List.member [ResponseMiss, ResponseValue, ResponseHeader] (raw_Code wire) \<and>
       gr_Key r = key \<and> gr_Metadata r = raw_Metadata wire \<and>
       (let ph = (raw_Code wire \<noteq> ResponseMiss \<and> placeholder o1 wire) in
        (gr_Status r = GetMiss \<longleftrightarrow> raw_Code wire = ResponseMiss \<or> ph \<and> raw_Won wire) \<and>
        (gr_Status r = GetPending \<longleftrightarrow> ph \<and> \<not> raw_Won wire) \<and>
        (gr_Status r = GetUnchanged \<longleftrightarrow>
           \<not> ph \<and> raw_Code wire = ResponseHeader \<and> mg_UnlessCAS o1 \<noteq> None) \<and>
        (Hit r \<longleftrightarrow> \<not> ph \<and> (raw_Code wire = ResponseValue \<or>
           raw_Code wire = ResponseHeader \<and> mg_UnlessCAS o1 = None \<and> mg_MetadataOnly o1)) \<and>
        (gr_ValueState r = ValueMissing \<longleftrightarrow> raw_Code wire = ResponseMiss \<or> ph)) \<and>
       gr_Value r = (if raw_Code wire = ResponseValue then raw_Value wire else [])
   | (r, Some e) \<Rightarrow> r = zero_GetResult \<and> (\<exists>m a. e = ProtocolError m a) \<and>
       (\<not> List.member [ResponseMiss, ResponseValue, ResponseHeader] (raw_Code wire) \<or>
        raw_Code wire = ResponseHeader \<and> \<not> mg_MetadataOnly o1 \<and> mg_UnlessCAS o1 = None)"
proof -
  consider (miss) "raw_Code wire = ResponseMiss" | (val) "raw_Code wire = ResponseValue"
    | (header) "raw_Code wire = ResponseHeader"
    | (bad) "\<not> List.member [ResponseMiss, ResponseValue, ResponseHeader] (raw_Code wire)"
    by auto
  then show ?thesis
  proof cases
    case miss
    then show ?thesis by (simp add: semanticGet_def Let_def Hit_def)
  next
    case val
    then show ?thesis
      by (cases "placeholder o1 wire") (simp_all add: semanticGet_def Let_def Hit_def)
  next
    case header
    then show ?thesis
      by (cases "placeholder o1 wire") (simp_all add: semanticGet_def Let_def Hit_def)
  next
    case bad
    then show ?thesis by (simp add: semanticGet_def Let_def)
  qed
qed

theorem get_outcome_witness:
  "gr_Status (fst (semanticGet ''k'' demoGet ((raw_of_code ResponseValue)\<lparr>raw_Value := ''x''\<rparr>))) = GetHit \<and>
   gr_Value (fst (semanticGet ''k'' demoGet ((raw_of_code ResponseValue)\<lparr>raw_Value := ''x''\<rparr>))) = ''x''"
  using get_outcome [where key = "''k''" and ?o1.0 = demoGet
      and wire = "(raw_of_code ResponseValue)\<lparr>raw_Value := ''x''\<rparr>"]
  by (simp add: raw_of_code_def placeholder_def demoGet_def zero_MetaGetOptions_def Hit_def
      split: prod.splits option.splits)

text \<open>
  What the outcome of an increment or decrement says about the response. Success of
  the operation is reported only for the kind of response that was asked for, the number
  is the decimal number in the response read as 64 bits, and no error comes with a number.
\<close>

theorem arithmetic_outcome:
  "case semanticArithmetic key o1 wire of
     (r, None) \<Rightarrow>
       (ar_Status r = MutationApplied \<longleftrightarrow>
          raw_Code wire = (if ma_MetadataOnly o1 then ResponseHeader else ResponseValue)) \<and>
       (ar_HasValue r \<longleftrightarrow> ar_Status r = MutationApplied \<and> \<not> ma_MetadataOnly o1) \<and>
       parse_uint 64 (if ar_HasValue r then raw_Value wire else ''0'') = Some (ar_Value r) \<and>
       (ar_Status r = MutationNotFound \<longleftrightarrow>
          raw_Code wire = ResponseNotFound \<or> raw_Code wire = ResponseNotStored) \<and>
       (ar_Status r = MutationCASMismatch \<longleftrightarrow> raw_Code wire = ResponseExists)
   | (r, Some e) \<Rightarrow> \<not> ar_HasValue r \<and> ar_Status r = MutationUnknown \<and> (\<exists>m a. e = ProtocolError m a)"
proof -
  have z: "parse_uint 64 ''0'' = Some 0"
    by (simp add: parse_uint_def parse_nat_def is_digit_def digits_val_def digit_val_def)
  note defs = semanticArithmetic_def arithmeticStatus_def zero_ArithmeticResult_def
  consider (header) "raw_Code wire = ResponseHeader" | (val) "raw_Code wire = ResponseValue"
    | (cas) "raw_Code wire = ResponseExists" | (nf) "raw_Code wire = ResponseNotFound"
    | (ns) "raw_Code wire = ResponseNotStored"
    | (other) "\<not> List.member [ResponseHeader, ResponseValue, ResponseExists, ResponseNotFound,
        ResponseNotStored] (raw_Code wire)" by auto
  then show ?thesis
  proof cases
    case header
    then show ?thesis by (cases "ma_MetadataOnly o1") (simp_all add: defs z)
  next
    case val
    then show ?thesis
      by (cases "ma_MetadataOnly o1"; cases "parse_uint 64 (raw_Value wire)") (simp_all add: defs)
  next
    case other
    then show ?thesis by (simp add: defs)
  qed (simp_all add: defs z)
qed

end
