(* ===== verification/Config.thy ===== *)
theory Config
  imports Commands
begin

text \<open>
  Configuration and routing: the options of \<open>options.go\<close> applied to the default
  configuration, \<open>New\<close> and \<open>Client.server\<close> of \<open>client.go\<close>, and the rendezvous router.
  The dialer and the codec are functions the caller passes in; the model carries the
  dialer as an opaque value and the codec as its two functions.
\<close>

section \<open>Configuration\<close>

text \<open>
  \<open>Pick\<close> returns an index and may reorder the slice it is handed, so the model of a router
  returns the index and the slice as it leaves it.
\<close>

type_synonym router = "bytes \<Rightarrow> bytes list \<Rightarrow> int \<times> bytes list"

record 'v codec =
  cd_Marshal :: "'v \<Rightarrow> bytes result"
  cd_Unmarshal :: "bytes \<Rightarrow> 'v result"

record ('d, 'v) config =
  cfg_servers :: "bytes list"
  cfg_network :: bytes
  cfg_dial :: 'd
  cfg_dialTimeout :: duration
  cfg_ioTimeout :: duration
  cfg_idleTimeout :: duration
  cfg_maxConns :: int
  cfg_maxItemSize :: int
  cfg_router :: router
  cfg_copyServersForRouter :: bool
  cfg_codec :: "'v codec"
  cfg_defaultRefreshAhead :: "duration option"
  cfg_degrade :: bool
  cfg_onError :: bool

text \<open>
  \<open>cfg_onError\<close> says whether an error hook is installed; what it is called with is recorded
  in the client's world.
\<close>

section \<open>Rendezvous routing\<close>

definition rendezvous_score :: "bytes \<Rightarrow> bytes \<Rightarrow> 64 word" where
  "rendezvous_score key server = fnv_write (fnv_write (fnv_write fnv_offset key) [CHR 0x00]) server"

fun pickLoop :: "bytes \<Rightarrow> nat \<Rightarrow> bytes list \<Rightarrow> nat \<times> 64 word \<Rightarrow> nat \<times> 64 word" where
  "pickLoop key i [] best = best"
| "pickLoop key i (server # servers) (best, bestHash) =
     (let sum = rendezvous_score key server
      in pickLoop key (Suc i) servers (if i = 0 \<or> sum > bestHash then (i, sum) else (best, bestHash)))"

definition rendezvous_pick :: router where
  "rendezvous_pick key servers = (int (fst (pickLoop key 0 servers (0, 0))), servers)"

definition defaultConfig :: "'d \<Rightarrow> 'v codec \<Rightarrow> bytes \<Rightarrow> ('d, 'v) config" where
  "defaultConfig dialer jsonCodec server = \<lparr>cfg_servers = [server], cfg_network = ''tcp'',
     cfg_dial = dialer, cfg_dialTimeout = time_Second, cfg_ioTimeout = time_Second,
     cfg_idleTimeout = 90 * time_Second, cfg_maxConns = 1, cfg_maxItemSize = 1024 * 1024,
     cfg_router = rendezvous_pick, cfg_copyServersForRouter = False, cfg_codec = jsonCodec,
     cfg_defaultRefreshAhead = None, cfg_degrade = False, cfg_onError = False\<rparr>"

section \<open>Options\<close>

text \<open>One constructor per option; an argument the caller may leave nil is an option.\<close>

datatype ('d, 'v) Option =
    RefreshAhead duration
  | Degrade bool
  | OnError bool
  | WithCodec "'v codec option"
  | WithRouter "router option"
  | WithServers "bytes list"
  | WithNetwork bytes
  | WithDialer "'d option"
  | WithTimeout duration
  | WithDialTimeout duration
  | WithIdleTimeout duration
  | WithMaxConns int
  | WithMaxItemSize int

fun applyOption :: "('d, 'v) Option \<Rightarrow> ('d, 'v) config \<Rightarrow> ('d, 'v) config result" where
  "applyOption (RefreshAhead d) c =
     (if d \<le> 0 then Inl (errorf ''memcache: RefreshAhead must be positive'' [])
      else Inr (c\<lparr>cfg_defaultRefreshAhead := Some d\<rparr>))"
| "applyOption (Degrade b) c = Inr (c\<lparr>cfg_degrade := b\<rparr>)"
| "applyOption (OnError hook) c =
     (if \<not> hook then Inl (errorf ''memcache: nil OnError hook'' []) else Inr (c\<lparr>cfg_onError := True\<rparr>))"
| "applyOption (WithCodec codec) c =
     (case codec of None \<Rightarrow> Inl (errorf ''memcache: nil codec'' []) | Some k \<Rightarrow> Inr (c\<lparr>cfg_codec := k\<rparr>))"
| "applyOption (WithRouter router) c =
     (case router of None \<Rightarrow> Inl (errorf ''memcache: nil router'' [])
      | Some r \<Rightarrow> Inr (c\<lparr>cfg_router := r, cfg_copyServersForRouter := True\<rparr>))"
| "applyOption (WithServers servers) c = Inr (c\<lparr>cfg_servers := servers\<rparr>)"
| "applyOption (WithNetwork network) c = Inr (c\<lparr>cfg_network := network\<rparr>)"
| "applyOption (WithDialer dialer) c =
     (case dialer of None \<Rightarrow> Inl (errorf ''memcache: nil dialer'' []) | Some d \<Rightarrow> Inr (c\<lparr>cfg_dial := d\<rparr>))"
| "applyOption (WithTimeout timeout) c =
     (if timeout < 0 then Inl (errorf ''memcache: timeout must not be negative'' [])
      else Inr (c\<lparr>cfg_ioTimeout := timeout\<rparr>))"
| "applyOption (WithDialTimeout timeout) c =
     (if timeout < 0 then Inl (errorf ''memcache: dial timeout must not be negative'' [])
      else Inr (c\<lparr>cfg_dialTimeout := timeout\<rparr>))"
| "applyOption (WithIdleTimeout timeout) c =
     (if timeout < 0 then Inl (errorf ''memcache: idle timeout must not be negative'' [])
      else Inr (c\<lparr>cfg_idleTimeout := timeout\<rparr>))"
| "applyOption (WithMaxConns mx) c =
     (if mx < 1 then Inl (errorf ''memcache: max connections must be at least one'' [])
      else Inr (c\<lparr>cfg_maxConns := mx\<rparr>))"
| "applyOption (WithMaxItemSize mx) c =
     (if mx < 0 then Inl (errorf ''memcache: max item size must not be negative'' [])
      else Inr (c\<lparr>cfg_maxItemSize := mx\<rparr>))"

fun applyOptions :: "('d, 'v) Option option list \<Rightarrow> ('d, 'v) config \<Rightarrow> ('d, 'v) config result" where
  "applyOptions [] c = Inr c"
| "applyOptions (None # opts) c = Inl (errorf ''memcache: nil option'' [])"
| "applyOptions (Some opt # opts) c = and_then (applyOption opt c) (applyOptions opts)"

section \<open>The client\<close>

text \<open>
  A client's pools are numbered by position; \<open>cl_servers\<close> holds their addresses.
  \<open>cl_serverIndexes\<close> is nil unless a custom router was supplied.
\<close>

record ('d, 'v) Client =
  cl_config :: "('d, 'v) config"
  cl_servers :: "bytes list"
  cl_serverIndexes :: "(bytes \<rightharpoonup> nat) option"

fun poolLoop :: "nat \<Rightarrow> bytes list \<Rightarrow> bytes list \<Rightarrow> (bytes \<rightharpoonup> nat) \<Rightarrow> (bytes \<rightharpoonup> nat) result" where
  "poolLoop i [] seen idx = Inr idx"
| "poolLoop i (address # rest) seen idx =
     (if address = [] then Inl (errorf ''memcache: server address %d is empty'' [FInt (int i)])
      else if List.member seen address
        then Inl (errorf ''memcache: duplicate server address %q'' [FStr address])
      else poolLoop (Suc i) rest (address # seen) (idx(address \<mapsto> i)))"

definition New ::
    "'d \<Rightarrow> 'v codec \<Rightarrow> bytes \<Rightarrow> ('d, 'v) Option option list \<Rightarrow> ('d, 'v) Client result" where
  "New dialer jsonCodec server options =
     and_then (applyOptions options (defaultConfig dialer jsonCodec server)) (\<lambda>cfg.
     and_then (ensure (cfg_network cfg \<noteq> []) (errorf ''memcache: network must not be empty'' [])) (\<lambda>_.
     and_then (ensure (cfg_servers cfg \<noteq> []) (errorf ''memcache: at least one server is required'' [])) (\<lambda>_.
     and_then (poolLoop 0 (cfg_servers cfg) [] Map.empty) (\<lambda>idx.
       Inr \<lparr>cl_config = cfg, cl_servers = cfg_servers cfg,
         cl_serverIndexes = (if cfg_copyServersForRouter cfg then Some idx else None)\<rparr>))))"

definition NewServers ::
    "'d \<Rightarrow> 'v codec \<Rightarrow> bytes list \<Rightarrow> ('d, 'v) Option option list \<Rightarrow> ('d, 'v) Client result" where
  "NewServers dialer jsonCodec servers options =
     (if servers = [] then Inl (errorf ''memcache: at least one server is required'' [])
      else New dialer jsonCodec (hd servers) (Some (WithServers servers) # options))"

text \<open>\<open>Client.server\<close>: the number of the pool a key is routed to.\<close>

definition serverOf :: "('d, 'v) Client \<Rightarrow> bytes \<Rightarrow> nat result" where
  "serverOf c key =
     (if \<not> cfg_copyServersForRouter (cl_config c) then
        (let index = fst (cfg_router (cl_config c) key (cfg_servers (cl_config c)))
         in if index < 0 \<or> index \<ge> int (length (cl_servers c))
            then Inl (errorf ''memcache: router returned invalid server index %d'' [FInt index])
            else Inr (nat index))
      else
        (let (index, servers) = cfg_router (cl_config c) key (cfg_servers (cl_config c))
         in if index < 0 \<or> index \<ge> int (length servers)
            then Inl (errorf ''memcache: router returned invalid server index %d'' [FInt index])
            else (case cl_serverIndexes c of
                None \<Rightarrow> Inl (errorf ''memcache: router selected unknown server address %q''
                           [FStr (servers ! nat index)])
              | Some idx \<Rightarrow>
                  (case idx (servers ! nat index) of
                     None \<Rightarrow> Inl (errorf ''memcache: router selected unknown server address %q''
                                [FStr (servers ! nat index)])
                   | Some i \<Rightarrow> Inr i))))"

section \<open>Call policies\<close>

record callPolicy =
  cp_refreshAhead :: "duration option"
  cp_touch :: "duration option"

datatype GetOption = TouchOption duration
datatype FetchOption = RefreshAheadOption duration

definition configPolicy :: "('d, 'v) config \<Rightarrow> callPolicy" where
  "configPolicy c = \<lparr>cp_refreshAhead = cfg_defaultRefreshAhead c, cp_touch = None\<rparr>"

fun applyGet :: "GetOption \<Rightarrow> callPolicy \<Rightarrow> callPolicy" where
  "applyGet (TouchOption ttl) p = p\<lparr>cp_touch := Some ttl\<rparr>"

fun applyFetch :: "FetchOption \<Rightarrow> callPolicy \<Rightarrow> callPolicy" where
  "applyFetch (RefreshAheadOption d) p = p\<lparr>cp_refreshAhead := Some d\<rparr>"

definition resolveTTL :: "int \<Rightarrow> duration \<Rightarrow> expiration result" where
  "resolveTTL now ttl =
     (if ttl < 0 then Inl (errorf ''memcache: TTL must not be negative'' []) else Inr (ExpiresIn now ttl))"

abbreviation Forever :: duration where "Forever \<equiv> 0"

end
