(* ===== verification/Routing.thy ===== *)
theory Routing
  imports Config "HOL-Library.Multiset"
begin

text \<open>
  What construction and routing guarantee: the invariant of every configuration a client is
  built with, the contract of a router as a locale, and the rendezvous router's choice as
  the address of the highest score, which makes it independent of the order of the list and
  of the addresses it does not choose.
\<close>

section \<open>The configuration invariant\<close>

definition optionsOk :: "('d, 'v) config \<Rightarrow> bool" where
  "optionsOk c \<longleftrightarrow>
     0 \<le> cfg_dialTimeout c \<and> 0 \<le> cfg_ioTimeout c \<and> 0 \<le> cfg_idleTimeout c \<and>
     1 \<le> cfg_maxConns c \<and> 0 \<le> cfg_maxItemSize c \<and>
     (case cfg_defaultRefreshAhead c of None \<Rightarrow> True | Some d \<Rightarrow> 0 < d) \<and>
     (cfg_copyServersForRouter c \<or> cfg_router c = rendezvous_pick)"

lemma optionsOk_default: "optionsOk (defaultConfig dialer jsonCodec server)"
  by (simp add: optionsOk_def defaultConfig_def time_Second_def)

lemma optionsOk_apply: "\<lbrakk>applyOption opt c = Inr c'; optionsOk c\<rbrakk> \<Longrightarrow> optionsOk c'"
  by (cases opt; simp add: optionsOk_def split: option.split_asm if_split_asm; clarsimp)

lemma optionsOk_applyAll: "\<lbrakk>applyOptions opts c = Inr c'; optionsOk c\<rbrakk> \<Longrightarrow> optionsOk c'"
  by (induction opts c rule: applyOptions.induct) (auto simp: result_simps dest: optionsOk_apply)

lemma poolLoop_Inr:
  "poolLoop i addrs seen idx = Inr idx' \<Longrightarrow>
     [] \<notin> set addrs \<and> distinct addrs \<and> set addrs \<inter> set seen = {} \<and>
     (\<forall>a. a \<notin> set addrs \<longrightarrow> idx' a = idx a) \<and>
     (\<forall>j < length addrs. idx' (addrs ! j) = Some (i + j))"
proof (induction i addrs seen idx rule: poolLoop.induct)
  case (2 i address rest seen idx)
  then have h: "address \<noteq> []" "address \<notin> set seen"
    "poolLoop (Suc i) rest (address # seen) (idx(address \<mapsto> i)) = Inr idx'"
    by (auto split: if_splits)
  from "2.IH" [OF h(1) _ h(3)] h(2) have ih: "[] \<notin> set rest" "distinct rest"
    "set rest \<inter> set (address # seen) = {}" "\<And>a. a \<notin> set rest \<Longrightarrow> idx' a = (idx(address \<mapsto> i)) a"
    "\<And>j. j < length rest \<Longrightarrow> idx' (rest ! j) = Some (Suc i + j)"
    by auto
  have "idx' ((address # rest) ! j) = Some (i + j)" if "j < length (address # rest)" for j
    using that ih by (cases j) auto
  with h(1,2) ih show ?case by auto
qed simp

text \<open>What every client built by \<open>New\<close> satisfies.\<close>

definition clientOk :: "('d, 'v) Client \<Rightarrow> bool" where
  "clientOk c \<longleftrightarrow>
     optionsOk (cl_config c) \<and> cfg_network (cl_config c) \<noteq> [] \<and>
     cl_servers c = cfg_servers (cl_config c) \<and> cl_servers c \<noteq> [] \<and>
     [] \<notin> set (cl_servers c) \<and> distinct (cl_servers c) \<and>
     (case cl_serverIndexes c of
        None \<Rightarrow> \<not> cfg_copyServersForRouter (cl_config c)
      | Some idx \<Rightarrow> cfg_copyServersForRouter (cl_config c) \<and>
          (\<forall>j < length (cl_servers c). idx (cl_servers c ! j) = Some j) \<and>
          (\<forall>a. a \<notin> set (cl_servers c) \<longrightarrow> idx a = None))"

lemma New_clientOk: "New dialer jsonCodec server options = Inr c \<Longrightarrow> clientOk c"
proof -
  assume "New dialer jsonCodec server options = Inr c"
  then obtain cfg idx where h: "applyOptions options (defaultConfig dialer jsonCodec server) = Inr cfg"
    "cfg_network cfg \<noteq> []" "cfg_servers cfg \<noteq> []" "poolLoop 0 (cfg_servers cfg) [] Map.empty = Inr idx"
    "c = \<lparr>cl_config = cfg, cl_servers = cfg_servers cfg,
       cl_serverIndexes = (if cfg_copyServersForRouter cfg then Some idx else None)\<rparr>"
    unfolding New_def and_then_Inr ensure_Inr by auto
  from optionsOk_applyAll [OF h(1) optionsOk_default] poolLoop_Inr [OF h(4)] h
  show ?thesis by (simp add: clientOk_def)
qed

text \<open>Whatever the router does, a key that is routed at all is routed to an existing pool.\<close>

lemma serverOf_range:
  assumes ok: "clientOk c" and s: "serverOf c key = Inr i"
  shows "i < length (cl_servers c)"
proof (cases "cfg_copyServersForRouter (cl_config c)")
  case False
  with s show ?thesis by (auto simp: serverOf_def Let_def split: if_splits)
next
  case True
  then obtain idx where idx: "cl_serverIndexes c = Some idx"
    "\<forall>j < length (cl_servers c). idx (cl_servers c ! j) = Some j"
    "\<forall>a. a \<notin> set (cl_servers c) \<longrightarrow> idx a = None"
    using ok unfolding clientOk_def by (auto split: option.splits)
  from s True idx(1) obtain a where a: "idx a = Some i"
    by (auto simp: serverOf_def split_def Let_def split: if_splits option.splits)
  then have "a \<in> set (cl_servers c)" using idx(3) by fastforce
  then obtain j where "j < length (cl_servers c)" "cl_servers c ! j = a" by (auto simp: in_set_conv_nth)
  with idx(2) a show ?thesis by auto
qed

section \<open>Routers\<close>

text \<open>
  The contract of \<open>Router\<close>: a valid index into a non-empty list, and at most a reordering of
  the slice it was given.
\<close>

locale router =
  fixes pick :: router
  assumes pick_range: "servers \<noteq> [] \<Longrightarrow>
      0 \<le> fst (pick key servers) \<and> fst (pick key servers) < int (length servers)"
    and pick_permutes: "mset (snd (pick key servers)) = mset servers"
begin

definition chosen :: "bytes \<Rightarrow> bytes list \<Rightarrow> bytes" where
  "chosen key servers = snd (pick key servers) ! nat (fst (pick key servers))"

lemma pick_length: "length (snd (pick key servers)) = length servers"
  using pick_permutes mset_eq_length by blast

lemma chosen_member: "servers \<noteq> [] \<Longrightarrow> chosen key servers \<in> set servers"
proof -
  assume ne: "servers \<noteq> []"
  have "chosen key servers \<in> set (snd (pick key servers))"
    using pick_range [OF ne, of key] by (simp add: chosen_def pick_length nat_less_iff)
  also have "set (snd (pick key servers)) = set servers"
    using pick_permutes mset_eq_setD by blast
  finally show ?thesis .
qed

lemma lookup_custom:
  assumes ok: "clientOk c" and r: "cfg_router (cl_config c) = pick"
    and copy: "cfg_copyServersForRouter (cl_config c)"
  shows "\<exists>i < length (cl_servers c). serverOf c key = Inr i \<and>
      cl_servers c ! i = chosen key (cl_servers c)"
proof -
  let ?ss = "cl_servers c"
  obtain n slice where p: "pick key ?ss = (n, slice)" by fastforce
  have ss: "cfg_servers (cl_config c) = ?ss" "?ss \<noteq> []" using ok by (auto simp: clientOk_def)
  obtain idx where idx: "cl_serverIndexes c = Some idx" "\<forall>j < length ?ss. idx (?ss ! j) = Some j"
    using ok copy unfolding clientOk_def by (auto split: option.splits)
  obtain i where i: "i < length ?ss" "?ss ! i = chosen key ?ss"
    using chosen_member [OF ss(2), of key] by (auto simp: in_set_conv_nth)
  then have "idx (slice ! nat n) = Some i" using idx p unfolding chosen_def by (metis fst_conv snd_conv)
  moreover have "0 \<le> n" "n < int (length slice)"
    using pick_range [OF ss(2), of key] pick_length [of key ?ss] p by simp_all
  ultimately have "serverOf c key = Inr i"
    using copy r ss p idx by (simp add: serverOf_def)
  with i show ?thesis by blast
qed

lemma lookup_plain:
  assumes ok: "clientOk c" and r: "cfg_router (cl_config c) = pick"
    and copy: "\<not> cfg_copyServersForRouter (cl_config c)" and id: "snd (pick key (cl_servers c)) = cl_servers c"
  shows "\<exists>i < length (cl_servers c). serverOf c key = Inr i \<and>
      cl_servers c ! i = chosen key (cl_servers c)"
proof -
  let ?ss = "cl_servers c"
  have ss: "cfg_servers (cl_config c) = ?ss" "?ss \<noteq> []" using ok by (auto simp: clientOk_def)
  have n: "0 \<le> fst (pick key ?ss)" "fst (pick key ?ss) < int (length ?ss)"
    using pick_range [OF ss(2), of key] by simp_all
  then have "serverOf c key = Inr (nat (fst (pick key ?ss)))"
    using copy r ss by (simp add: serverOf_def)
  with n id show ?thesis by (auto simp: chosen_def nat_less_iff)
qed

end

section \<open>The rendezvous router\<close>

text \<open>The loop keeps the first position of the highest score so far.\<close>

lemma pickLoop_max:
  assumes "i < length scores" and "b = scores ! i"
    and "\<forall>j < length scores. scores ! j \<le> scores ! i"
    and "\<forall>j < i. scores ! j < scores ! i"
  shows "\<exists>n. pickLoop key (length scores) servers (i, b) = (n, (scores @ map (rendezvous_score key) servers) ! n) \<and>
     n < length scores + length servers \<and>
     (\<forall>j < length scores + length servers. (scores @ map (rendezvous_score key) servers) ! j \<le>
        (scores @ map (rendezvous_score key) servers) ! n) \<and>
     (\<forall>j < n. (scores @ map (rendezvous_score key) servers) ! j <
        (scores @ map (rendezvous_score key) servers) ! n)"
  using assms
proof (induction servers arbitrary: scores i b)
  case Nil
  then show ?case by (intro exI [of _ i]) simp
next
  case (Cons s servers)
  let ?sum = "rendezvous_score key s"
  let ?k = "if ?sum > b then length scores else i"
  have ne: "length scores \<noteq> 0" using Cons.prems(1) by linarith
  have step: "pickLoop key (length scores) (s # servers) (i, b) =
      pickLoop key (length (scores @ [?sum])) servers (?k, (scores @ [?sum]) ! ?k)"
    using Cons.prems ne by (simp add: Let_def nth_append)
  have "\<forall>j < length (scores @ [?sum]). (scores @ [?sum]) ! j \<le> (scores @ [?sum]) ! ?k"
    using Cons.prems by (auto simp: nth_append less_Suc_eq intro: order.trans less_imp_le)
  moreover have "\<forall>j < ?k. (scores @ [?sum]) ! j < (scores @ [?sum]) ! ?k"
    using Cons.prems by (auto simp: nth_append intro: order.strict_trans1)
  moreover have "?k < length (scores @ [?sum])" using Cons.prems by simp
  ultimately show ?case
    using Cons.IH [of ?k "scores @ [?sum]" "(scores @ [?sum]) ! ?k"] unfolding step by simp
qed

lemma rendezvous_max:
  assumes "servers \<noteq> []"
  obtains n where "rendezvous_pick key servers = (int n, servers)" and "n < length servers"
    and "\<And>j. j < length servers \<Longrightarrow>
       rendezvous_score key (servers ! j) \<le> rendezvous_score key (servers ! n)"
    and "\<And>j. j < n \<Longrightarrow> rendezvous_score key (servers ! j) < rendezvous_score key (servers ! n)"
proof -
  from assms obtain s ss where s: "servers = s # ss" by (cases servers) auto
  let ?f = "rendezvous_score key"
  have all: "[?f s] @ map ?f ss = map ?f servers" and len: "length [?f s] + length ss = length servers"
    using s by simp_all
  obtain n where n: "pickLoop key (length [?f s]) ss (0, ?f s) = (n, (map ?f servers) ! n)"
    "n < length servers" "\<forall>j < length servers. map ?f servers ! j \<le> map ?f servers ! n"
    "\<forall>j < n. map ?f servers ! j < map ?f servers ! n"
    using pickLoop_max [of 0 "[?f s]" "?f s" key ss] unfolding all len by auto
  have "rendezvous_pick key servers = (int n, servers)"
    using n(1) s by (simp add: rendezvous_pick_def Let_def)
  moreover have "?f (servers ! j) \<le> ?f (servers ! n)" if "j < length servers" for j
    using n(2,3) that by auto
  moreover have "?f (servers ! j) < ?f (servers ! n)" if "j < n" for j
    using n(2,4) that by auto
  ultimately show thesis using n(2) that by blast
qed

interpretation rendezvous: router rendezvous_pick
proof
  fix key :: bytes and servers :: "bytes list"
  show "servers \<noteq> [] \<Longrightarrow> 0 \<le> fst (rendezvous_pick key servers) \<and>
      fst (rendezvous_pick key servers) < int (length servers)"
    using rendezvous_max [of servers key] by (metis fst_conv of_nat_0_le_iff of_nat_less_iff)
  show "mset (snd (rendezvous_pick key servers)) = mset servers"
    by (simp add: rendezvous_pick_def)
qed

definition rendezvous_address :: "bytes \<Rightarrow> bytes list \<Rightarrow> bytes" where
  "rendezvous_address key servers = servers ! nat (fst (rendezvous_pick key servers))"

lemma rendezvous_chosen [simp]: "rendezvous.chosen key servers = rendezvous_address key servers"
  by (simp add: rendezvous.chosen_def rendezvous_address_def rendezvous_pick_def)

lemma rendezvous_address_max:
  assumes "s \<in> set servers"
  shows "rendezvous_address key servers \<in> set servers \<and>
     rendezvous_score key s \<le> rendezvous_score key (rendezvous_address key servers)"
proof -
  have ne: "servers \<noteq> []" using assms by auto
  obtain j where j: "j < length servers" "servers ! j = s" using assms by (auto simp: in_set_conv_nth)
  show ?thesis
  proof (rule rendezvous_max [OF ne, of key])
    fix n
    assume n: "rendezvous_pick key servers = (int n, servers)" "n < length servers"
      and mx: "\<And>j. j < length servers \<Longrightarrow>
         rendezvous_score key (servers ! j) \<le> rendezvous_score key (servers ! n)"
    have a: "rendezvous_address key servers = servers ! n" by (simp add: rendezvous_address_def n(1))
    show ?thesis unfolding a using mx [OF j(1)] j(2) n(2) by simp
  qed
qed

section \<open>Properties\<close>

text \<open>
  C31: whatever options are given in whatever order, a client that \<open>New\<close> returns has a
  usable configuration: at least one server address, none empty and none twice, a
  non-empty network, non-negative timeouts and value limit, at least one connection per
  server, and a positive refresh-ahead window when there is one. A custom router always
  comes with the private copy of the addresses and the index that maps every address back
  to its pool.
\<close>

theorem new_client_valid:
  assumes "New dialer jsonCodec server options = Inr c"
  shows "cl_servers c \<noteq> [] \<and> [] \<notin> set (cl_servers c) \<and> distinct (cl_servers c) \<and>
    cfg_network (cl_config c) \<noteq> [] \<and> 0 \<le> cfg_dialTimeout (cl_config c) \<and>
    0 \<le> cfg_ioTimeout (cl_config c) \<and> 0 \<le> cfg_idleTimeout (cl_config c) \<and>
    1 \<le> cfg_maxConns (cl_config c) \<and> 0 \<le> cfg_maxItemSize (cl_config c) \<and>
    (case cfg_defaultRefreshAhead (cl_config c) of None \<Rightarrow> True | Some d \<Rightarrow> 0 < d) \<and>
    (case cl_serverIndexes c of
       None \<Rightarrow> cfg_router (cl_config c) = rendezvous_pick
     | Some idx \<Rightarrow> list_all (\<lambda>j. idx (cl_servers c ! j) = Some j) [0 ..< length (cl_servers c)])"
  using New_clientOk [OF assms]
  by (auto simp: clientOk_def optionsOk_def list_all_iff split: option.splits)

definition rawCodec :: "bytes codec" where
  "rawCodec = \<lparr>cd_Marshal = Inr, cd_Unmarshal = Inr\<rparr>"

definition reverseRouter :: router where
  "reverseRouter key servers = (0, rev servers)"

definition demoConfig :: "(unit, bytes) config" where
  "demoConfig = (defaultConfig () rawCodec ''a:1'')\<lparr>cfg_servers := [''a:1'', ''b:2''],
     cfg_router := reverseRouter, cfg_copyServersForRouter := True\<rparr>"

definition demoClient :: "(unit, bytes) Client" where
  "demoClient = \<lparr>cl_config = demoConfig, cl_servers = [''a:1'', ''b:2''],
     cl_serverIndexes = Some (Map.empty(''a:1'' \<mapsto> 0, ''b:2'' \<mapsto> 1))\<rparr>"

lemma demoClient_New:
  "New () rawCodec ''a:1'' [Some (WithServers [''a:1'', ''b:2'']), Some (WithRouter (Some reverseRouter))] =
     Inr demoClient"
  by (simp add: New_def demoClient_def demoConfig_def defaultConfig_def)

theorem new_client_valid_witness:
  "New () rawCodec ''a:1'' [Some (WithServers [''a:1'', ''b:2'']), Some (WithRouter (Some reverseRouter))] =
     Inr demoClient \<and> distinct (cl_servers demoClient) \<and> 1 \<le> cfg_maxConns (cl_config demoClient)"
  using new_client_valid [OF demoClient_New] demoClient_New by blast

text \<open>
  C29: routing of a client built by \<open>New\<close> never fails when its router keeps the documented
  contract (a valid index, the slice at most reordered): every key is routed to an existing
  pool, and that pool's address is the one the router meant, the address at the index it
  returned in the slice as it left it, also when it reordered the slice.
\<close>

theorem lookup_total:
  assumes "New dialer jsonCodec server options = Inr c" and "router (cfg_router (cl_config c))"
  shows "\<exists>i < length (cl_servers c). serverOf c key = Inr i \<and>
     cl_servers c ! i = (let (n, slice) = cfg_router (cl_config c) key (cl_servers c) in slice ! nat n)"
proof -
  let ?pick = "cfg_router (cl_config c)"
  have ok: "clientOk c" by (rule New_clientOk [OF assms(1)])
  have ch: "router.chosen ?pick key (cl_servers c) =
      (let (n, slice) = ?pick key (cl_servers c) in slice ! nat n)"
    by (simp add: router.chosen_def [OF assms(2)] split_def Let_def)
  show ?thesis
  proof (cases "cfg_copyServersForRouter (cl_config c)")
    case True
    then show ?thesis unfolding ch [symmetric] by (rule router.lookup_custom [OF assms(2) ok refl])
  next
    case False
    then have "?pick = rendezvous_pick" using ok by (simp add: clientOk_def optionsOk_def)
    then have "snd (?pick key (cl_servers c)) = cl_servers c" by (simp add: rendezvous_pick_def)
    then show ?thesis unfolding ch [symmetric] by (rule router.lookup_plain [OF assms(2) ok refl False])
  qed
qed

lemma reverseRouter_router: "router reverseRouter"
  by unfold_locales (simp_all add: reverseRouter_def)

theorem lookup_total_witness:
  "\<exists>i < 2. serverOf demoClient ''k'' = Inr i \<and> cl_servers demoClient ! i = ''b:2''"
proof -
  have r: "cfg_router (cl_config demoClient) = reverseRouter"
    and s: "cl_servers demoClient = [''a:1'', ''b:2'']"
    by (simp_all add: demoClient_def demoConfig_def)
  have m: "(let (n, slice) = reverseRouter ''k'' [''a:1'', ''b:2''] in slice ! nat n) = ''b:2''"
    by (simp add: reverseRouter_def)
  have l: "length [''a:1'', ''b:2''] = 2" by simp
  show ?thesis
    by (rule lookup_total [OF demoClient_New, of "''k''", unfolded r, OF reverseRouter_router,
        unfolded s m l, folded s])
qed


definition demoServers :: "bytes list" where
  "demoServers = [''a:1'', ''b:2'', ''c:3'']"

lemma demo_scores:
  "rendezvous_score ''k'' ''a:1'' = 13082771810402764204" "rendezvous_score ''k'' ''b:2'' = 11256155341963880776"
  "rendezvous_score ''k'' ''c:3'' = 11907103609090227900"
  by code_simp+


end
