(* ===== verification/Execute.thy ===== *)
theory Execute
  imports Routing
begin

text \<open>
  Running one command: \<open>executeMeta\<close>, \<open>absorb\<close> and \<open>reportError\<close> of \<open>client.go\<close>
  and the protocol layer \<open>MetaClient\<close> of \<open>meta.go\<close>. The network, the clock and the caller's
  contexts are an environment the code runs in; the client's own effects are explicit state.
\<close>

section \<open>Environment and world\<close>

text \<open>
  \<open>env_exchange ctx i payload stop\<close> is \<open>serverPool.exchange\<close> on pool \<open>i\<close>: the responses,
  the number of payload bytes that reached the connection and the error. \<open>'n\<close> is the state
  of the world outside (servers, connections, clocks, contexts) that the calls observe and
  change.
\<close>

datatype ctx = RootCtx | Ctx nat

type_synonym stop_rule = "RawResponse \<Rightarrow> bool"
type_synonym exchanged = "RawResponse list \<times> nat \<times> goerr option"
type_synonym 'n exchange = "ctx \<Rightarrow> nat \<Rightarrow> bytes \<Rightarrow> stop_rule \<Rightarrow> 'n \<Rightarrow> exchanged \<times> 'n"

record 'n env =
  env_exchange :: "'n exchange"
  env_ctx_err :: "ctx \<Rightarrow> 'n \<Rightarrow> goerr option"
  env_now :: "'n \<Rightarrow> int"

text \<open>
  The client's own effects: the errors handed to the \<open>OnError\<close> hook, in order, and the
  goroutines it started, which run later.
\<close>

datatype task = ReturnStaleWin bytes MetaDeleteOptions

record 'n world =
  w_net :: 'n
  w_reports :: "goerr list"
  w_tasks :: "task list"

definition exchange_w ::
    "'n env \<Rightarrow> ctx \<Rightarrow> nat \<Rightarrow> bytes \<Rightarrow> stop_rule \<Rightarrow> 'n world \<Rightarrow> exchanged \<times> 'n world" where
  "exchange_w env ctx i payload stop w =
     (let (out, net) = env_exchange env ctx i payload stop (w_net w) in (out, w\<lparr>w_net := net\<rparr>))"

abbreviation now_w :: "'n env \<Rightarrow> 'n world \<Rightarrow> int" where
  "now_w env w \<equiv> env_now env (w_net w)"

text \<open>Sequencing in the client's world: a failed step ends the call with its error.\<close>

fun after :: "('e + 'a) \<times> 'w \<Rightarrow> ('a \<Rightarrow> 'w \<Rightarrow> ('e + 'b) \<times> 'w) \<Rightarrow> ('e + 'b) \<times> 'w" where
  "after (Inl e, w) f = (Inl e, w)"
| "after (Inr x, w) f = f x w"

lemma after_Inr [result_simps]:
  "after out f = (Inr y, w') \<longleftrightarrow> (\<exists>x w1. out = (Inr x, w1) \<and> f x w1 = (Inr y, w'))"
  by (cases out; cases "fst out") auto

section \<open>Errors that never reach a caller\<close>

definition reportError :: "('d, 'v) Client \<Rightarrow> goerr option \<Rightarrow> 'n world \<Rightarrow> 'n world" where
  "reportError c err w =
     (case err of None \<Rightarrow> w
      | Some e \<Rightarrow> if cfg_onError (cl_config c) then w\<lparr>w_reports := w_reports w @ [e]\<rparr> else w)"

definition absorb ::
    "'n env \<Rightarrow> ('d, 'v) Client \<Rightarrow> ctx \<Rightarrow> goerr option \<Rightarrow> 'n world \<Rightarrow> bool \<times> 'n world" where
  "absorb env c ctx err w =
     (case err of None \<Rightarrow> (False, w)
      | Some e \<Rightarrow>
          if \<not> cfg_degrade (cl_config c) then (False, w)
          else if as_ambiguous e then (False, w)
          else if as_usage e then (False, w)
          else if (case env_ctx_err env ctx (w_net w) of None \<Rightarrow> False | Some ce \<Rightarrow> errors_is e ce)
            then (False, w)
          else (True, reportError c (Some e) w))"

section \<open>executeMeta\<close>

text \<open>
  \<open>responses[0]\<close> of an empty slice panics; the transport never returns one without an
  error, and \<open>indexPanic\<close> marks the case.
\<close>

abbreviation indexPanic :: goerr where
  "indexPanic \<equiv> EnvError ''index out of range''"

definition tooLarge :: "('d, 'v) Client \<Rightarrow> MetaCommand \<Rightarrow> bool" where
  "tooLarge c command \<longleftrightarrow>
     mc_HasValue command \<and> cfg_maxItemSize (cl_config c) > 0 \<and>
     int (length (mc_Value command)) > cfg_maxItemSize (cl_config c)"

text \<open>The checks before the exchange: the framed command and its pool, or a usage error.\<close>

definition admit :: "('d, 'v) Client \<Rightarrow> MetaCommand \<Rightarrow> (bytes \<times> nat) result" where
  "admit c command =
     (if List.member (mc_Flags command) ''q'' then
        Inl (UsageError (errorf ''memcache: quiet commands require Batch or an explicit mn barrier'' []))
      else if tooLarge c command then
        Inl (UsageError (errorf ''memcache: value exceeds configured maximum of %d bytes''
          [FInt (cfg_maxItemSize (cl_config c))]))
      else (case marshal command of
          Inl e \<Rightarrow> Inl (UsageError e)
        | Inr data \<Rightarrow>
            (case serverOf c (mc_Key command) of
               Inl e \<Rightarrow> Inl (UsageError e)
             | Inr i \<Rightarrow> Inr (data, i))))"

definition settle :: "MetaCommand \<Rightarrow> bytes \<Rightarrow> exchanged \<Rightarrow> RawResponse result" where
  "settle command data out =
     (case out of (responses, written, err) \<Rightarrow>
        (case err of
           Some e \<Rightarrow>
             if as_server e then Inl e
             else if written = length data \<and> commandHasSideEffect command
               then Inl (AmbiguousWriteError (mc_Command command) (mc_Key command) e)
             else Inl e
         | None \<Rightarrow>
             (case responses of
                [] \<Rightarrow> Inl indexPanic
              | r # _ \<Rightarrow> (case raw_parseErr r of Some e \<Rightarrow> Inl e | None \<Rightarrow> Inr r))))"

definition executeMeta ::
    "'n env \<Rightarrow> ('d, 'v) Client \<Rightarrow> ctx \<Rightarrow> MetaCommand \<Rightarrow> 'n world \<Rightarrow> RawResponse result \<times> 'n world" where
  "executeMeta env c ctx command w =
     (case admit c command of
        Inl e \<Rightarrow> (Inl e, w)
      | Inr (data, i) \<Rightarrow>
          (let (out, w') = exchange_w env ctx i data (\<lambda>_. True) w in (settle command data out, w')))"

section \<open>The protocol layer\<close>

text \<open>A result record returned with an error: \<open>return MutationResult{...}, err\<close>.\<close>

type_synonym ('a, 'n) returned = "('a \<times> goerr option) \<times> 'n world"

definition zero_MutationResult :: MutationResult where
  "zero_MutationResult = \<lparr>mr_Key = [], mr_Status = MutationUnknown, mr_CAS = None, mr_Size = None,
     mr_ReturnedKey = None, mr_Opaque = []\<rparr>"

definition mutationResult :: "bytes \<Rightarrow> MutationStatus \<Rightarrow> RawResponse \<Rightarrow> MutationResult" where
  "mutationResult key status wire = \<lparr>mr_Key = key, mr_Status = status,
     mr_CAS = md_CAS (raw_Metadata wire), mr_Size = md_Size (raw_Metadata wire),
     mr_ReturnedKey = raw_Key wire, mr_Opaque = raw_Opaque wire\<rparr>"

text \<open>Build, execute, interpret; an error of the first two comes with the zero result.\<close>

definition runMeta ::
    "'n env \<Rightarrow> ('d, 'v) Client \<Rightarrow> ctx \<Rightarrow> MetaCommand result \<Rightarrow> 'a \<Rightarrow> (RawResponse \<Rightarrow> 'a \<times> goerr option) \<Rightarrow>
       'n world \<Rightarrow> ('a, 'n) returned" where
  "runMeta env c ctx built zero interpret w =
     (case built of
        Inl e \<Rightarrow> ((zero, Some e), w)
      | Inr command \<Rightarrow>
          (case executeMeta env c ctx command w of
             (Inl e, w') \<Rightarrow> ((zero, Some e), w')
           | (Inr wire, w') \<Rightarrow> (interpret wire, w')))"

definition Meta_Get ::
    "'n env \<Rightarrow> ('d, 'v) Client \<Rightarrow> ctx \<Rightarrow> bytes \<Rightarrow> MetaGetOptions \<Rightarrow> 'n world \<Rightarrow> (GetResult, 'n) returned" where
  "Meta_Get env c ctx key o1 =
     runMeta env c ctx (buildGet key o1) zero_GetResult (semanticGet key o1)"

definition Meta_Set ::
    "'n env \<Rightarrow> ('d, 'v) Client \<Rightarrow> ctx \<Rightarrow> bytes \<Rightarrow> bytes \<Rightarrow> MetaSetOptions \<Rightarrow> 'n world \<Rightarrow>
       (MutationResult, 'n) returned" where
  "Meta_Set env c ctx key val o1 =
     runMeta env c ctx (buildSet key val o1) zero_MutationResult
       (\<lambda>wire. let (status, err) = storeStatus (raw_Code wire) (ms_Mode o1)
               in (mutationResult key status wire, err))"

definition Meta_Delete ::
    "'n env \<Rightarrow> ('d, 'v) Client \<Rightarrow> ctx \<Rightarrow> bytes \<Rightarrow> MetaDeleteOptions \<Rightarrow> 'n world \<Rightarrow>
       (MutationResult, 'n) returned" where
  "Meta_Delete env c ctx key o1 =
     runMeta env c ctx (buildDelete key o1) zero_MutationResult
       (\<lambda>wire. let (status, err) = deleteStatus (raw_Code wire)
               in (mutationResult key status wire, err))"

definition Meta_Arithmetic ::
    "'n env \<Rightarrow> ('d, 'v) Client \<Rightarrow> ctx \<Rightarrow> bytes \<Rightarrow> MetaArithmeticOptions \<Rightarrow> 'n world \<Rightarrow>
       (ArithmeticResult, 'n) returned" where
  "Meta_Arithmetic env c ctx key o1 =
     runMeta env c ctx (buildArithmetic key o1) zero_ArithmeticResult (semanticArithmetic key o1)"

definition Meta_Debug ::
    "'n env \<Rightarrow> ('d, 'v) Client \<Rightarrow> ctx \<Rightarrow> bytes \<Rightarrow> 'n world \<Rightarrow> (bytes \<times> bytes) list result \<times> 'n world" where
  "Meta_Debug env c ctx key w =
     after (executeMeta env c ctx \<lparr>mc_Command = ''me'', mc_Key = key, mc_Flags = [], mc_Value = [],
              mc_HasValue = False\<rparr> w)
       (\<lambda>wire w'.
          (if raw_Code wire = ResponseMiss then Inl ErrCacheMiss
           else if raw_Code wire \<noteq> ResponseDebug then Inl (ProtocolError ''unexpected debug response'' [])
           else Inr (raw_Debug wire), w'))"

abbreviation noopCommand :: bytes where
  "noopCommand \<equiv> ''mn'' @ CRLF"

abbreviation isNoop :: stop_rule where
  "isNoop \<equiv> (\<lambda>r. raw_Code r = ResponseNoop)"

text \<open>\<open>MetaClient.Noop\<close> over the pools from \<open>i\<close> on.\<close>

fun noopLoop ::
    "'n env \<Rightarrow> ctx \<Rightarrow> nat list \<Rightarrow> 'n world \<Rightarrow> goerr option \<times> 'n world" where
  "noopLoop env ctx [] w = (None, w)"
| "noopLoop env ctx (i # is) w =
     (case exchange_w env ctx i noopCommand isNoop w of
        ((responses, written, Some e), w') \<Rightarrow> (Some e, w')
      | ((responses, written, None), w') \<Rightarrow>
          if length responses \<noteq> 1 \<or> raw_Code (hd responses) \<noteq> ResponseNoop
          then (Some (ProtocolError ''unexpected no-op response'' []), w')
          else noopLoop env ctx is w')"

definition Meta_Noop ::
    "'n env \<Rightarrow> ('d, 'v) Client \<Rightarrow> ctx \<Rightarrow> 'n world \<Rightarrow> goerr option \<times> 'n world" where
  "Meta_Noop env c ctx w = noopLoop env ctx [0 ..< length (cl_servers c)] w"

end
