(* ===== verification/Execution.thy ===== *)
theory Execution
  imports Execute
begin

text \<open>
  What running one command guarantees: usage errors come before any network activity, and
  a failure is called ambiguous exactly when the whole of a mutating command reached the
  connection without a definite answer. The contract of the transport that this rests on
  is the locale \<open>exchanger\<close>.
\<close>

section \<open>The transport contract\<close>

text \<open>A response as the wire reader delivers it: an unreadable flag is a plain protocol error.\<close>

definition plainError :: "goerr \<Rightarrow> bool" where
  "plainError e \<longleftrightarrow> \<not> as_ambiguous e \<and> \<not> as_usage e"

lemma plainErrorD: "plainError e \<Longrightarrow> \<not> as_ambiguous e \<and> \<not> is_usage e"
  using err_chain_head [of e] by (auto simp: plainError_def as_usage_def list_ex_iff)

definition deliverable :: "RawResponse \<Rightarrow> bool" where
  "deliverable r \<longleftrightarrow> (case raw_parseErr r of None \<Rightarrow> True | Some e \<Rightarrow> plainError e)"

locale exchanger =
  fixes exchange :: "'n exchange"
  assumes completes: "exchange ctx i payload stop n = ((rs, written, None), n') \<Longrightarrow>
      rs \<noteq> [] \<and> stop (last rs) \<and> list_all (\<lambda>r. \<not> stop r) (butlast rs) \<and> written = length payload"
    and written_bound: "exchange ctx i payload stop n = ((rs, written, err), n') \<Longrightarrow>
      written \<le> length payload"
    and fails_plainly: "exchange ctx i payload stop n = ((rs, written, Some e), n') \<Longrightarrow> plainError e"
    and delivers: "exchange ctx i payload stop n = ((rs, written, err), n') \<Longrightarrow> list_all deliverable rs"
begin

lemma single_response:
  assumes "exchange ctx i payload (\<lambda>_. True) n = ((rs, written, None), n')"
  shows "\<exists>r. rs = [r]"
proof -
  have "rs \<noteq> []" and "butlast rs = []"
    using completes [OF assms] by (auto simp: list_all_iff)
  then show ?thesis by (metis append_butlast_last_id append_Nil)
qed

lemma settle_exchange:
  assumes "exchange ctx i data (\<lambda>_. True) n = ((rs, written, err), n')"
  shows "case settle command data (rs, written, err) of
      Inr r \<Rightarrow> err = None \<and> rs = [r] \<and> raw_parseErr r = None
    | Inl e \<Rightarrow>
        \<not> is_usage e \<and>
        (case err of
           None \<Rightarrow> \<not> as_ambiguous e
         | Some cause \<Rightarrow>
             (as_ambiguous e \<longleftrightarrow>
                written = length data \<and> commandHasSideEffect command \<and> \<not> as_server cause) \<and>
             e = (if as_ambiguous e
                  then AmbiguousWriteError (mc_Command command) (mc_Key command) cause else cause))"
proof (cases err)
  case None
  with single_response assms obtain r where r: "rs = [r]" by blast
  with delivers [OF assms] have "deliverable r" by simp
  then show ?thesis
    by (cases "raw_parseErr r") (simp_all add: settle_def None r deliverable_def plainErrorD)
next
  case (Some cause)
  with fails_plainly assms have "plainError cause" by blast
  then have "\<not> as_ambiguous cause" and "\<not> is_usage cause" using plainErrorD by blast+
  then show ?thesis by (simp add: settle_def Some)
qed

end

section \<open>Admission\<close>

lemma admit_Inr:
  "admit c command = Inr (data, i) \<longleftrightarrow>
     \<not> List.member (mc_Flags command) ''q'' \<and> \<not> tooLarge c command \<and>
     marshal command = Inr data \<and> serverOf c (mc_Key command) = Inr i"
  by (simp add: admit_def split: sum.split)

lemma admit_Inl:
  "admit c command = Inl e \<Longrightarrow> is_usage e \<and>
     (List.member (mc_Flags command) ''q'' \<or> tooLarge c command \<or> isl (marshal command) \<or>
      isl (serverOf c (mc_Key command)))"
  by (auto simp: admit_def split: if_splits sum.splits)

lemma executeMeta_reports [simp]:
  "w_reports (snd (executeMeta env c ctx command w)) = w_reports w"
  "w_tasks (snd (executeMeta env c ctx command w)) = w_tasks w"
  by (simp_all add: executeMeta_def exchange_w_def split_def Let_def split: sum.split)

section \<open>Properties\<close>

text \<open>
  C28: a client-side mistake costs no network activity. A command with a quiet flag, an
  oversized value, an invalid key or flag, or no server ends with a usage error and leaves
  the world as it was; any other command is framed once and handed to exactly one exchange,
  on the pool its key is routed to, and nothing else of the world is touched.
\<close>

theorem usage_errors_before_network:
  "case executeMeta env c ctx command w of (res, w') \<Rightarrow>
     if List.member (mc_Flags command) ''q'' \<or> tooLarge c command \<or> isl (marshal command) \<or>
        isl (serverOf c (mc_Key command))
     then isl res \<and> is_usage (projl res) \<and> w' = w
     else w' = w\<lparr>w_net := snd (env_exchange env ctx (projr (serverOf c (mc_Key command)))
                   (projr (marshal command)) (\<lambda>_. True) (w_net w))\<rparr>"
proof (cases "admit c command")
  case (Inl e)
  then have "executeMeta env c ctx command w = (Inl e, w)" by (simp add: executeMeta_def)
  with admit_Inl [OF Inl] show ?thesis by simp
next
  case (Inr p)
  obtain data i where p: "p = (data, i)" by fastforce
  then have a: "\<not> List.member (mc_Flags command) ''q''" "\<not> tooLarge c command"
    "marshal command = Inr data" "serverOf c (mc_Key command) = Inr i"
    using Inr by (simp_all add: admit_Inr)
  have "snd (executeMeta env c ctx command w) =
      w\<lparr>w_net := snd (env_exchange env ctx i data (\<lambda>_. True) (w_net w))\<rparr>"
    using Inr p by (simp add: executeMeta_def exchange_w_def split_def Let_def)
  with a show ?thesis by (simp add: split_def)
qed

text \<open>
  C14: an error is ambiguous exactly when the exchange failed after all bytes of a mutating
  command reached the connection and the failure is not an error line of the server, which
  would be a definite answer; the ambiguous error names the command and the key and carries
  the cause. So a plain read never fails ambiguously, a mutation that was not fully written
  never does either, and a success is the single response of the exchange with readable flags.
\<close>

theorem ambiguity_exact:
  assumes "exchanger (env_exchange env)"
    and "marshal command = Inr data" and "serverOf c (mc_Key command) = Inr i"
    and "\<not> List.member (mc_Flags command) ''q''" and "\<not> tooLarge c command"
    and ex: "env_exchange env ctx i data (\<lambda>_. True) (w_net w) = ((rs, written, err), net')"
  shows "case fst (executeMeta env c ctx command w) of
      Inr r \<Rightarrow> err = None \<and> rs = [r] \<and> raw_parseErr r = None
    | Inl e \<Rightarrow>
        \<not> is_usage e \<and>
        (case err of
           None \<Rightarrow> \<not> as_ambiguous e
         | Some cause \<Rightarrow>
             (as_ambiguous e \<longleftrightarrow>
                written = length data \<and> commandHasSideEffect command \<and> \<not> as_server cause) \<and>
             e = (if as_ambiguous e
                  then AmbiguousWriteError (mc_Command command) (mc_Key command) cause else cause))"
proof -
  have "admit c command = Inr (data, i)" using assms by (simp add: admit_Inr)
  then have "fst (executeMeta env c ctx command w) = settle command data (rs, written, err)"
    by (simp add: executeMeta_def exchange_w_def ex)
  then show ?thesis using exchanger.settle_exchange [OF assms(1) ex] by simp
qed

definition stalled :: "nat exchange" where
  "stalled ctx i payload stop n = (([], length payload, Some CtxDeadlineExceeded), Suc n)"

definition demoEnv :: "nat env" where
  "demoEnv = \<lparr>env_exchange = stalled, env_ctx_err = (\<lambda>_ _. None), env_now = (\<lambda>_. 1000000000)\<rparr>"

definition demoWorld :: "nat world" where
  "demoWorld = \<lparr>w_net = 0, w_reports = [], w_tasks = []\<rparr>"

lemma stalled_exchanger: "exchanger stalled"
  by unfold_locales
    (simp_all add: stalled_def plainError_def as_ambiguous_def as_usage_def list_all_iff)

theorem ambiguity_exact_witness:
  "as_ambiguous (projl (fst (executeMeta demoEnv demoClient RootCtx demoStore demoWorld)))"
proof -
  let ?data = "''ms YSBi 2 F0 T60 b'' @ CRLF @ ''hi'' @ CRLF"
  have m: "marshal demoStore = Inr ?data" by code_simp
  have s: "serverOf demoClient (mc_Key demoStore) = Inr 1"
    by (simp add: serverOf_def demoClient_def demoConfig_def reverseRouter_def)
  have q: "\<not> List.member (mc_Flags demoStore) ''q''" and l: "\<not> tooLarge demoClient demoStore"
    and d: "commandHasSideEffect demoStore"
    by (simp_all add: demoStore_def tooLarge_def demoClient_def demoConfig_def defaultConfig_def
        commandHasSideEffect_def)
  have e: "env_exchange demoEnv RootCtx 1 ?data (\<lambda>_. True) (w_net demoWorld) =
      (([], length ?data, Some CtxDeadlineExceeded), 1)"
    by (simp add: demoEnv_def stalled_def demoWorld_def)
  have x: "exchanger (env_exchange demoEnv)" by (simp add: demoEnv_def stalled_exchanger)
  obtain r where r: "fst (executeMeta demoEnv demoClient RootCtx demoStore demoWorld) = r" by blast
  have "\<not> as_server CtxDeadlineExceeded" by (simp add: as_server_def)
  with ambiguity_exact [OF x m s q l e] d show ?thesis
    unfolding r by (cases r) auto
qed

end
