(* ===== verification/Batch.thy ===== *)
theory Batch
  imports Execution
begin

text \<open>
  The pipelines of \<open>batch.go\<close>: every operation is prepared before any byte is written,
  operations are grouped by backend, each group is one payload of quiet commands closed by
  a no-op barrier, and the responses are matched to the operations by opaque tokens that
  are the operations' positions in the batch.
\<close>

section \<open>Operations\<close>

datatype Operation =
    GetOperation bytes MetaGetOptions
  | SetOperation bytes bytes MetaSetOptions
  | DeleteOperation bytes MetaDeleteOptions
  | ArithmeticOperation bytes MetaArithmeticOptions

text \<open>
  What a caller can put in the slice: a nil interface, one of the four structs, a pointer
  to one (possibly nil), or another type that embeds one.
\<close>

datatype operand = NilOperand | Struct Operation | Pointer "Operation option" | OtherOperand

fun operationKey :: "Operation \<Rightarrow> bytes" where
  "operationKey (GetOperation key o1) = key"
| "operationKey (SetOperation key val o1) = key"
| "operationKey (DeleteOperation key o1) = key"
| "operationKey (ArithmeticOperation key o1) = key"

datatype operationKind = KindGet | KindSet | KindDelete | KindArithmetic

fun kindOf :: "Operation \<Rightarrow> operationKind" where
  "kindOf (GetOperation key o1) = KindGet"
| "kindOf (SetOperation key val o1) = KindSet"
| "kindOf (DeleteOperation key o1) = KindDelete"
| "kindOf (ArithmeticOperation key o1) = KindArithmetic"

text \<open>The kind \<open>prepare\<close> returns is \<open>kindOf\<close> the operation.\<close>

fun prepare :: "Operation \<Rightarrow> MetaCommand result" where
  "prepare (GetOperation key o1) = buildGet key o1"
| "prepare (SetOperation key val o1) = buildSet key val o1"
| "prepare (DeleteOperation key o1) = buildDelete key o1"
| "prepare (ArithmeticOperation key o1) = buildArithmetic key o1"

record OperationResult =
  or_Get :: "GetResult option"
  or_Mutation :: "MutationResult option"
  or_Arithmetic :: "ArithmeticResult option"
  or_Err :: "goerr option"
  or_Ambiguous :: bool

definition zero_OperationResult :: OperationResult where
  "zero_OperationResult = \<lparr>or_Get = None, or_Mutation = None, or_Arithmetic = None, or_Err = None,
     or_Ambiguous = False\<rparr>"

abbreviation failedOp :: "goerr \<Rightarrow> bool \<Rightarrow> OperationResult" where
  "failedOp e ambiguous \<equiv> zero_OperationResult\<lparr>or_Err := Some e, or_Ambiguous := ambiguous\<rparr>"

record preparedOperation =
  po_index :: nat
  po_op :: Operation
  po_command :: MetaCommand
  po_start :: nat
  po_end :: nat

abbreviation po_kind :: "preparedOperation \<Rightarrow> operationKind" where
  "po_kind item \<equiv> kindOf (po_op item)"

record batchGroup =
  bg_server :: nat
  bg_items :: "preparedOperation list"
  bg_payload :: bytes

record groupOutcome =
  go_group :: batchGroup
  go_responses :: "RawResponse list"
  go_written :: nat
  go_err :: "goerr option"

fun normalizeOperation :: "operand \<Rightarrow> Operation result" where
  "normalizeOperation (Struct op) = Inr op"
| "normalizeOperation (Pointer (Some op)) = Inr op"
| "normalizeOperation (Pointer None) = Inl (errorf ''nil %T'' [])"
| "normalizeOperation _ = Inl (errorf ''unsupported operation %T'' [])"

section \<open>Preparing\<close>

definition successResponseRequired :: "preparedOperation \<Rightarrow> bool" where
  "successResponseRequired item =
     (case po_op item of
        GetOperation key o1 \<Rightarrow> mg_VivifyTTL o1 \<noteq> None
      | ArithmeticOperation key o1 \<Rightarrow> True
      | SetOperation key val o1 \<Rightarrow> ms_ReturnCAS o1 \<or> ms_ReturnKey o1 \<or> ms_ReturnSize o1
      | DeleteOperation key o1 \<Rightarrow> mdo_ReturnKey o1)"

text \<open>\<open>strconv.Itoa(item.index)\<close> is \<open>format_nat\<close>: an index is never negative.\<close>

definition quietFlags :: "preparedOperation \<Rightarrow> bytes list" where
  "quietFlags item =
     filter (\<lambda>flag. flag = [] \<or> hd flag \<noteq> CHR ''O'') (mc_Flags (po_command item)) @
     [''O'' @ format_nat (po_index item)] @
     when_flag (po_kind item = KindGet \<or> \<not> successResponseRequired item) ''q''"

definition quietCommand :: "preparedOperation \<Rightarrow> MetaCommand" where
  "quietCommand item = (po_command item)\<lparr>mc_Flags := quietFlags item\<rparr>"

text \<open>
  The validation loop over the operations from position \<open>index\<close> on; \<open>groups\<close> is the map
  from a server's number to its items.
\<close>

fun prepareAll ::
    "('d, 'v) Client \<Rightarrow> nat \<Rightarrow> operand list \<Rightarrow> (nat \<Rightarrow> preparedOperation list) \<Rightarrow>
       (nat \<Rightarrow> preparedOperation list) result" where
  "prepareAll c index [] groups = Inr groups"
| "prepareAll c index (x # xs) groups =
     (if x = NilOperand then Inl (errorf ''memcache: batch operation %d is nil'' [FInt (int index)])
      else (case normalizeOperation x of
          Inl e \<Rightarrow> Inl (wrapf ''memcache: batch operation %d: %w'' [FInt (int index)] e)
        | Inr op \<Rightarrow>
            (case prepare op of
               Inl e \<Rightarrow> Inl (wrapf ''memcache: batch operation %d: %w'' [FInt (int index)] e)
             | Inr command \<Rightarrow>
                 if tooLarge c command then
                   Inl (errorf ''memcache: batch operation %d value exceeds configured maximum''
                     [FInt (int index)])
                 else if list_ex (\<lambda>flag. flag \<noteq> [] \<and> hd flag = CHR ''O'') (mc_Flags command) then
                   Inl (errorf ''memcache: batch operation %d: Opaque is reserved by Batch''
                     [FInt (int index)])
                 else (case serverOf c (operationKey op) of
                     Inl e \<Rightarrow> Inl e
                   | Inr i \<Rightarrow>
                       prepareAll c (Suc index) xs
                         (groups(i := groups i @ [\<lparr>po_index = index, po_op = op,
                            po_command = command, po_start = 0, po_end = 0\<rparr>]))))))"

text \<open>Laying out a group: the quiet commands one after another, each item's byte range recorded.\<close>

fun layout ::
    "preparedOperation list \<Rightarrow> bytes \<Rightarrow> (preparedOperation list \<times> bytes) result" where
  "layout [] payload = Inr ([], payload)"
| "layout (item # items) payload =
     (case marshal (quietCommand item) of
        Inl e \<Rightarrow> Inl (wrapf ''memcache: batch operation %d: %w'' [FInt (int (po_index item))] e)
      | Inr wire \<Rightarrow>
          and_then (layout items (payload @ wire)) (\<lambda>(rest, full).
            Inr (item\<lparr>po_start := length payload, po_end := length (payload @ wire)\<rparr> # rest, full)))"

fun layoutGroups ::
    "(nat \<Rightarrow> preparedOperation list) \<Rightarrow> nat list \<Rightarrow> batchGroup list result" where
  "layoutGroups groups [] = Inr []"
| "layoutGroups groups (i # is) =
     (if groups i = [] then layoutGroups groups is
      else and_then (layout (groups i) []) (\<lambda>(items, payload).
        and_then (layoutGroups groups is) (\<lambda>ordered.
          Inr (\<lparr>bg_server = i, bg_items = items, bg_payload = payload @ noopCommand\<rparr> # ordered))))"

definition plan :: "('d, 'v) Client \<Rightarrow> operand list \<Rightarrow> batchGroup list result" where
  "plan c operations =
     and_then (prepareAll c 0 operations (\<lambda>_. [])) (\<lambda>groups.
       layoutGroups groups [0 ..< length (cl_servers c)])"

section \<open>Resolving\<close>

text \<open>
  The scan over a group's responses: the response of each index, the indexes whose token
  was repeated, whether the barrier came, and the last framing problem.
\<close>

record scan =
  sc_byIndex :: "int \<rightharpoonup> RawResponse"
  sc_badIndex :: "int \<rightharpoonup> goerr"
  sc_barrier :: bool
  sc_parseFailure :: "goerr option"

definition scanResponse :: "int list \<Rightarrow> RawResponse \<Rightarrow> scan \<Rightarrow> scan" where
  "scanResponse expected r s =
     (if raw_Code r = ResponseNoop then s\<lparr>sc_barrier := True\<rparr>
      else if raw_Opaque r = [] then
        s\<lparr>sc_parseFailure := Some (ProtocolError ''pipeline response omitted opaque token'' [])\<rparr>
      else (case atoi (raw_Opaque r) of
          None \<Rightarrow> s\<lparr>sc_parseFailure := Some (ProtocolError ''pipeline response has invalid opaque token'' [])\<rparr>
        | Some index \<Rightarrow>
            if \<not> List.member expected index then
              s\<lparr>sc_parseFailure := Some (ProtocolError ''pipeline response has unexpected opaque token'' [])\<rparr>
            else if sc_byIndex s index \<noteq> None then
              s\<lparr>sc_byIndex := (sc_byIndex s)(index := None),
                sc_badIndex := (sc_badIndex s)(index \<mapsto>
                  ProtocolError ''pipeline response repeated opaque token'' [])\<rparr>
            else if sc_badIndex s index \<noteq> None then s
            else s\<lparr>sc_byIndex := (sc_byIndex s)(index \<mapsto> r)\<rparr>))"

definition scan0 :: scan where
  "scan0 = \<lparr>sc_byIndex = Map.empty, sc_badIndex = Map.empty, sc_barrier = False, sc_parseFailure = None\<rparr>"

definition scanAll :: "groupOutcome \<Rightarrow> scan" where
  "scanAll outcome =
     (let s = fold (scanResponse (map (int \<circ> po_index) (bg_items (go_group outcome))))
                (go_responses outcome) scan0
      in if go_err outcome = None \<and> \<not> sc_barrier s
         then s\<lparr>sc_parseFailure := Some (ProtocolError ''pipeline omitted no-op barrier'' [])\<rparr> else s)"

definition inferQuietResult :: "preparedOperation \<Rightarrow> OperationResult" where
  "inferQuietResult item =
     (case po_kind item of
        KindGet \<Rightarrow> zero_OperationResult\<lparr>or_Get := Some (zero_GetResult\<lparr>gr_Key := operationKey (po_op item),
          gr_Status := GetMiss, gr_ValueState := ValueMissing\<rparr>)\<rparr>
      | KindArithmetic \<Rightarrow> failedOp (ProtocolError ''arithmetic response was suppressed'' []) False
      | _ \<Rightarrow> zero_OperationResult\<lparr>or_Mutation := Some (zero_MutationResult\<lparr>mr_Key := operationKey (po_op item),
          mr_Status := MutationApplied\<rparr>)\<rparr>)"

definition parseBatchResponse :: "preparedOperation \<Rightarrow> RawResponse \<Rightarrow> OperationResult" where
  "parseBatchResponse item wire0 =
     (case raw_parseErr wire0 of
        Some e \<Rightarrow> failedOp e False
      | None \<Rightarrow>
          let wire = wire0\<lparr>raw_Opaque := []\<rparr> in
          (case po_op item of
             GetOperation key o1 \<Rightarrow>
               (let (r, err) = semanticGet key o1 wire
                in zero_OperationResult\<lparr>or_Get := Some r, or_Err := err\<rparr>)
           | SetOperation key val o1 \<Rightarrow>
               (let (status, err) = storeStatus (raw_Code wire) (ms_Mode o1)
                in zero_OperationResult\<lparr>or_Mutation := Some (mutationResult key status wire), or_Err := err\<rparr>)
           | DeleteOperation key o1 \<Rightarrow>
               (let (status, err) = deleteStatus (raw_Code wire)
                in zero_OperationResult\<lparr>or_Mutation := Some (mutationResult key status wire), or_Err := err\<rparr>)
           | ArithmeticOperation key o1 \<Rightarrow>
               (let (r, err) = semanticArithmetic key o1 wire
                in zero_OperationResult\<lparr>or_Arithmetic := Some r, or_Err := err\<rparr>)))"

definition itemMutates :: "preparedOperation \<Rightarrow> bool" where
  "itemMutates item \<longleftrightarrow> po_kind item \<noteq> KindGet \<or> commandHasSideEffect (po_command item)"

text \<open>An error of one item, ambiguous when its last byte was written and it mutates.\<close>

definition failItem :: "preparedOperation \<Rightarrow> nat \<Rightarrow> goerr \<Rightarrow> OperationResult" where
  "failItem item written e =
     (if itemMutates item \<and> written \<ge> po_end item
      then failedOp (AmbiguousWriteError (mc_Command (po_command item)) (operationKey (po_op item)) e) True
      else failedOp e False)"

definition resolveItem :: "groupOutcome \<Rightarrow> scan \<Rightarrow> preparedOperation \<Rightarrow> OperationResult" where
  "resolveItem outcome s item =
     (case sc_badIndex s (int (po_index item)) of
        Some e \<Rightarrow> failItem item (go_written outcome) e
      | None \<Rightarrow>
          (case sc_byIndex s (int (po_index item)) of
             Some r \<Rightarrow> parseBatchResponse item r
           | None \<Rightarrow>
               if sc_barrier s \<and> sc_parseFailure s = None then
                 (if \<not> successResponseRequired item then inferQuietResult item
                  else failItem item (go_written outcome)
                         (ProtocolError ''pipeline omitted required response'' []))
               else failItem item (go_written outcome)
                 (case go_err outcome of Some e \<Rightarrow> e
                  | None \<Rightarrow> (case sc_parseFailure s of Some e \<Rightarrow> e
                            | None \<Rightarrow> ProtocolError ''pipeline failed'' []))))"

definition resolveGroup :: "groupOutcome \<Rightarrow> OperationResult list \<Rightarrow> OperationResult list" where
  "resolveGroup outcome output =
     (let s = scanAll outcome in
      fold (\<lambda>item out. out[po_index item := resolveItem outcome s item]) (bg_items (go_group outcome)) output)"

section \<open>The batch\<close>

text \<open>
  The source runs one goroutine per group, on different pools, and resolves the outcomes in
  the order they arrive. The model runs the exchanges one after another; that the order
  the outcomes are resolved in does not matter is a theorem.
\<close>

fun runGroups ::
    "'n env \<Rightarrow> ctx \<Rightarrow> batchGroup list \<Rightarrow> 'n world \<Rightarrow> groupOutcome list \<times> 'n world" where
  "runGroups env ctx [] w = ([], w)"
| "runGroups env ctx (g # gs) w =
     (let ((responses, written, err), w1) = exchange_w env ctx (bg_server g) (bg_payload g) isNoop w;
          (outcomes, w2) = runGroups env ctx gs w1
      in (\<lparr>go_group = g, go_responses = responses, go_written = written, go_err = err\<rparr> # outcomes, w2))"

definition batch ::
    "'n env \<Rightarrow> ('d, 'v) Client \<Rightarrow> ctx \<Rightarrow> operand list \<Rightarrow> 'n world \<Rightarrow>
       OperationResult list result \<times> 'n world" where
  "batch env c ctx operations w =
     (let results = replicate (length operations) zero_OperationResult in
      if operations = [] then (Inr results, w)
      else (case plan c operations of
          Inl e \<Rightarrow> (Inl e, w)
        | Inr ordered \<Rightarrow>
            (let (outcomes, w') = runGroups env ctx ordered w
             in (Inr (fold resolveGroup outcomes results), w'))))"

end
