(* ===== verification/Batching.thy ===== *)
theory Batching
  imports Batch
begin

text \<open>
  What a batch guarantees: the plan of a batch puts every operation into exactly one group,
  in order, with its bytes delimited; the scan over a group's responses is the declarative
  matching by token; and every slot of the output is written exactly once, whatever order
  the groups finish in.
\<close>

section \<open>Writing slots\<close>

definition store_slots :: "(nat \<times> 'a) list \<Rightarrow> 'a list \<Rightarrow> 'a list" where
  "store_slots ps out = fold (\<lambda>(i, x) out. out[i := x]) ps out"

lemma store_slots_Nil [simp]: "store_slots [] out = out"
  by (simp add: store_slots_def)

lemma store_slots_Cons [simp]: "store_slots ((i, x) # ps) out = store_slots ps (out[i := x])"
  by (simp add: store_slots_def)

lemma store_slots_append: "store_slots (ps @ qs) out = store_slots qs (store_slots ps out)"
  by (simp add: store_slots_def)

lemma length_store_slots [simp]: "length (store_slots ps out) = length out"
  by (induction ps arbitrary: out) auto

lemma store_slots_other: "j \<notin> fst ` set ps \<Longrightarrow> store_slots ps out ! j = out ! j"
  by (induction ps arbitrary: out) auto

lemma store_slots_nth:
  "\<lbrakk>distinct (map fst ps); (j, x) \<in> set ps; j < length out\<rbrakk> \<Longrightarrow> store_slots ps out ! j = x"
proof (induction ps arbitrary: out)
  case (Cons p ps)
  obtain i y where p: "p = (i, y)" by fastforce
  show ?case
  proof (cases "(j, x) = p")
    case True
    with Cons.prems p have "j \<notin> fst ` set ps" by auto
    with True p Cons.prems show ?thesis by (simp add: store_slots_other)
  next
    case False
    with Cons.prems p Cons.IH [of "out[i := y]"] show ?thesis by auto
  qed
qed simp

lemma store_slots_perm:
  assumes "mset ps = mset qs" and "distinct (map fst ps)"
  shows "store_slots ps out = store_slots qs out"
proof (rule nth_equalityI)
  fix j assume "j < length (store_slots ps out)"
  then have j: "j < length out" by simp
  have s: "set ps = set qs" using assms(1) mset_eq_setD by blast
  have "mset (map fst ps) = mset (map fst qs)" using assms(1) by simp
  then have d: "distinct (map fst qs)" using assms(2) mset_eq_imp_distinct_iff by blast
  show "store_slots ps out ! j = store_slots qs out ! j"
  proof (cases "j \<in> fst ` set ps")
    case True
    then obtain x where "(j, x) \<in> set ps" by auto
    with s store_slots_nth [OF assms(2) _ j] store_slots_nth [OF d _ j] show ?thesis by metis
  next
    case False
    with s show ?thesis by (simp add: store_slots_other)
  qed
qed simp

definition slots :: "groupOutcome \<Rightarrow> (nat \<times> OperationResult) list" where
  "slots outcome = map (\<lambda>item. (po_index item, resolveItem outcome (scanAll outcome) item))
     (bg_items (go_group outcome))"

lemma resolveGroup_slots: "resolveGroup outcome out = store_slots (slots outcome) out"
  by (simp add: resolveGroup_def slots_def store_slots_def fold_map comp_def)

lemma resolve_all_slots:
  "fold resolveGroup outcomes out = store_slots (concat (map slots outcomes)) out"
  by (induction outcomes arbitrary: out) (simp_all add: resolveGroup_slots store_slots_append)

definition groupIndexes :: "batchGroup list \<Rightarrow> nat list" where
  "groupIndexes gs = concat (map (\<lambda>g. map po_index (bg_items g)) gs)"

lemma slots_indexes:
  "map fst (concat (map slots outcomes)) = groupIndexes (map go_group outcomes)"
  by (induction outcomes) (simp_all add: groupIndexes_def slots_def comp_def)

section \<open>Preparing\<close>

text \<open>Where an operand is routed, and what makes a prepared item the image of its operand.\<close>

definition routed :: "('d, 'v) Client \<Rightarrow> operand \<Rightarrow> nat \<Rightarrow> bool" where
  "routed c x i \<longleftrightarrow> (case normalizeOperation x of Inl e \<Rightarrow> False
     | Inr op \<Rightarrow> serverOf c (operationKey op) = Inr i)"

definition itemOf :: "('d, 'v) Client \<Rightarrow> operand \<Rightarrow> nat \<Rightarrow> preparedOperation \<Rightarrow> bool" where
  "itemOf c x i item \<longleftrightarrow>
     normalizeOperation x = Inr (po_op item) \<and> prepare (po_op item) = Inr (po_command item) \<and>
     serverOf c (operationKey (po_op item)) = Inr i \<and> \<not> tooLarge c (po_command item) \<and>
     list_all (\<lambda>flag. flag = [] \<or> hd flag \<noteq> CHR ''O'') (mc_Flags (po_command item))"

definition freshItem :: "nat \<Rightarrow> Operation \<Rightarrow> MetaCommand \<Rightarrow> preparedOperation" where
  "freshItem index op command =
     \<lparr>po_index = index, po_op = op, po_command = command, po_start = 0, po_end = 0\<rparr>"

lemma prepareAll_step:
  assumes "prepareAll c index (x # xs) groups = Inr groups'"
  obtains op command i where "itemOf c x i (freshItem index op command)"
    and "\<And>j. routed c x j \<longleftrightarrow> j = i"
    and "prepareAll c (Suc index) xs (groups(i := groups i @ [freshItem index op command])) = Inr groups'"
proof (cases "normalizeOperation x")
  case (Inl e)
  with assms show ?thesis by (simp split: if_splits)
next
  case (Inr op)
  show ?thesis
  proof (cases "prepare op")
    case (Inl e)
    with assms Inr show ?thesis by (simp split: if_splits)
  next
    case (Inr command)
    note h = assms \<open>normalizeOperation x = Inr op\<close> Inr
    then have t: "\<not> tooLarge c command"
      "\<not> list_ex (\<lambda>flag. flag \<noteq> [] \<and> hd flag = CHR ''O'') (mc_Flags command)"
      by (auto simp del: normalizeOperation.simps split: if_split_asm)
    show ?thesis
    proof (cases "serverOf c (operationKey op)")
      case (Inl e)
      with h t show ?thesis by (simp split: if_splits)
    next
      case (Inr i)
      have "prepareAll c (Suc index) xs (groups(i := groups i @ [freshItem index op command])) = Inr groups'"
        using h t Inr by (simp add: freshItem_def split: if_split_asm)
      moreover have "itemOf c x i (freshItem index op command)"
        using h t Inr by (auto simp: itemOf_def freshItem_def list_all_iff list_ex_iff)
      moreover have "routed c x j \<longleftrightarrow> j = i" for j
        using h Inr by (auto simp: routed_def)
      ultimately show ?thesis using that by blast
    qed
  qed
qed

lemma prepareAll_groups:
  assumes "prepareAll c index xs groups = Inr groups'"
  shows "\<exists>new. groups' i = groups i @ new \<and>
     map po_index new = filter (\<lambda>j. routed c (xs ! (j - index)) i) [index ..< index + length xs] \<and>
     list_all (\<lambda>item. itemOf c (xs ! (po_index item - index)) i item \<and> index \<le> po_index item) new"
  using assms
proof (induction xs arbitrary: index groups)
  case (Cons x xs)
  show ?case
  proof (rule prepareAll_step [OF Cons.prems])
    fix op command k
    assume k: "itemOf c x k (freshItem index op command)" "\<And>j. routed c x j \<longleftrightarrow> j = k"
      "prepareAll c (Suc index) xs (groups(k := groups k @ [freshItem index op command])) = Inr groups'"
    from Cons.IH [OF k(3)] obtain new where
      new: "groups' i = (groups(k := groups k @ [freshItem index op command])) i @ new"
      "map po_index new = filter (\<lambda>j. routed c (xs ! (j - Suc index)) i) [Suc index ..< Suc index + length xs]"
      "list_all (\<lambda>item. itemOf c (xs ! (po_index item - Suc index)) i item \<and> Suc index \<le> po_index item) new"
      by blast
    have shift: "(x # xs) ! (j - index) = xs ! (j - Suc index)" if "Suc index \<le> j" for j
    proof -
      have "j - index = Suc (j - Suc index)" using that by simp
      then show ?thesis by simp
    qed
    have upt: "[index ..< index + length (x # xs)] = index # [Suc index ..< Suc index + length xs]"
      by (simp add: upt_rec)
    have f1: "filter (\<lambda>j. routed c ((x # xs) ! (j - index)) i) [Suc index ..< Suc index + length xs] =
        map po_index new"
      unfolding new(2) using shift by (intro filter_cong refl) (metis atLeastLessThan_iff set_upt)
    moreover have allnew: "list_all (\<lambda>item. itemOf c ((x # xs) ! (po_index item - index)) i item \<and> index \<le> po_index item) new"
      using new(3) shift by (auto simp: list_all_iff)
    moreover have f: "po_index (freshItem index op command) = index" by (simp add: freshItem_def)
    ultimately have tail: "filter (\<lambda>j. routed c ((x # xs) ! (j - index)) i) [index ..< index + length (x # xs)] =
        (if i = k then index # map po_index new else map po_index new)"
      unfolding upt by (simp only: filter.simps f1 diff_self_eq_0 nth_Cons_0 k(2))
    let ?all = "list_all (\<lambda>item. itemOf c ((x # xs) ! (po_index item - index)) i item \<and> index \<le> po_index item)"
    show "\<exists>new. groups' i = groups i @ new \<and>
       map po_index new = filter (\<lambda>j. routed c ((x # xs) ! (j - index)) i) [index ..< index + length (x # xs)] \<and>
       list_all (\<lambda>item. itemOf c ((x # xs) ! (po_index item - index)) i item \<and> index \<le> po_index item) new"
    proof (cases "i = k")
      case True
      have "?all (freshItem index op command # new)"
        using allnew k(1) f True by simp
      moreover have "groups' i = groups i @ (freshItem index op command # new)" using new(1) True by simp
      moreover have "map po_index (freshItem index op command # new) =
          filter (\<lambda>j. routed c ((x # xs) ! (j - index)) i) [index ..< index + length (x # xs)]"
        using tail True f by simp
      ultimately show ?thesis by blast
    next
      case False
      have "groups' i = groups i @ new" using new(1) False by simp
      moreover have "map po_index new =
          filter (\<lambda>j. routed c ((x # xs) ! (j - index)) i) [index ..< index + length (x # xs)]"
        using tail False by simp
      ultimately show ?thesis using allnew by blast
    qed
  qed
qed simp

section \<open>Laying out a group\<close>

text \<open>
  \<open>framed items wires start\<close>: the items' byte ranges are the consecutive ranges of the
  wires from offset \<open>start\<close> on, and each wire is the item's quiet command.
\<close>

fun framed :: "preparedOperation list \<Rightarrow> bytes list \<Rightarrow> nat \<Rightarrow> bool" where
  "framed [] [] start \<longleftrightarrow> True"
| "framed (item # items) (wire # wires) start \<longleftrightarrow>
     marshal (quietCommand item) = Inr wire \<and> po_start item = start \<and>
     po_end item = start + length wire \<and> framed items wires (start + length wire)"
| "framed _ _ start \<longleftrightarrow> False"

text \<open>What the layout keeps of an item: its range does not matter for its command.\<close>

definition sameItem :: "preparedOperation \<Rightarrow> preparedOperation \<Rightarrow> bool" where
  "sameItem a b \<longleftrightarrow> po_index a = po_index b \<and> po_op a = po_op b \<and> po_command a = po_command b"

lemma quietCommand_range [simp]:
  "quietCommand (item\<lparr>po_start := s, po_end := e\<rparr>) = quietCommand item"
  by (simp add: quietCommand_def quietFlags_def successResponseRequired_def)

lemma itemOf_same: "sameItem a b \<Longrightarrow> itemOf c x i b \<Longrightarrow> itemOf c x i a"
  by (simp add: sameItem_def itemOf_def)

lemma layout_Inr:
  "layout items payload = Inr (items', full) \<Longrightarrow>
     \<exists>wires. full = payload @ concat wires \<and> framed items' wires (length payload) \<and>
       list_all2 sameItem items' items"
proof (induction items arbitrary: payload items')
  case (Cons item items)
  then obtain wire rest where w: "marshal (quietCommand item) = Inr wire"
    "layout items (payload @ wire) = Inr (rest, full)"
    "items' = item\<lparr>po_start := length payload, po_end := length (payload @ wire)\<rparr> # rest"
    by (auto simp: result_simps split: sum.splits)
  from Cons.IH [OF w(2)] obtain wires where
    "full = (payload @ wire) @ concat wires" "framed rest wires (length (payload @ wire))"
    "list_all2 sameItem rest items" by blast
  with w(1) have "full = payload @ concat (wire # wires) \<and> framed items' (wire # wires) (length payload) \<and>
      list_all2 sameItem items' (item # items)"
    unfolding w(3) by (simp add: sameItem_def)
  then show ?case by blast
qed (auto intro: exI [of _ "[]"])

lemma list_all2_sameItem_indexes: "list_all2 sameItem xs ys \<Longrightarrow> map po_index xs = map po_index ys"
  by (induction rule: list_all2_induct) (simp_all add: sameItem_def)

lemma layoutGroups_Inr:
  assumes "layoutGroups groups is = Inr ordered"
  shows "groupIndexes ordered = concat (map (\<lambda>i. map po_index (groups i)) is) \<and>
     list_all (\<lambda>g. bg_server g \<in> set is \<and> bg_items g \<noteq> [] \<and>
       list_all2 sameItem (bg_items g) (groups (bg_server g)) \<and>
       (\<exists>wires. bg_payload g = concat wires @ noopCommand \<and> framed (bg_items g) wires 0)) ordered"
  using assms
proof (induction "is" arbitrary: ordered)
  case (Cons i "is")
  show ?case
  proof (cases "groups i = []")
    case True
    with Cons show ?thesis by (auto simp: list_all_iff)
  next
    case False
    with Cons.prems obtain items payload rest where r: "layout (groups i) [] = Inr (items, payload)"
      "layoutGroups groups is = Inr rest"
      "ordered = \<lparr>bg_server = i, bg_items = items, bg_payload = payload @ noopCommand\<rparr> # rest"
      by (auto simp: result_simps)
    from layout_Inr [OF r(1)] obtain wires where w: "payload = concat wires" "framed items wires 0"
      "list_all2 sameItem items (groups i)" by auto
    then have "items \<noteq> []" using False by auto
    moreover have "map po_index items = map po_index (groups i)"
      by (rule list_all2_sameItem_indexes [OF w(3)])
    ultimately show ?thesis
      using Cons.IH [OF r(2)] w unfolding r(3) by (auto simp: groupIndexes_def list_all_iff)
  qed
qed (simp add: groupIndexes_def)

section \<open>The plan\<close>

text \<open>The plan of a batch: its groups answer exactly the operations, each on its own server.\<close>

definition planned :: "('d, 'v) Client \<Rightarrow> operand list \<Rightarrow> batchGroup list \<Rightarrow> bool" where
  "planned c ops gs \<longleftrightarrow>
     distinct (groupIndexes gs) \<and> set (groupIndexes gs) = {0 ..< length ops} \<and>
     list_all (\<lambda>g. list_all (\<lambda>item. itemOf c (ops ! po_index item) (bg_server g) item) (bg_items g) \<and>
       sorted (map po_index (bg_items g)) \<and>
       (\<exists>wires. bg_payload g = concat wires @ noopCommand \<and> framed (bg_items g) wires 0)) gs"

lemma filter_partition:
  assumes "distinct is" and "distinct js" and fn: "\<And>j i k. \<lbrakk>P j i; P j k\<rbrakk> \<Longrightarrow> i = k"
    and "\<And>j. j \<in> set js \<Longrightarrow> \<exists>i \<in> set is. P j i"
  shows "distinct (concat (map (\<lambda>i. filter (\<lambda>j. P j i) js) is)) \<and>
     set (concat (map (\<lambda>i. filter (\<lambda>j. P j i) js) is)) = set js"
proof
  show "distinct (concat (map (\<lambda>i. filter (\<lambda>j. P j i) js) is))"
    using assms(1,2) fn by (induction "is") (auto simp: disjoint_iff)
  show "set (concat (map (\<lambda>i. filter (\<lambda>j. P j i) js) is)) = set js"
    using assms(4) by auto
qed

lemma routed_unique: "\<lbrakk>routed c x i; routed c x k\<rbrakk> \<Longrightarrow> i = k"
  by (auto simp: routed_def split: sum.splits)

lemma routed_range: "clientOk c \<Longrightarrow> routed c x i \<Longrightarrow> i < length (cl_servers c)"
  by (auto simp: routed_def serverOf_range split: sum.splits)

lemma itemOf_routed: "itemOf c x i item \<Longrightarrow> routed c x i"
  by (simp add: itemOf_def routed_def)

lemma prepareAll_routed:
  "prepareAll c index xs groups = Inr groups' \<Longrightarrow> j < length xs \<Longrightarrow> \<exists>i. routed c (xs ! j) i"
proof (induction xs arbitrary: index groups j)
  case (Cons x xs)
  show ?case
  proof (rule prepareAll_step [OF Cons.prems(1)])
    fix op command i
    assume i: "itemOf c x i (freshItem index op command)"
      and rest: "prepareAll c (Suc index) xs (groups(i := groups i @ [freshItem index op command])) = Inr groups'"
    show "\<exists>i. routed c ((x # xs) ! j) i"
    proof (cases j)
      case 0
      with itemOf_routed [OF i] show ?thesis by auto
    next
      case (Suc k)
      with Cons.IH [OF rest, of k] Cons.prems(2) show ?thesis by simp
    qed
  qed
qed simp

lemma plan_planned:
  assumes ok: "clientOk c" and p: "plan c ops = Inr gs"
  shows "planned c ops gs"
proof -
  let ?js = "[0 ..< length ops]" and ?is = "[0 ..< length (cl_servers c)]"
  from p obtain groups where g: "prepareAll c 0 ops (\<lambda>_. []) = Inr groups"
    "layoutGroups groups ?is = Inr gs" by (auto simp: plan_def result_simps)
  have items: "map po_index (groups i) = filter (\<lambda>j. routed c (ops ! j) i) ?js \<and>
      list_all (\<lambda>item. itemOf c (ops ! po_index item) i item) (groups i)" for i
    using prepareAll_groups [OF g(1), of i] by (auto simp: list_all_iff)
  have ex: "\<exists>i \<in> set ?is. routed c (ops ! j) i" if "j \<in> set ?js" for j
    using that prepareAll_routed [OF g(1), of j] routed_range [OF ok] by fastforce
  have "distinct (concat (map (\<lambda>i. filter (\<lambda>j. routed c (ops ! j) i) ?js) ?is)) \<and>
      set (concat (map (\<lambda>i. filter (\<lambda>j. routed c (ops ! j) i) ?js) ?is)) = set ?js"
    by (rule filter_partition [OF distinct_upt distinct_upt routed_unique ex])
  then have part: "distinct (concat (map (\<lambda>i. map po_index (groups i)) ?is)) \<and>
      set (concat (map (\<lambda>i. map po_index (groups i)) ?is)) = set ?js"
    by (simp only: items)
  have sorted: "sorted (map po_index xs)" if "list_all2 sameItem xs (groups i)" for xs i
    unfolding list_all2_sameItem_indexes [OF that] using items [of i]
    by (simp add: sorted_filter [where f = "\<lambda>j. j", simplified] del: upt_Suc)
  have same: "list_all (\<lambda>item. itemOf c (ops ! po_index item) i item) xs"
    if "list_all2 sameItem xs (groups i)" for xs i
    using that items [of i] itemOf_same
    by (fastforce simp: list_all2_conv_all_nth list_all_length sameItem_def)
  show ?thesis
    using layoutGroups_Inr [OF g(2)] part sorted same
    unfolding planned_def by (auto simp: list_all_iff)
qed

end
