(* ===== verification/Batch_Results.thy ===== *)
theory Batch_Results
  imports Batching
begin

text \<open>
  The properties of a batch: the declarative matching of responses to operations that the
  scan implements, the ambiguity of its failures, and the shape of the whole result.
\<close>

section \<open>Matching by token, declaratively\<close>

text \<open>
  The token of a response, the responses that answer one position, and what is wrong with a
  response that answers none of the group's positions.
\<close>

definition tokenOf :: "RawResponse \<Rightarrow> int option" where
  "tokenOf r = (if raw_Code r = ResponseNoop \<or> raw_Opaque r = [] then None else atoi (raw_Opaque r))"

definition answering :: "int \<Rightarrow> RawResponse list \<Rightarrow> RawResponse list" where
  "answering j rs = filter (\<lambda>r. tokenOf r = Some j) rs"

definition strayError :: "int list \<Rightarrow> RawResponse \<Rightarrow> goerr option" where
  "strayError expected r =
     (if raw_Code r = ResponseNoop then None
      else if raw_Opaque r = [] then Some (ProtocolError ''pipeline response omitted opaque token'' [])
      else (case atoi (raw_Opaque r) of
          None \<Rightarrow> Some (ProtocolError ''pipeline response has invalid opaque token'' [])
        | Some j \<Rightarrow>
            if List.member expected j then None
            else Some (ProtocolError ''pipeline response has unexpected opaque token'' [])))"

definition repeatedToken :: goerr where
  "repeatedToken = ProtocolError ''pipeline response repeated opaque token'' []"

definition strays :: "int list \<Rightarrow> RawResponse list \<Rightarrow> goerr list" where
  "strays expected rs = List.map_filter (strayError expected) rs"

definition barrierIn :: "RawResponse list \<Rightarrow> bool" where
  "barrierIn rs \<longleftrightarrow> list_ex isNoop rs"

definition scanned :: "int list \<Rightarrow> RawResponse list \<Rightarrow> scan \<Rightarrow> bool" where
  "scanned expected rs s \<longleftrightarrow>
     (\<forall>j. sc_byIndex s j =
        (if j \<in> set expected \<and> length (answering j rs) = 1 then Some (hd (answering j rs)) else None)) \<and>
     (\<forall>j. sc_badIndex s j =
        (if j \<in> set expected \<and> 2 \<le> length (answering j rs) then Some repeatedToken else None)) \<and>
     (sc_barrier s \<longleftrightarrow> barrierIn rs) \<and>
     sc_parseFailure s = (if strays expected rs = [] then None else Some (last (strays expected rs)))"

lemma answering_snoc:
  "answering j (rs @ [r]) = answering j rs @ (if tokenOf r = Some j then [r] else [])"
  by (simp add: answering_def)

lemma strays_snoc:
  "strays expected (rs @ [r]) =
     strays expected rs @ (case strayError expected r of None \<Rightarrow> [] | Some e \<Rightarrow> [e])"
  by (simp add: strays_def map_filter_def split: option.split)

lemma barrierIn_snoc: "barrierIn (rs @ [r]) \<longleftrightarrow> barrierIn rs \<or> isNoop r"
  by (simp add: barrierIn_def)

lemma scanned_step:
  assumes s: "scanned expected rs s"
  shows "scanned expected (rs @ [r]) (scanResponse expected r s)"
proof (cases "strayError expected r")
  case (Some e)
  then have n: "\<not> isNoop r" and t: "\<And>j. j \<in> set expected \<Longrightarrow> tokenOf r \<noteq> Some j"
    and r: "scanResponse expected r s = s\<lparr>sc_parseFailure := Some e\<rparr>"
    by (auto simp: strayError_def tokenOf_def scanResponse_def split: if_splits option.splits)
  show ?thesis
    using s n t Some unfolding scanned_def r
    by (auto simp: answering_snoc strays_snoc barrierIn_snoc)
next
  case None
  show ?thesis
  proof (cases "isNoop r")
    case True
    then have "tokenOf r = None" by (simp add: tokenOf_def)
    with s True None show ?thesis
      unfolding scanned_def by (simp add: scanResponse_def answering_snoc strays_snoc barrierIn_snoc)
  next
    case False
    with None obtain k where k: "tokenOf r = Some k" "k \<in> set expected" "raw_Opaque r \<noteq> []"
      "atoi (raw_Opaque r) = Some k"
      by (auto simp: strayError_def tokenOf_def split: if_splits option.splits)
    let ?n = "length (answering k rs)"
    have by_k: "sc_byIndex s k = (if ?n = 1 then Some (hd (answering k rs)) else None)"
      and bad_k: "sc_badIndex s k = (if 2 \<le> ?n then Some repeatedToken else None)"
      using s k(2) by (simp_all add: scanned_def)
    have step: "scanResponse expected r s =
       (if ?n = 1 then s\<lparr>sc_byIndex := (sc_byIndex s)(k := None),
            sc_badIndex := (sc_badIndex s)(k \<mapsto> repeatedToken)\<rparr>
        else if 2 \<le> ?n then s else s\<lparr>sc_byIndex := (sc_byIndex s)(k \<mapsto> r)\<rparr>)"
      using False k by_k bad_k by (simp add: scanResponse_def repeatedToken_def)
    have nil: "\<lbrakk>\<not> 2 \<le> ?n; ?n \<noteq> Suc 0\<rbrakk> \<Longrightarrow> answering k rs = []"
      by (cases "answering k rs"; cases "tl (answering k rs)") auto
    have other: "answering j (rs @ [r]) = answering j rs" if "j \<noteq> k" for j
      using that k(1) by (simp add: answering_snoc)
    have this_k: "answering k (rs @ [r]) = answering k rs @ [r]"
      using k(1) by (simp add: answering_snoc)
    have rest: "sc_barrier (scanResponse expected r s) \<longleftrightarrow> barrierIn (rs @ [r])"
      "sc_parseFailure (scanResponse expected r s) =
         (if strays expected (rs @ [r]) = [] then None else Some (last (strays expected (rs @ [r]))))"
      using s False None unfolding step by (auto simp: scanned_def barrierIn_snoc strays_snoc)
    have "sc_byIndex (scanResponse expected r s) j = (if j \<in> set expected \<and> length (answering j (rs @ [r])) = 1
        then Some (hd (answering j (rs @ [r]))) else None)" for j
      using s k(2) by_k unfolding step
      by (cases "j = k") (auto simp: scanned_def other this_k intro: nil)
    moreover have "sc_badIndex (scanResponse expected r s) j =
        (if j \<in> set expected \<and> 2 \<le> length (answering j (rs @ [r])) then Some repeatedToken else None)" for j
      using s k(2) bad_k unfolding step
      by (cases "j = k") (auto simp: scanned_def other this_k dest: nil)
    ultimately show ?thesis using rest unfolding scanned_def by blast
  qed
qed

lemma scanned_all: "scanned expected rs (fold (scanResponse expected) rs scan0)"
proof (induction rs rule: rev_induct)
  case Nil
  then show ?case
    by (simp add: scanned_def scan0_def answering_def strays_def barrierIn_def map_filter_def)
next
  case (snoc r rs)
  then show ?case using scanned_step by fastforce
qed

section \<open>The outcome of one operation\<close>

text \<open>
  The reference view of an operation's outcome: exactly one response carries its token and
  is interpreted; several are an error; none means a quiet success or miss when the group's
  stream is complete and clean and the operation may be quiet, and an error otherwise.
\<close>

definition groupTokens :: "groupOutcome \<Rightarrow> int list" where
  "groupTokens outcome = map (int \<circ> po_index) (bg_items (go_group outcome))"

definition missingCause :: "groupOutcome \<Rightarrow> goerr" where
  "missingCause outcome =
     (case go_err outcome of Some e \<Rightarrow> e
      | None \<Rightarrow>
          if \<not> barrierIn (go_responses outcome)
          then ProtocolError ''pipeline omitted no-op barrier'' []
          else last (strays (groupTokens outcome) (go_responses outcome)))"

definition completeStream :: "groupOutcome \<Rightarrow> bool" where
  "completeStream outcome \<longleftrightarrow>
     barrierIn (go_responses outcome) \<and> strays (groupTokens outcome) (go_responses outcome) = []"

definition outcomeSpec :: "groupOutcome \<Rightarrow> preparedOperation \<Rightarrow> OperationResult" where
  "outcomeSpec outcome item =
     (case answering (int (po_index item)) (go_responses outcome) of
        [r] \<Rightarrow> parseBatchResponse item r
      | [] \<Rightarrow>
          if completeStream outcome then
            (if successResponseRequired item
             then failItem item (go_written outcome) (ProtocolError ''pipeline omitted required response'' [])
             else inferQuietResult item)
          else failItem item (go_written outcome) (missingCause outcome)
      | _ \<Rightarrow> failItem item (go_written outcome) repeatedToken)"

lemma scanAll_facts:
  assumes "j \<in> set (groupTokens outcome)"
  shows "sc_byIndex (scanAll outcome) j =
       (if length (answering j (go_responses outcome)) = 1
        then Some (hd (answering j (go_responses outcome))) else None)"
    and "sc_badIndex (scanAll outcome) j =
       (if 2 \<le> length (answering j (go_responses outcome)) then Some repeatedToken else None)"
    and "sc_barrier (scanAll outcome) \<and> sc_parseFailure (scanAll outcome) = None \<longleftrightarrow> completeStream outcome"
    and "\<not> completeStream outcome \<Longrightarrow>
       (case go_err outcome of Some e \<Rightarrow> e
        | None \<Rightarrow> (case sc_parseFailure (scanAll outcome) of Some e \<Rightarrow> e
                  | None \<Rightarrow> ProtocolError ''pipeline failed'' [])) = missingCause outcome"
  using scanned_all [of "groupTokens outcome" "go_responses outcome"] assms
  by (auto simp: scanned_def scanAll_def groupTokens_def Let_def completeStream_def missingCause_def
      split: option.splits)

lemma resolveItem_spec:
  assumes "item \<in> set (bg_items (go_group outcome))"
  shows "resolveItem outcome (scanAll outcome) item = outcomeSpec outcome item"
proof -
  let ?j = "int (po_index item)" and ?s = "scanAll outcome"
  have j: "?j \<in> set (groupTokens outcome)" using assms by (auto simp: groupTokens_def)
  note f = scanAll_facts [OF j]
  consider (none) "answering ?j (go_responses outcome) = []"
    | (one) r where "answering ?j (go_responses outcome) = [r]"
    | (many) r r' rs where "answering ?j (go_responses outcome) = r # r' # rs"
    by (metis list.exhaust)
  then show ?thesis
  proof cases
    case none
    show ?thesis
    proof (cases "completeStream outcome")
      case True
      with none f(1,2,3) show ?thesis by (simp add: resolveItem_def outcomeSpec_def)
    next
      case False
      with none f(1,2,3) f(4) [OF False] show ?thesis
        unfolding resolveItem_def outcomeSpec_def by auto
    qed
  qed (simp_all add: resolveItem_def outcomeSpec_def f(1,2))
qed

lemma group_slot:
  assumes "distinct (map po_index (bg_items (go_group outcome)))"
    and "item \<in> set (bg_items (go_group outcome))" and "po_index item < length output"
  shows "resolveGroup outcome output ! po_index item = outcomeSpec outcome item"
proof -
  have "distinct (map fst (slots outcome))" using assms(1) by (simp add: slots_def comp_def)
  moreover have "(po_index item, outcomeSpec outcome item) \<in> set (slots outcome)"
    using assms(2) resolveItem_spec [OF assms(2)] by (force simp: slots_def)
  ultimately show ?thesis
    unfolding resolveGroup_slots by (rule store_slots_nth [OF _ _ assms(3)])
qed

text \<open>
  C15: the responses of a pipeline are matched to its operations by token alone, whatever
  their order: the result of each operation is the one the reference view gives, so no
  operation ever gets another one's response, a repeated token never picks one of its
  responses, and a quiet result is inferred only from a complete stream without strays.
\<close>

theorem batch_matching:
  assumes "distinct (map po_index (bg_items (go_group outcome)))"
    and "item \<in> set (bg_items (go_group outcome))" and "po_index item < length output"
  shows "resolveGroup outcome output ! po_index item =
     (case answering (int (po_index item)) (go_responses outcome) of
        [r] \<Rightarrow> parseBatchResponse item r
      | [] \<Rightarrow>
          if completeStream outcome then
            (if successResponseRequired item
             then failItem item (go_written outcome) (ProtocolError ''pipeline omitted required response'' [])
             else inferQuietResult item)
          else failItem item (go_written outcome) (missingCause outcome)
      | _ \<Rightarrow> failItem item (go_written outcome) repeatedToken)"
  using group_slot [OF assms] by (simp only: outcomeSpec_def)

definition demoItem :: "nat \<Rightarrow> Operation \<Rightarrow> MetaCommand \<Rightarrow> nat \<Rightarrow> nat \<Rightarrow> preparedOperation" where
  "demoItem index op command s e =
     \<lparr>po_index = index, po_op = op, po_command = command, po_start = s, po_end = e\<rparr>"

definition demoReply :: "bytes \<Rightarrow> bytes \<Rightarrow> RawResponse" where
  "demoReply code tok = (raw_of_code code)\<lparr>raw_Opaque := tok\<rparr>"

definition demoDelete :: MetaCommand where
  "demoDelete = \<lparr>mc_Command = ''md'', mc_Key = ''k'', mc_Flags = [], mc_Value = [], mc_HasValue = False\<rparr>"

definition demoOutcome :: groupOutcome where
  "demoOutcome = \<lparr>
     go_group = \<lparr>bg_server = 0,
       bg_items = [demoItem 0 (DeleteOperation ''k'' zero_MetaDeleteOptions) demoDelete 0 13,
         demoItem 1 (DeleteOperation ''j'' zero_MetaDeleteOptions) (demoDelete\<lparr>mc_Key := ''j''\<rparr>) 13 26],
       bg_payload = []\<rparr>,
     go_responses = [demoReply ResponseNotFound ''1'', demoReply ResponseNoop []],
     go_written = 30, go_err = None\<rparr>"

lemma demo_atoi: "atoi ''1'' = Some 1"
  by (simp add: parse_int_def parse_nat_def is_digit_def digits_val_def digit_val_def)

theorem batch_matching_witness:
  "resolveGroup demoOutcome (replicate 2 zero_OperationResult) ! 1 =
     zero_OperationResult\<lparr>or_Mutation := Some (zero_MutationResult\<lparr>mr_Key := ''j'',
        mr_Status := MutationNotFound\<rparr>)\<rparr>"
proof -
  let ?item = "demoItem 1 (DeleteOperation ''j'' zero_MetaDeleteOptions) (demoDelete\<lparr>mc_Key := ''j''\<rparr>) 13 26"
  have h: "distinct (map po_index (bg_items (go_group demoOutcome)))"
    "?item \<in> set (bg_items (go_group demoOutcome))" "po_index ?item < length (replicate 2 zero_OperationResult)"
    by (simp_all add: demoOutcome_def demoItem_def)
  have i: "po_index ?item = 1" by (simp add: demoItem_def)
  have a: "answering (int 1) (go_responses demoOutcome) = [demoReply ResponseNotFound ''1'']"
    by (simp add: answering_def demoOutcome_def demoReply_def raw_of_code_def tokenOf_def demo_atoi)
  have p: "parseBatchResponse ?item (demoReply ResponseNotFound ''1'') =
     zero_OperationResult\<lparr>or_Mutation := Some (zero_MutationResult\<lparr>mr_Key := ''j'', mr_Status := MutationNotFound\<rparr>)\<rparr>"
    by (simp add: parseBatchResponse_def demoItem_def demoReply_def raw_of_code_def deleteStatus_def
        mutationResult_def zero_MutationResult_def no_metadata_def zero_OperationResult_def)
  show ?thesis
    using batch_matching [OF h] unfolding i a list.case p .
qed

section \<open>Ambiguity of a pipeline\<close>

lemma or_Ambiguous_simps [simp]:
  "\<not> or_Ambiguous zero_OperationResult" "or_Err zero_OperationResult = None"
  by (simp_all add: zero_OperationResult_def)

lemma semantic_plain:
  "(case snd (semanticGet key go wire) of None \<Rightarrow> True | Some e \<Rightarrow> plainError e)"
  "(case snd (storeStatus code m) of None \<Rightarrow> True | Some e \<Rightarrow> plainError e)"
  "(case snd (deleteStatus code) of None \<Rightarrow> True | Some e \<Rightarrow> plainError e)"
  "(case snd (semanticArithmetic key ao wire) of None \<Rightarrow> True | Some e \<Rightarrow> plainError e)"
  by (auto simp: semanticGet_def storeStatus_def deleteStatus_def semanticArithmetic_def
      arithmeticStatus_def plainError_def as_ambiguous_def as_usage_def Let_def split: option.split)

lemma plain_protocol [simp]: "plainError (ProtocolError m a)"
  by (simp add: plainError_def as_ambiguous_def as_usage_def)

lemma plainError_ambiguous [simp]: "plainError e \<Longrightarrow> \<not> as_ambiguous e"
  by (simp add: plainError_def)

definition errAmbiguous :: "OperationResult \<Rightarrow> bool" where
  "errAmbiguous r \<longleftrightarrow> (case or_Err r of None \<Rightarrow> False | Some e \<Rightarrow> as_ambiguous e)"

lemma parse_unambiguous:
  assumes "deliverable r"
  shows "\<not> or_Ambiguous (parseBatchResponse item r) \<and> \<not> errAmbiguous (parseBatchResponse item r)"
proof (cases "raw_parseErr r")
  case (Some e)
  with assms show ?thesis by (simp add: parseBatchResponse_def deliverable_def errAmbiguous_def)
next
  case None
  show ?thesis
    using semantic_plain(1) [of "operationKey (po_op item)"] semantic_plain(2) [of "raw_Code r"]
      semantic_plain(3) [of "raw_Code r"] semantic_plain(4) [of "operationKey (po_op item)"] None
    by (cases "po_op item")
      (fastforce simp: parseBatchResponse_def errAmbiguous_def Let_def split_def split: option.splits)+
qed

lemma infer_unambiguous:
  "\<not> or_Ambiguous (inferQuietResult item) \<and> \<not> errAmbiguous (inferQuietResult item)"
  by (cases "po_kind item") (simp_all add: inferQuietResult_def errAmbiguous_def)

lemma failItem_ambiguous:
  assumes "plainError e"
  shows "(or_Ambiguous (failItem item written e) \<longleftrightarrow> itemMutates item \<and> po_end item \<le> written) \<and>
     (errAmbiguous (failItem item written e) \<longleftrightarrow> itemMutates item \<and> po_end item \<le> written)"
  using assms by (simp add: failItem_def errAmbiguous_def)

lemma strays_plain: "list_all plainError (strays expected rs)"
  by (auto simp: strays_def map_filter_def list_all_iff strayError_def split: if_splits option.splits)

lemma missingCause_plain:
  assumes "case go_err outcome of None \<Rightarrow> True | Some e \<Rightarrow> plainError e" and "\<not> completeStream outcome"
  shows "plainError (missingCause outcome)"
proof (cases "go_err outcome")
  case None
  have "plainError (last (strays (groupTokens outcome) (go_responses outcome)))"
    if "barrierIn (go_responses outcome)"
    using strays_plain [of "groupTokens outcome" "go_responses outcome"] that assms(2)
    by (auto simp: completeStream_def list_all_iff)
  with None show ?thesis by (simp add: missingCause_def)
next
  case (Some e)
  with assms show ?thesis by (simp add: missingCause_def)
qed

definition outcomeKnown :: "groupOutcome \<Rightarrow> preparedOperation \<Rightarrow> bool" where
  "outcomeKnown outcome item \<longleftrightarrow>
     length (answering (int (po_index item)) (go_responses outcome)) = 1 \<or>
     (answering (int (po_index item)) (go_responses outcome) = [] \<and> completeStream outcome \<and>
      \<not> successResponseRequired item)"

lemma outcomeSpec_ambiguous:
  assumes "list_all deliverable (go_responses outcome)"
    and "case go_err outcome of None \<Rightarrow> True | Some e \<Rightarrow> plainError e"
  shows "(or_Ambiguous (outcomeSpec outcome item) \<longleftrightarrow>
       itemMutates item \<and> po_end item \<le> go_written outcome \<and> \<not> outcomeKnown outcome item) \<and>
     (errAmbiguous (outcomeSpec outcome item) \<longleftrightarrow> or_Ambiguous (outcomeSpec outcome item))"
proof -
  let ?mine = "answering (int (po_index item)) (go_responses outcome)"
  consider (none) "?mine = []" | (one) r where "?mine = [r]" | (many) r r' rs where "?mine = r # r' # rs"
    by (metis list.exhaust)
  then show ?thesis
  proof cases
    case none
    with missingCause_plain [OF assms(2)] infer_unambiguous show ?thesis
      by (cases "completeStream outcome") (simp_all add: outcomeSpec_def outcomeKnown_def failItem_ambiguous)
  next
    case one
    then have "r \<in> set (go_responses outcome)"
      using filter_is_subset unfolding answering_def by (metis list.set_intros(1) subsetD)
    with assms(1) one parse_unambiguous [of r item] show ?thesis
      by (simp add: outcomeSpec_def outcomeKnown_def list_all_iff)
  next
    case many
    then show ?thesis by (simp add: outcomeSpec_def outcomeKnown_def failItem_ambiguous repeatedToken_def)
  qed
qed

text \<open>
  C21: an operation of a batch is reported as ambiguous, by its flag and by its error alike,
  exactly when it mutates, all of its bytes reached the connection, and neither a response
  of its own nor the barrier of a complete stream proves what became of it. So a read is
  never ambiguous, nor is a mutation behind the point where the writing stopped.
\<close>

theorem batch_ambiguity:
  assumes "distinct (map po_index (bg_items (go_group outcome)))"
    and "item \<in> set (bg_items (go_group outcome))" and "po_index item < length output"
    and "list_all deliverable (go_responses outcome)"
    and "case go_err outcome of None \<Rightarrow> True | Some e \<Rightarrow> plainError e"
  shows "let r = resolveGroup outcome output ! po_index item in
     (or_Ambiguous r \<longleftrightarrow> itemMutates item \<and> po_end item \<le> go_written outcome \<and> \<not> outcomeKnown outcome item) \<and>
     (case or_Err r of None \<Rightarrow> \<not> or_Ambiguous r | Some e \<Rightarrow> or_Ambiguous r \<longleftrightarrow> as_ambiguous e)"
  using outcomeSpec_ambiguous [OF assms(4,5), of item] group_slot [OF assms(1-3)]
  by (auto simp: Let_def errAmbiguous_def split: option.splits)

definition demoLost :: groupOutcome where
  "demoLost = demoOutcome\<lparr>go_responses := [], go_written := 20, go_err := Some IoEOF\<rparr>"

theorem batch_ambiguity_witness:
  "or_Ambiguous (resolveGroup demoLost (replicate 2 zero_OperationResult) ! 0) \<and>
   \<not> or_Ambiguous (resolveGroup demoLost (replicate 2 zero_OperationResult) ! 1)"
proof -
  let ?out = "replicate 2 zero_OperationResult"
  let ?a = "demoItem 0 (DeleteOperation ''k'' zero_MetaDeleteOptions) demoDelete 0 13"
  let ?b = "demoItem 1 (DeleteOperation ''j'' zero_MetaDeleteOptions) (demoDelete\<lparr>mc_Key := ''j''\<rparr>) 13 26"
  have h: "distinct (map po_index (bg_items (go_group demoLost)))"
    "list_all deliverable (go_responses demoLost)"
    "case go_err demoLost of None \<Rightarrow> True | Some e \<Rightarrow> plainError e"
    and ab: "?a \<in> set (bg_items (go_group demoLost))" "po_index ?a < length ?out"
      "?b \<in> set (bg_items (go_group demoLost))" "po_index ?b < length ?out"
    by (simp_all add: demoLost_def demoOutcome_def demoItem_def plainError_def as_ambiguous_def as_usage_def)
  have i: "po_index ?a = 0" "po_index ?b = 1" "po_end ?a = 13" "po_end ?b = 26" "go_written demoLost = 20"
    "itemMutates ?a" "\<not> outcomeKnown demoLost ?a"
    by (simp_all add: demoItem_def demoLost_def itemMutates_def outcomeKnown_def answering_def
        completeStream_def barrierIn_def)
  show ?thesis
    using batch_ambiguity [OF h(1) ab(1,2) h(2,3)] batch_ambiguity [OF h(1) ab(3,4) h(2,3)] i(6,7)
    unfolding i(1-5) Let_def by simp
qed

section \<open>The whole batch\<close>

text \<open>A result answers an operation: an error, or exactly the operation's kind of result for its key.\<close>

definition answersOp :: "Operation \<Rightarrow> OperationResult \<Rightarrow> bool" where
  "answersOp op r \<longleftrightarrow>
     (case or_Err r of Some e \<Rightarrow> True
      | None \<Rightarrow>
          (case (op, or_Get r, or_Mutation r, or_Arithmetic r) of
             (GetOperation key o1, Some g, None, None) \<Rightarrow> gr_Key g = key
           | (SetOperation key val o1, None, Some m, None) \<Rightarrow> mr_Key m = key
           | (DeleteOperation key o1, None, Some m, None) \<Rightarrow> mr_Key m = key
           | (ArithmeticOperation key o1, None, None, Some a) \<Rightarrow> ar_Key a = key
           | _ \<Rightarrow> False))"

lemma semanticGet_key: "semanticGet key go wire = (r, None) \<Longrightarrow> gr_Key r = key"
  by (auto simp: semanticGet_def Let_def split: if_splits)

lemma semanticArithmetic_key: "semanticArithmetic key ao wire = (r, None) \<Longrightarrow> ar_Key r = key"
  by (auto simp: semanticArithmetic_def Let_def split: if_split_asm option.split_asm prod.split_asm)

lemma answersOp_error [simp]: "or_Err r = Some e \<Longrightarrow> answersOp op r"
  by (simp add: answersOp_def)

lemma answersOp_parse: "answersOp (po_op item) (parseBatchResponse item r)"
proof (cases "raw_parseErr r")
  case (Some e)
  then show ?thesis by (simp add: parseBatchResponse_def)
next
  case None
  show ?thesis
    by (cases "po_op item")
      (auto simp: answersOp_def parseBatchResponse_def None Let_def zero_OperationResult_def
        mutationResult_def semanticGet_key semanticArithmetic_key split: prod.split option.split)
qed

lemma answersOp_infer: "answersOp (po_op item) (inferQuietResult item)"
  by (cases "po_op item")
    (simp_all add: answersOp_def inferQuietResult_def zero_OperationResult_def zero_MutationResult_def)

lemma answersOp_fail: "answersOp (po_op item) (failItem item written e)"
  by (simp add: failItem_def)

lemma answersOp_outcome: "answersOp (po_op item) (outcomeSpec outcome item)"
  by (simp add: outcomeSpec_def answersOp_parse answersOp_infer answersOp_fail split: list.split)

lemma runGroups_groups:
  "runGroups env ctx gs w = (outcomes, w') \<Longrightarrow> map go_group outcomes = gs"
  by (induction gs arbitrary: w outcomes) (auto simp: split_def Let_def)

lemma planned_slot:
  assumes p: "planned c ops gs" and g: "map go_group outcomes = gs" and j: "j < length ops"
  obtains outcome item where "outcome \<in> set outcomes" and "item \<in> set (bg_items (go_group outcome))"
    and "po_index item = j" and "itemOf c (ops ! j) (bg_server (go_group outcome)) item"
    and "fold resolveGroup outcomes (replicate (length ops) zero_OperationResult) ! j =
       outcomeSpec outcome item"
proof -
  let ?all = "concat (map slots outcomes)"
  have keys: "map fst ?all = groupIndexes gs" using slots_indexes [of outcomes] g by simp
  then have d: "distinct (map fst ?all)" using p by (simp add: planned_def)
  have "j \<in> set (map fst ?all)" using p j keys by (simp add: planned_def)
  then have "\<exists>p \<in> set ?all. fst p = j" unfolding set_map by (rule imageE) blast
  then obtain x where x: "(j, x) \<in> set ?all" by force
  then obtain outcome where o1: "outcome \<in> set outcomes" "(j, x) \<in> set (slots outcome)" by auto
  then obtain item where i: "item \<in> set (bg_items (go_group outcome))" "po_index item = j"
    "x = outcomeSpec outcome item"
    by (auto simp: slots_def resolveItem_spec)
  have "go_group outcome \<in> set gs" using o1(1) g by auto
  then have "itemOf c (ops ! j) (bg_server (go_group outcome)) item"
    using p i(1,2) by (auto simp: planned_def list_all_iff)
  moreover have "fold resolveGroup outcomes (replicate (length ops) zero_OperationResult) ! j = x"
    unfolding resolve_all_slots using store_slots_nth [OF d x] j by simp
  ultimately show thesis using that o1(1) i by blast
qed

text \<open>
  C22: a batch is validated as a whole before anything is written: when it fails, the world
  is as it was. Otherwise it has one result per operation, in the order of the operations,
  and each result is an error or exactly the kind of result its operation asks for, for its
  own key: no slot is left empty and none is filled from another operation.
\<close>

theorem batch_answers:
  assumes "New dialer jsonCodec server options = Inr c"
  shows "case batch env c ctx operations w of
      (Inl e, w') \<Rightarrow> w' = w
    | (Inr results, w') \<Rightarrow>
        list_all2 (\<lambda>x r. case normalizeOperation x of Inl e \<Rightarrow> False | Inr op \<Rightarrow> answersOp op r)
          operations results"
proof (cases "operations = []")
  case True
  then show ?thesis by (simp add: batch_def)
next
  case False
  show ?thesis
  proof (cases "plan c operations")
    case (Inl e)
    with False show ?thesis by (simp add: batch_def)
  next
    case (Inr gs)
    have p: "planned c operations gs" by (rule plan_planned [OF New_clientOk [OF assms] Inr])
    obtain outcomes w' where r: "runGroups env ctx gs w = (outcomes, w')" by fastforce
    let ?out = "fold resolveGroup outcomes (replicate (length operations) zero_OperationResult)"
    have len: "length ?out = length operations" by (simp add: resolve_all_slots)
    have "case normalizeOperation (operations ! j) of Inl e \<Rightarrow> False | Inr op \<Rightarrow> answersOp op (?out ! j)"
      if "j < length operations" for j
    proof (rule planned_slot [OF p runGroups_groups [OF r] that])
      fix outcome item
      assume "itemOf c (operations ! j) (bg_server (go_group outcome)) item"
        and "?out ! j = outcomeSpec outcome item"
      then show ?thesis by (simp add: itemOf_def answersOp_outcome)
    qed
    with len have "list_all2 (\<lambda>x r. case normalizeOperation x of Inl e \<Rightarrow> False | Inr op \<Rightarrow> answersOp op r)
        operations ?out"
      by (simp add: list_all2_conv_all_nth)
    with False Inr r show ?thesis by (simp add: batch_def)
  qed
qed

theorem batch_answers_witness:
  "case batch demoEnv demoClient RootCtx [Struct (GetOperation ''k'' demoGet)] demoWorld of
      (Inl e, w') \<Rightarrow> w' = demoWorld
    | (Inr results, w') \<Rightarrow> False"
proof -
  have "isl (fst (batch demoEnv demoClient RootCtx [Struct (GetOperation ''k'' demoGet)] demoWorld))"
    by (simp add: batch_def plan_def demoGet_builds demoGetCommand_def tooLarge_def)
  with batch_answers [OF demoClient_New, where env = demoEnv and ctx = RootCtx and w = demoWorld
      and operations = "[Struct (GetOperation ''k'' demoGet)]"]
  show ?thesis by (auto split: prod.splits sum.splits)
qed

lemma mset_concat_map: "mset xs = mset ys \<Longrightarrow> mset (concat (map f xs)) = mset (concat (map f ys))"
proof -
  have e: "mset (concat (map f zs)) = \<Sum>\<^sub># (image_mset (\<lambda>z. mset (f z)) (mset zs))" for zs
    by (induction zs) simp_all
  show "mset xs = mset ys \<Longrightarrow> ?thesis" by (simp add: e)
qed

text \<open>
  C32: the groups of a batch may finish in any order: resolving their outcomes in another
  order gives the same results, because every operation belongs to exactly one group.
\<close>

theorem batch_order_irrelevant:
  assumes "New dialer jsonCodec server options = Inr c" and "plan c operations = Inr gs"
    and "map go_group outcomes = gs" and "mset outcomes' = mset outcomes"
  shows "fold resolveGroup outcomes' results = fold resolveGroup outcomes results"
proof -
  have "planned c operations gs" by (rule plan_planned [OF New_clientOk [OF assms(1)] assms(2)])
  then have d: "distinct (map fst (concat (map slots outcomes)))"
    using slots_indexes [of outcomes] assms(3) by (simp add: planned_def)
  have "mset (concat (map slots outcomes)) = mset (concat (map slots outcomes'))"
    by (rule mset_concat_map) (simp add: assms(4))
  from store_slots_perm [OF this d] show ?thesis unfolding resolve_all_slots by simp
qed

definition pairClient :: "(unit, bytes) Client" where
  "pairClient = \<lparr>cl_config = (defaultConfig () rawCodec ''a:1'')\<lparr>cfg_servers := [''a:1'', ''b:2'']\<rparr>,
     cl_servers = [''a:1'', ''b:2''], cl_serverIndexes = None\<rparr>"

lemma pairClient_New: "New () rawCodec ''a:1'' [Some (WithServers [''a:1'', ''b:2''])] = Inr pairClient"
  by (simp add: New_def pairClient_def defaultConfig_def)

definition pairOps :: "operand list" where
  "pairOps = [Struct (DeleteOperation ''j'' zero_MetaDeleteOptions), Struct (DeleteOperation ''k'' zero_MetaDeleteOptions)]"

definition pairPlan :: "batchGroup list" where
  "pairPlan = [
     \<lparr>bg_server = 0,
       bg_items = [demoItem 1 (DeleteOperation ''k'' zero_MetaDeleteOptions) demoDelete 0 11],
       bg_payload = ''md k O1 q'' @ CRLF @ noopCommand\<rparr>,
     \<lparr>bg_server = 1,
       bg_items = [demoItem 0 (DeleteOperation ''j'' zero_MetaDeleteOptions) (demoDelete\<lparr>mc_Key := ''j''\<rparr>) 0 11],
       bg_payload = ''md j O0 q'' @ CRLF @ noopCommand\<rparr>]"

lemma pair_scores:
  "rendezvous_score ''j'' ''a:1'' = 388662870471216235"
  "rendezvous_score ''j'' ''b:2'' = 18195862811659954519"
  by code_simp+

lemma pair_routes: "serverOf pairClient ''k'' = Inr 0" "serverOf pairClient ''j'' = Inr 1"
  by (simp_all add: serverOf_def pairClient_def defaultConfig_def rendezvous_pick_def Let_def
      demo_scores pair_scores)

lemma pair_builds:
  "buildDelete ''k'' zero_MetaDeleteOptions = Inr demoDelete"
  "buildDelete ''j'' zero_MetaDeleteOptions = Inr (demoDelete\<lparr>mc_Key := ''j''\<rparr>)"
  by code_simp+

lemma pair_quiet:
  "marshal (quietCommand (demoItem 1 (DeleteOperation ''k'' zero_MetaDeleteOptions) demoDelete s e)) =
     Inr (''md k O1 q'' @ CRLF)"
  "marshal (quietCommand (demoItem 0 (DeleteOperation ''j'' zero_MetaDeleteOptions)
     (demoDelete\<lparr>mc_Key := ''j''\<rparr>) s e)) = Inr (''md j O0 q'' @ CRLF)"
  by code_simp+

lemma pairPlan_plan: "plan pairClient pairOps = Inr pairPlan"
proof -
  have "prepareAll pairClient 0 pairOps (\<lambda>_. []) = Inr ((\<lambda>_. [])(
      1 := [demoItem 0 (DeleteOperation ''j'' zero_MetaDeleteOptions) (demoDelete\<lparr>mc_Key := ''j''\<rparr>) 0 0],
      0 := [demoItem 1 (DeleteOperation ''k'' zero_MetaDeleteOptions) demoDelete 0 0]))"
    by (simp add: pairOps_def pair_builds pair_routes tooLarge_def demoDelete_def demoItem_def)
  moreover have "length (cl_servers pairClient) = 2" by (simp add: pairClient_def)
  ultimately show ?thesis
    by (simp add: plan_def upt_rec numeral_2_eq_2 pair_quiet [unfolded One_nat_def] pairPlan_def)
      (simp add: demoItem_def)
qed

theorem batch_order_irrelevant_witness:
  "plan pairClient pairOps = Inr pairPlan \<and>
   (let done = map (\<lambda>g. \<lparr>go_group = g, go_responses = [demoReply ResponseNoop []], go_written = 15, go_err = None\<rparr>)
      pairPlan in fold resolveGroup (rev done) (replicate 2 zero_OperationResult) =
        fold resolveGroup done (replicate 2 zero_OperationResult))"
proof -
  let ?done = "map (\<lambda>g. \<lparr>go_group = g, go_responses = [demoReply ResponseNoop []], go_written = 15, go_err = None\<rparr>)
      pairPlan"
  have "map go_group ?done = pairPlan" by (simp add: comp_def)
  from batch_order_irrelevant [OF pairClient_New pairPlan_plan this mset_rev] pairPlan_plan
  show ?thesis by (simp add: Let_def)
qed

text \<open>
  C24: the pipelines of a batch. Every operation is in exactly one group, the one of the
  server its key is routed to, and a group keeps the order of the batch. A group's payload
  is the quiet commands of its items back to back, each occupying exactly the byte range
  recorded for it, followed by one no-op barrier; the ranges decide ambiguity later.
\<close>

theorem batch_pipelines:
  assumes "New dialer jsonCodec server options = Inr c" and "plan c operations = Inr gs"
  shows "distinct (groupIndexes gs) \<and> set (groupIndexes gs) = {0 ..< length operations} \<and>
     list_all (\<lambda>g.
       sorted (map po_index (bg_items g)) \<and>
       list_all (\<lambda>item. normalizeOperation (operations ! po_index item) = Inr (po_op item) \<and>
         prepare (po_op item) = Inr (po_command item) \<and>
         serverOf c (operationKey (po_op item)) = Inr (bg_server g)) (bg_items g) \<and>
       (\<exists>wires. bg_payload g = concat wires @ ''mn'' @ CRLF \<and> framed (bg_items g) wires 0)) gs"
  using plan_planned [OF New_clientOk [OF assms(1)] assms(2)]
  by (auto simp: planned_def list_all_iff itemOf_def)

theorem batch_pipelines_witness:
  "plan pairClient pairOps = Inr pairPlan \<and> distinct (groupIndexes pairPlan) \<and>
   set (groupIndexes pairPlan) = {0 ..< 2}"
proof -
  have "length pairOps = 2" by (simp add: pairOps_def)
  with batch_pipelines [OF pairClient_New pairPlan_plan] pairPlan_plan show ?thesis by simp
qed

end
