(* ===== verification/Verbs.thy ===== *)
theory Verbs
  imports Batch_Results
begin

text \<open>
  The verbs of the client: codec use (\<open>codec.go\<close>), reads (\<open>get.go\<close>), writes
  (\<open>set.go\<close>), deletes (\<open>delete.go\<close>) and counters (\<open>counter.go\<close>), each as one
  function of the client's world with every guard and early return of the source.
\<close>

section \<open>Values\<close>

text \<open>
  A Go value is either of type \<open>[]byte\<close>, which bypasses the codec, or anything else. The
  type argument \<open>T\<close> of a generic verb is the boolean \<open>raw\<close>: whether it is \<open>[]byte\<close>.
\<close>

datatype 'v goval = RawBytes bytes | Object 'v

definition encode :: "('d, 'v) Client \<Rightarrow> 'v goval \<Rightarrow> bytes result" where
  "encode c x =
     (case x of RawBytes b \<Rightarrow> Inr b
      | Object v \<Rightarrow>
          (case cd_Marshal (cfg_codec (cl_config c)) v of
             Inl e \<Rightarrow> Inl (wrapf ''memcache: encoding value: %w'' [] e)
           | Inr data \<Rightarrow> Inr data))"

definition decode :: "('d, 'v) Client \<Rightarrow> bool \<Rightarrow> bytes \<Rightarrow> 'v goval result" where
  "decode c raw data =
     (if raw then Inr (RawBytes data)
      else (case cd_Unmarshal (cfg_codec (cl_config c)) data of
          Inl e \<Rightarrow> Inl (wrapf ''memcache: decoding value: %w'' [] e)
        | Inr v \<Rightarrow> Inr (Object v)))"

section \<open>Reads\<close>

text \<open>\<open>time.Duration(n) * time.Second\<close>.\<close>

definition seconds :: "int \<Rightarrow> duration" where
  "seconds n = wrap64 (n * time_Second)"

definition baseReadOptions :: MetaGetOptions where
  "baseReadOptions = zero_MetaGetOptions\<lparr>mg_ReturnCAS := True, mg_ReturnTTL := True\<rparr>"

text \<open>
  \<open>returnStaleWin\<close> starts a goroutine; \<open>staleWinTask\<close> is what it computes before, and
  \<open>runTask\<close> is the goroutine's body, run when it is scheduled.
\<close>

definition staleWinTask :: "int \<Rightarrow> bytes \<Rightarrow> GetResult \<Rightarrow> task option" where
  "staleWinTask now key result =
     (case (md_CAS (gr_Metadata result), md_TTL (gr_Metadata result)) of
        (Some cas, Some ttl) \<Rightarrow>
          Some (ReturnStaleWin key (zero_MetaDeleteOptions\<lparr>mdo_Invalidate := True, mdo_CompareCAS := Some cas,
            mdo_StaleFor := (if ttl > 0 then Some (ExpiresIn now (seconds ttl)) else None)\<rparr>))
      | _ \<Rightarrow> None)"

definition returnStaleWin :: "'n env \<Rightarrow> bytes \<Rightarrow> GetResult \<Rightarrow> 'n world \<Rightarrow> 'n world" where
  "returnStaleWin env key result w =
     (case staleWinTask (now_w env w) key result of
        None \<Rightarrow> w
      | Some t \<Rightarrow> w\<lparr>w_tasks := w_tasks w @ [t]\<rparr>)"

fun runTask :: "'n env \<Rightarrow> ('d, 'v) Client \<Rightarrow> task \<Rightarrow> 'n world \<Rightarrow> 'n world" where
  "runTask env c (ReturnStaleWin key o1) w =
     (let (err, w') = (case buildDelete key o1 of
            Inl e \<Rightarrow> (Some e, w)
          | Inr command \<Rightarrow>
              (case executeMeta env c RootCtx command w of
                 (Inl e, w1) \<Rightarrow> (Some e, w1)
               | (Inr r, w1) \<Rightarrow> (None, w1)))
      in reportError c (map_option
           (wrapf ''memcache: returning the stale refresh election for %q: %w'' [FStr key]) err) w')"

abbreviation staleWin :: "GetResult \<Rightarrow> bool" where
  "staleWin r \<equiv> gr_ValueState r = ValueStale \<and> gr_Lease r = LeaseGranted"

text \<open>\<open>executeMeta\<close> followed by \<open>semanticGet\<close>, as several verbs use it.\<close>

definition readWire ::
    "'n env \<Rightarrow> ('d, 'v) Client \<Rightarrow> ctx \<Rightarrow> bytes \<Rightarrow> MetaGetOptions \<Rightarrow> MetaCommand \<Rightarrow> 'n world \<Rightarrow>
       GetResult result \<times> 'n world" where
  "readWire env c ctx key o1 command w =
     after (executeMeta env c ctx command w)
       (\<lambda>wire w1. (case semanticGet key o1 wire of (r, None) \<Rightarrow> Inr r | (r, Some e) \<Rightarrow> Inl e, w1))"

definition missResult :: "bytes \<Rightarrow> GetResult" where
  "missResult key = zero_GetResult\<lparr>gr_Key := key, gr_Status := GetMiss, gr_ValueState := ValueMissing\<rparr>"

definition doGet ::
    "'n env \<Rightarrow> ('d, 'v) Client \<Rightarrow> ctx \<Rightarrow> bytes \<Rightarrow> MetaGetOptions \<Rightarrow> 'n world \<Rightarrow> GetResult result \<times> 'n world" where
  "doGet env c ctx key o1 w =
     (case buildGet key o1 of
        Inl e \<Rightarrow> (Inl e, w)
      | Inr command \<Rightarrow>
          (case readWire env c ctx key o1 command w of
             (Inr result, w1) \<Rightarrow>
               (Inr result, if staleWin result then returnStaleWin env key result w1 else w1)
           | (Inl e, w1) \<Rightarrow>
               (case absorb env c ctx (Some e) w1 of
                  (True, w2) \<Rightarrow> (Inr (missResult key), w2)
                | (False, w2) \<Rightarrow> (Inl e, w2))))"

fun applyGetOptions :: "GetOption option list \<Rightarrow> callPolicy \<Rightarrow> callPolicy result" where
  "applyGetOptions [] p = Inr p"
| "applyGetOptions (None # opts) p = Inl ErrNilOption"
| "applyGetOptions (Some opt # opts) p = applyGetOptions opts (applyGet opt p)"

definition policyReadOptions :: "int \<Rightarrow> callPolicy \<Rightarrow> MetaGetOptions result" where
  "policyReadOptions now policy =
     (case cp_touch policy of
        None \<Rightarrow> Inr baseReadOptions
      | Some ttl \<Rightarrow>
          and_then (resolveTTL now ttl) (\<lambda>expiration. Inr (baseReadOptions\<lparr>mg_Touch := Some expiration\<rparr>)))"

definition readPolicy :: "('d, 'v) Client \<Rightarrow> int \<Rightarrow> GetOption option list \<Rightarrow> MetaGetOptions result" where
  "readPolicy c now opts =
     and_then (applyGetOptions opts (configPolicy (cl_config c))) (policyReadOptions now)"

text \<open>\<open>Get\<close>: \<open>None\<close> is the answer \<open>(zero, false, nil)\<close>.\<close>

definition Get ::
    "'n env \<Rightarrow> ('d, 'v) Client \<Rightarrow> ctx \<Rightarrow> bool \<Rightarrow> bytes \<Rightarrow> GetOption option list \<Rightarrow> 'n world \<Rightarrow>
       'v goval option result \<times> 'n world" where
  "Get env c ctx raw key opts w =
     (case readPolicy c (now_w env w) opts of
        Inl e \<Rightarrow> (Inl e, w)
      | Inr read \<Rightarrow>
          after (doGet env c ctx key read w) (\<lambda>result w1.
            (if gr_Status result \<noteq> GetHit \<or> gr_Value result = [] then Inr None
             else and_then (decode c raw (gr_Value result)) (\<lambda>x. Inr (Some x)), w1)))"

text \<open>The loop of \<open>GetMany\<close> over the results, with the map found so far and the first error.\<close>

fun getManyLoop ::
    "'n env \<Rightarrow> ('d, 'v) Client \<Rightarrow> ctx \<Rightarrow> bool \<Rightarrow> (bytes \<times> OperationResult) list \<Rightarrow>
       (bytes \<rightharpoonup> 'v goval) \<Rightarrow> goerr option \<Rightarrow> 'n world \<Rightarrow>
       ((bytes \<rightharpoonup> 'v goval) \<times> goerr option) \<times> 'n world" where
  "getManyLoop env c ctx raw [] found firstErr w = ((found, firstErr), w)"
| "getManyLoop env c ctx raw ((key, r) # rs) found firstErr w =
     (case or_Err r of
        Some e \<Rightarrow>
          (let (absorbed, w1) = absorb env c ctx (Some e) w
           in getManyLoop env c ctx raw rs found
                (if \<not> absorbed \<and> firstErr = None then Some e else firstErr) w1)
      | None \<Rightarrow>
          (case or_Get r of
             None \<Rightarrow> getManyLoop env c ctx raw rs found firstErr w
           | Some g \<Rightarrow>
               if \<not> Hit g then getManyLoop env c ctx raw rs found firstErr w
               else
                 let w1 = (if staleWin g then returnStaleWin env key g w else w) in
                 if gr_Value g = [] then getManyLoop env c ctx raw rs found firstErr w1
                 else (case decode c raw (gr_Value g) of
                     Inl e \<Rightarrow> getManyLoop env c ctx raw rs found
                       (if firstErr = None then Some (wrapf ''memcache: %q: %w'' [FStr key] e) else firstErr) w1
                   | Inr x \<Rightarrow> getManyLoop env c ctx raw rs (found(key \<mapsto> x)) firstErr w1)))"

definition GetMany ::
    "'n env \<Rightarrow> ('d, 'v) Client \<Rightarrow> ctx \<Rightarrow> bool \<Rightarrow> bytes list \<Rightarrow> GetOption option list \<Rightarrow> 'n world \<Rightarrow>
       ((bytes \<rightharpoonup> 'v goval) \<times> goerr option) \<times> 'n world" where
  "GetMany env c ctx raw keys opts w =
     (case readPolicy c (now_w env w) opts of
        Inl e \<Rightarrow> ((Map.empty, Some e), w)
      | Inr read \<Rightarrow>
          (case batch env c ctx (map (\<lambda>key. Struct (GetOperation key read)) keys) w of
             (Inl e, w1) \<Rightarrow> ((Map.empty, Some e), w1)
           | (Inr results, w1) \<Rightarrow> getManyLoop env c ctx raw (zip keys results) Map.empty None w1))"

definition Touch ::
    "'n env \<Rightarrow> ('d, 'v) Client \<Rightarrow> ctx \<Rightarrow> bytes \<Rightarrow> duration \<Rightarrow> 'n world \<Rightarrow> unit result \<times> 'n world" where
  "Touch env c ctx key ttl w =
     (case resolveTTL (now_w env w) ttl of
        Inl e \<Rightarrow> (Inl e, w)
      | Inr expiration \<Rightarrow>
          after (doGet env c ctx key
              (baseReadOptions\<lparr>mg_MetadataOnly := True, mg_Touch := Some expiration\<rparr>) w)
            (\<lambda>r w1. (Inr (), w1)))"

record ItemInfo =
  ii_TTL :: duration
  ii_Size :: int
  ii_LastAccess :: duration
  ii_HitBefore :: bool

definition itemInfo :: "Metadata \<Rightarrow> ItemInfo" where
  "itemInfo m = \<lparr>
     ii_TTL = (case md_TTL m of None \<Rightarrow> 0 | Some t \<Rightarrow> seconds t),
     ii_Size = (case md_Size m of None \<Rightarrow> 0 | Some n \<Rightarrow> sint n),
     ii_LastAccess = (case md_LastAccess m of None \<Rightarrow> 0 | Some n \<Rightarrow> seconds (sint n)),
     ii_HitBefore = (case md_HitBefore m of None \<Rightarrow> False | Some b \<Rightarrow> b)\<rparr>"

definition Inspect ::
    "'n env \<Rightarrow> ('d, 'v) Client \<Rightarrow> ctx \<Rightarrow> bytes \<Rightarrow> 'n world \<Rightarrow> ItemInfo option result \<times> 'n world" where
  "Inspect env c ctx key w =
     after (doGet env c ctx key
         (zero_MetaGetOptions\<lparr>mg_MetadataOnly := True, mg_ReturnCAS := True, mg_ReturnTTL := True,
            mg_ReturnSize := True, mg_ReturnLastAccess := True, mg_ReturnHitBefore := True,
            mg_NoLRUBump := True\<rparr>) w)
       (\<lambda>r w1. (Inr (if gr_Status r \<noteq> GetHit then None else Some (itemInfo (gr_Metadata r))), w1))"

end
