(* ===== verification/Writes.thy ===== *)
theory Writes
  imports Verbs
begin

text \<open>
  The mutating verbs: stores (\<open>set.go\<close>), deletes and invalidation (\<open>delete.go\<close>), counters
  (\<open>counter.go\<close>) and the optimistic loops of \<open>update.go\<close>.
\<close>

section \<open>Stores\<close>

definition doSet ::
    "'n env \<Rightarrow> ('d, 'v) Client \<Rightarrow> ctx \<Rightarrow> bytes \<Rightarrow> bytes \<Rightarrow> MetaSetOptions \<Rightarrow> 'n world \<Rightarrow>
       MutationStatus result \<times> 'n world" where
  "doSet env c ctx key val o1 w =
     (case buildSet key val o1 of
        Inl e \<Rightarrow> (Inl e, w)
      | Inr command \<Rightarrow>
          after (executeMeta env c ctx command w) (\<lambda>wire w1.
            (case storeStatus (raw_Code wire) (ms_Mode o1) of
               (status, None) \<Rightarrow> Inr status
             | (status, Some e) \<Rightarrow> Inl e, w1)))"

text \<open>The end of a blind write: absorbed errors become success.\<close>

definition degraded ::
    "'n env \<Rightarrow> ('d, 'v) Client \<Rightarrow> ctx \<Rightarrow> 'a result \<times> 'n world \<Rightarrow> ('a \<Rightarrow> unit result) \<Rightarrow>
       unit result \<times> 'n world" where
  "degraded env c ctx out finish =
     (case out of
        (Inr x, w1) \<Rightarrow> (finish x, w1)
      | (Inl e, w1) \<Rightarrow>
          (case absorb env c ctx (Some e) w1 of
             (True, w2) \<Rightarrow> (Inr (), w2)
           | (False, w2) \<Rightarrow> (Inl e, w2)))"

definition encoded ::
    "('d, 'v) Client \<Rightarrow> int \<Rightarrow> duration \<Rightarrow> 'v goval \<Rightarrow> (expiration \<times> bytes) result" where
  "encoded c now ttl x =
     and_then (resolveTTL now ttl) (\<lambda>expiration.
     and_then (encode c x) (\<lambda>data.
       if data = [] then Inl ErrEmptyValue else Inr (expiration, data)))"

definition Set_verb ::
    "'n env \<Rightarrow> ('d, 'v) Client \<Rightarrow> ctx \<Rightarrow> bytes \<Rightarrow> 'v goval \<Rightarrow> duration \<Rightarrow> 'n world \<Rightarrow> unit result \<times> 'n world" where
  "Set_verb env c ctx key x ttl w =
     (case encoded c (now_w env w) ttl x of
        Inl e \<Rightarrow> (Inl e, w)
      | Inr (expiration, data) \<Rightarrow>
          degraded env c ctx (doSet env c ctx key data (zero_MetaSetOptions\<lparr>ms_TTL := expiration\<rparr>) w)
            (\<lambda>status. if status \<noteq> MutationApplied
                      then Inl (errorf ''memcache: set of %q was not stored'' [FStr key]) else Inr ()))"

text \<open>
  \<open>SetMany\<close> ranges over a map; \<open>pairs\<close> is the map's content in the order the loop meets it.
\<close>

fun setOperations ::
    "('d, 'v) Client \<Rightarrow> expiration \<Rightarrow> (bytes \<times> 'v goval) list \<Rightarrow> operand list result" where
  "setOperations c expiration [] = Inr []"
| "setOperations c expiration ((key, x) # rest) =
     (case encode c x of
        Inl e \<Rightarrow> Inl (wrapf ''memcache: value for %q: %w'' [FStr key] e)
      | Inr data \<Rightarrow>
          if data = [] then Inl (wrapf ''memcache: value for %q: %w'' [FStr key] ErrEmptyValue)
          else and_then (setOperations c expiration rest) (\<lambda>ops.
            Inr (Struct (SetOperation key data (zero_MetaSetOptions\<lparr>ms_TTL := expiration\<rparr>)) # ops)))"

text \<open>The loop that turns the results of a blind batch into one error.\<close>

fun firstError ::
    "'n env \<Rightarrow> ('d, 'v) Client \<Rightarrow> ctx \<Rightarrow> OperationResult list \<Rightarrow> goerr option \<Rightarrow> 'n world \<Rightarrow>
       goerr option \<times> 'n world" where
  "firstError env c ctx [] firstErr w = (firstErr, w)"
| "firstError env c ctx (r # rs) firstErr w =
     (case or_Err r of
        None \<Rightarrow> firstError env c ctx rs firstErr w
      | Some e \<Rightarrow>
          (let (absorbed, w1) = absorb env c ctx (Some e) w
           in firstError env c ctx rs (if \<not> absorbed \<and> firstErr = None then Some e else firstErr) w1))"

definition blindBatch ::
    "'n env \<Rightarrow> ('d, 'v) Client \<Rightarrow> ctx \<Rightarrow> operand list \<Rightarrow> 'n world \<Rightarrow> unit result \<times> 'n world" where
  "blindBatch env c ctx operations w =
     after (batch env c ctx operations w) (\<lambda>results w1.
       (case firstError env c ctx results None w1 of
          (None, w2) \<Rightarrow> (Inr (), w2)
        | (Some e, w2) \<Rightarrow> (Inl e, w2)))"

definition SetMany ::
    "'n env \<Rightarrow> ('d, 'v) Client \<Rightarrow> ctx \<Rightarrow> (bytes \<times> 'v goval) list \<Rightarrow> duration \<Rightarrow> 'n world \<Rightarrow>
       unit result \<times> 'n world" where
  "SetMany env c ctx pairs ttl w =
     (case and_then (resolveTTL (now_w env w) ttl) (\<lambda>expiration. setOperations c expiration pairs) of
        Inl e \<Rightarrow> (Inl e, w)
      | Inr operations \<Rightarrow> blindBatch env c ctx operations w)"

text \<open>\<open>Add\<close> and \<open>Replace\<close> are the same code with their mode.\<close>

definition storeIf ::
    "StoreMode \<Rightarrow> 'n env \<Rightarrow> ('d, 'v) Client \<Rightarrow> ctx \<Rightarrow> bytes \<Rightarrow> 'v goval \<Rightarrow> duration \<Rightarrow> 'n world \<Rightarrow>
       bool result \<times> 'n world" where
  "storeIf mode env c ctx key x ttl w =
     (case encoded c (now_w env w) ttl x of
        Inl e \<Rightarrow> (Inl e, w)
      | Inr (expiration, data) \<Rightarrow>
          after (doSet env c ctx key data (zero_MetaSetOptions\<lparr>ms_TTL := expiration, ms_Mode := mode\<rparr>) w)
            (\<lambda>status w1. (Inr (status = MutationApplied), w1)))"

definition Add ::
    "'n env \<Rightarrow> ('d, 'v) Client \<Rightarrow> ctx \<Rightarrow> bytes \<Rightarrow> 'v goval \<Rightarrow> duration \<Rightarrow> 'n world \<Rightarrow> bool result \<times> 'n world" where
  "Add = storeIf ModeAdd"

definition Replace ::
    "'n env \<Rightarrow> ('d, 'v) Client \<Rightarrow> ctx \<Rightarrow> bytes \<Rightarrow> 'v goval \<Rightarrow> duration \<Rightarrow> 'n world \<Rightarrow> bool result \<times> 'n world" where
  "Replace = storeIf ModeReplace"

definition concat_verb ::
    "'n env \<Rightarrow> ('d, 'v) Client \<Rightarrow> ctx \<Rightarrow> bytes \<Rightarrow> bytes \<Rightarrow> StoreMode \<Rightarrow> duration \<Rightarrow> 'n world \<Rightarrow>
       unit result \<times> 'n world" where
  "concat_verb env c ctx key fragment mode ttl w =
     (case resolveTTL (now_w env w) ttl of
        Inl e \<Rightarrow> (Inl e, w)
      | Inr expiration \<Rightarrow>
          if fragment = [] then (Inl ErrEmptyValue, w)
          else degraded env c ctx
            (doSet env c ctx key fragment
               (zero_MetaSetOptions\<lparr>ms_Mode := mode, ms_VivifyTTL := Some expiration\<rparr>) w)
            (\<lambda>status. if status \<noteq> MutationApplied then Inl ErrNotStored else Inr ()))"

definition Append ::
    "'n env \<Rightarrow> ('d, 'v) Client \<Rightarrow> ctx \<Rightarrow> bytes \<Rightarrow> bytes \<Rightarrow> duration \<Rightarrow> 'n world \<Rightarrow> unit result \<times> 'n world" where
  "Append env c ctx key fragment ttl w = concat_verb env c ctx key fragment ModeAppend ttl w"

definition Prepend ::
    "'n env \<Rightarrow> ('d, 'v) Client \<Rightarrow> ctx \<Rightarrow> bytes \<Rightarrow> bytes \<Rightarrow> duration \<Rightarrow> 'n world \<Rightarrow> unit result \<times> 'n world" where
  "Prepend env c ctx key fragment ttl w = concat_verb env c ctx key fragment ModePrepend ttl w"

section \<open>Deletes\<close>

definition Delete ::
    "'n env \<Rightarrow> ('d, 'v) Client \<Rightarrow> ctx \<Rightarrow> bytes \<Rightarrow> 'n world \<Rightarrow> unit result \<times> 'n world" where
  "Delete env c ctx key w =
     (case buildDelete key zero_MetaDeleteOptions of
        Inl e \<Rightarrow> (Inl e, w)
      | Inr command \<Rightarrow>
          degraded env c ctx (executeMeta env c ctx command w)
            (\<lambda>wire. case deleteStatus (raw_Code wire) of
               (status, Some e) \<Rightarrow> Inl e
             | (status, None) \<Rightarrow>
                 if status \<noteq> MutationApplied \<and> status \<noteq> MutationNotFound
                 then Inl (errorf ''memcache: delete of %q was not applied'' [FStr key]) else Inr ()))"

definition DeleteMany ::
    "'n env \<Rightarrow> ('d, 'v) Client \<Rightarrow> ctx \<Rightarrow> bytes list \<Rightarrow> 'n world \<Rightarrow> unit result \<times> 'n world" where
  "DeleteMany env c ctx keys w =
     blindBatch env c ctx (map (\<lambda>key. Struct (DeleteOperation key zero_MetaDeleteOptions)) keys) w"

definition Invalidate ::
    "'n env \<Rightarrow> ('d, 'v) Client \<Rightarrow> ctx \<Rightarrow> bytes \<Rightarrow> duration \<Rightarrow> 'n world \<Rightarrow> unit result \<times> 'n world" where
  "Invalidate env c ctx key grace w =
     (if grace \<le> 0 then (Inl (errorf ''memcache: Invalidate grace must be positive'' []), w)
      else (case buildDelete key (zero_MetaDeleteOptions\<lparr>mdo_Invalidate := True,
                mdo_StaleFor := Some (ExpiresIn (now_w env w) grace)\<rparr>) of
          Inl e \<Rightarrow> (Inl e, w)
        | Inr command \<Rightarrow>
            degraded env c ctx (executeMeta env c ctx command w)
              (\<lambda>wire. case snd (deleteStatus (raw_Code wire)) of Some e \<Rightarrow> Inl e | None \<Rightarrow> Inr ())))"

section \<open>Counters\<close>

definition counter ::
    "'n env \<Rightarrow> ('d, 'v) Client \<Rightarrow> ctx \<Rightarrow> bytes \<Rightarrow> 64 word \<Rightarrow> bool \<Rightarrow> duration \<Rightarrow> 'n world \<Rightarrow>
       (64 word) result \<times> 'n world" where
  "counter env c ctx key delta decrement ttl w =
     (case resolveTTL (now_w env w) ttl of
        Inl e \<Rightarrow> (Inl e, w)
      | Inr expiration \<Rightarrow>
          (let initial = (if decrement then 0 else delta);
               arithmetic = zero_MetaArithmeticOptions\<lparr>ma_Delta := delta, ma_Decrement := decrement,
                 ma_Initial := Some initial, ma_InitialTTL := Some expiration\<rparr>
           in case buildArithmetic key arithmetic of
                Inl e \<Rightarrow> (Inl e, w)
              | Inr command \<Rightarrow>
                  after (executeMeta env c ctx command w) (\<lambda>wire w1.
                    (case semanticArithmetic key arithmetic wire of
                       (r, Some e) \<Rightarrow> Inl e
                     | (r, None) \<Rightarrow>
                         if \<not> ar_HasValue r
                         then Inl (errorf ''memcache: counter %q was not updated'' [FStr key])
                         else Inr (ar_Value r), w1))))"

definition Incr ::
    "'n env \<Rightarrow> ('d, 'v) Client \<Rightarrow> ctx \<Rightarrow> bytes \<Rightarrow> 64 word \<Rightarrow> duration \<Rightarrow> 'n world \<Rightarrow> (64 word) result \<times> 'n world" where
  "Incr env c ctx key delta ttl w = counter env c ctx key delta False ttl w"

definition Decr ::
    "'n env \<Rightarrow> ('d, 'v) Client \<Rightarrow> ctx \<Rightarrow> bytes \<Rightarrow> 64 word \<Rightarrow> duration \<Rightarrow> 'n world \<Rightarrow> (64 word) result \<times> 'n world" where
  "Decr env c ctx key delta ttl w = counter env c ctx key delta True ttl w"

section \<open>Optimistic loops\<close>

definition updateAttempts :: nat where
  "updateAttempts = 8"

text \<open>
  The caller's transform works on stored bytes; \<open>'s\<close> is what its closure remembers between
  calls (\<open>Update\<close> keeps the value of the last call there). \<open>current\<close> is \<open>None\<close> for a miss.
\<close>

type_synonym 's transform = "bytes option \<Rightarrow> 's \<Rightarrow> bytes result \<times> 's"

definition currentOf :: "GetResult \<Rightarrow> bytes option" where
  "currentOf r =
     (if gr_Status r = GetHit \<and> gr_ValueState r = ValueFresh \<and> gr_Value r \<noteq> []
      then Some (gr_Value r) else None)"

definition writeOptions :: "expiration \<Rightarrow> GetResult \<Rightarrow> MetaSetOptions" where
  "writeOptions expiration r =
     (case (if gr_Status r = GetHit then md_CAS (gr_Metadata r) else None) of
        Some cas \<Rightarrow> zero_MetaSetOptions\<lparr>ms_TTL := expiration, ms_CompareCAS := Some cas\<rparr>
      | None \<Rightarrow> zero_MetaSetOptions\<lparr>ms_TTL := expiration, ms_Mode := ModeAdd\<rparr>)"

fun updateLoop ::
    "'n env \<Rightarrow> ('d, 'v) Client \<Rightarrow> ctx \<Rightarrow> bytes \<Rightarrow> expiration \<Rightarrow> 's transform \<Rightarrow> nat \<Rightarrow> 's \<Rightarrow> 'n world \<Rightarrow>
       (bytes \<times> 's) result \<times> 'n world" where
  "updateLoop env c ctx key expiration fn 0 s w = (Inl ErrConflict, w)"
| "updateLoop env c ctx key expiration fn (Suc n) s w =
     (case buildGet key baseReadOptions of
        Inl e \<Rightarrow> (Inl e, w)
      | Inr command \<Rightarrow>
          (case readWire env c ctx key baseReadOptions command w of
             (Inl e, w1) \<Rightarrow> (Inl e, w1)
           | (Inr result, w1) \<Rightarrow>
               (let giveBack = (if staleWin result then returnStaleWin env key result w1 else w1) in
                (case fn (currentOf result) s of
                   (Inl e, s1) \<Rightarrow> (Inl e, giveBack)
                 | (Inr data, s1) \<Rightarrow>
                     if data = [] then (Inl ErrEmptyValue, giveBack)
                     else (case doSet env c ctx key data (writeOptions expiration result) w1 of
                         (Inl e, w2) \<Rightarrow> (Inl e, w2)
                       | (Inr status, w2) \<Rightarrow>
                           if status = MutationApplied then (Inr (data, s1), w2)
                           else updateLoop env c ctx key expiration fn n s1 w2)))))"

definition update_bytes ::
    "'n env \<Rightarrow> ('d, 'v) Client \<Rightarrow> ctx \<Rightarrow> bytes \<Rightarrow> duration \<Rightarrow> 's transform \<Rightarrow> 's \<Rightarrow> 'n world \<Rightarrow>
       (bytes \<times> 's) result \<times> 'n world" where
  "update_bytes env c ctx key ttl fn s w =
     (case resolveTTL (now_w env w) ttl of
        Inl e \<Rightarrow> (Inl e, w)
      | Inr expiration \<Rightarrow> updateLoop env c ctx key expiration fn updateAttempts s w)"

text \<open>
  The closure \<open>Update\<close> passes: decode, apply the caller's function, remember its result,
  encode. The caller's function is nil or a pure function of the current value, if any.
\<close>

definition updateTransform ::
    "('d, 'v) Client \<Rightarrow> bool \<Rightarrow> ('v goval option \<Rightarrow> 'v goval result) \<Rightarrow> 'v goval option transform" where
  "updateTransform c raw fn current s =
     (case (case current of None \<Rightarrow> Inr None
            | Some b \<Rightarrow> and_then (decode c raw b) (\<lambda>x. Inr (Some x))) of
        Inl e \<Rightarrow> (Inl e, s)
      | Inr x \<Rightarrow>
          (case fn x of
             Inl e \<Rightarrow> (Inl e, s)
           | Inr y \<Rightarrow> (encode c y, Some y)))"

definition Update ::
    "'n env \<Rightarrow> ('d, 'v) Client \<Rightarrow> ctx \<Rightarrow> bool \<Rightarrow> bytes \<Rightarrow> duration \<Rightarrow>
       ('v goval option \<Rightarrow> 'v goval result) option \<Rightarrow> 'n world \<Rightarrow> 'v goval option result \<times> 'n world" where
  "Update env c ctx raw key ttl fn w =
     (case fn of
        None \<Rightarrow> (Inl (errorf ''memcache: Update requires a transform function'' []), w)
      | Some f \<Rightarrow>
          after (update_bytes env c ctx key ttl (updateTransform c raw f) None w)
            (\<lambda>(data, stored) w1. (Inr stored, w1)))"

fun takeLoop ::
    "'n env \<Rightarrow> ('d, 'v) Client \<Rightarrow> ctx \<Rightarrow> bytes \<Rightarrow> nat \<Rightarrow> 'n world \<Rightarrow> bytes option result \<times> 'n world" where
  "takeLoop env c ctx key 0 w = (Inl ErrConflict, w)"
| "takeLoop env c ctx key (Suc n) w =
     (case buildGet key baseReadOptions of
        Inl e \<Rightarrow> (Inl e, w)
      | Inr command \<Rightarrow>
          (case readWire env c ctx key baseReadOptions command w of
             (Inl e, w1) \<Rightarrow> (Inl e, w1)
           | (Inr result, w1) \<Rightarrow>
               if gr_Status result \<noteq> GetHit \<or> gr_Value result = []
               then (Inr None, if staleWin result then returnStaleWin env key result w1 else w1)
               else (case md_CAS (gr_Metadata result) of
                   None \<Rightarrow> (Inl (ProtocolError ''value read omitted requested CAS'' []), w1)
                 | Some cas \<Rightarrow>
                     (case buildDelete key (zero_MetaDeleteOptions\<lparr>mdo_CompareCAS := Some cas\<rparr>) of
                        Inl e \<Rightarrow> (Inl e, w1)
                      | Inr command2 \<Rightarrow>
                          (case executeMeta env c ctx command2 w1 of
                             (Inl e, w2) \<Rightarrow> (Inl e, w2)
                           | (Inr wire, w2) \<Rightarrow>
                               (case deleteStatus (raw_Code wire) of
                                  (status, Some e) \<Rightarrow> (Inl e, w2)
                                | (status, None) \<Rightarrow>
                                    if status = MutationApplied then (Inr (Some (gr_Value result)), w2)
                                    else takeLoop env c ctx key n w2))))))"

definition Take ::
    "'n env \<Rightarrow> ('d, 'v) Client \<Rightarrow> ctx \<Rightarrow> bytes \<Rightarrow> 'n world \<Rightarrow> bytes option result \<times> 'n world" where
  "Take env c ctx key w = takeLoop env c ctx key updateAttempts w"

end
