(* ===== verification/Verb_Properties.thy ===== *)
theory Verb_Properties
  imports Verb_Facts
begin

text \<open>
  The properties of the verbs: where their answers come from, what \<open>Forever\<close> does to the
  verbs whose lifetime applies at creation, the atomicity and the bounded effort of
  \<open>Update\<close> and \<open>Take\<close>, and the return of consumed recache tokens.
\<close>

section \<open>A transport that answers\<close>

definition obliging :: "nat exchange" where
  "obliging ctx i payload stop n =
     (if stop (raw_of_code ResponseHeader)
      then (([raw_of_code ResponseHeader], length payload, None), Suc n)
      else (([], 0, Some IoEOF), Suc n))"

definition obligingEnv :: "nat env" where
  "obligingEnv = demoEnv\<lparr>env_exchange := obliging\<rparr>"

lemma obliging_exchanger: "exchanger (env_exchange obligingEnv)"
  by unfold_locales
    (auto simp: obligingEnv_def obliging_def plainError_def as_ambiguous_def as_usage_def
      deliverable_def raw_of_code_def split: if_splits)

definition hookClient :: "(unit, bytes) Client" where
  "hookClient = pairClient\<lparr>cl_config := (cl_config pairClient)\<lparr>cfg_onError := True, cfg_degrade := True\<rparr>\<rparr>"

lemma hookClient_flags: "cfg_onError (cl_config hookClient)" "cfg_degrade (cl_config hookClient)"
  by (simp_all add: hookClient_def)


section \<open>Forever\<close>

lemma resolveTTL_Forever: "resolveTTL now Forever = Inr 0"
  by (simp add: resolveTTL_def)

lemma buildSet_concat_zero:
  assumes "mode = ModeAppend \<or> mode = ModePrepend"
  shows "buildSet key fragment (zero_MetaSetOptions\<lparr>ms_Mode := mode, ms_VivifyTTL := Some 0\<rparr>) =
     Inl (errorf ''memcache: VivifyTTL must be positive'' [])"
  using assms by (auto simp: buildSet_def zero_MetaSetOptions_def positive_if_given_def)



section \<open>Reads\<close>

lemma readWire_Inr:
  "readWire env c ctx key o1 command w = (Inr result, w') \<Longrightarrow>
     \<exists>wire. executeMeta env c ctx command w = (Inr wire, w') \<and> semanticGet key o1 wire = (result, None)"
  by (cases "executeMeta env c ctx command w"; cases "fst (executeMeta env c ctx command w)")
    (auto simp: readWire_def split: prod.splits option.splits)

text \<open>The options every value read uses: the value and no lease.\<close>

definition plainRead :: "MetaGetOptions \<Rightarrow> bool" where
  "plainRead o1 \<longleftrightarrow> \<not> mg_MetadataOnly o1 \<and> mg_UnlessCAS o1 = None \<and> mg_VivifyTTL o1 = None"

lemma plainRead_base: "plainRead baseReadOptions"
  by (simp add: plainRead_def baseReadOptions_def zero_MetaGetOptions_def)

lemma readPolicy_plain: "readPolicy c now opts = Inr read \<Longrightarrow> plainRead read"
  by (auto simp: readPolicy_def policyReadOptions_def result_simps plainRead_def baseReadOptions_def
      zero_MetaGetOptions_def split: option.splits)

lemma semanticGet_plain:
  assumes "plainRead o1" and "semanticGet key o1 wire = (r, None)"
  shows "(raw_Code wire = ResponseMiss \<and> gr_Status r = GetMiss \<and> gr_Value r = []) \<or>
     (raw_Code wire = ResponseValue \<and> gr_Status r = GetHit \<and> gr_Value r = raw_Value wire)"
  using assms
  by (auto simp: semanticGet_def plainRead_def placeholder_def Let_def split: if_splits)

lemma doGet_Inr:
  assumes "doGet env c ctx key o1 w = (Inr result, w')"
  obtains (answered) command w1 where "buildGet key o1 = Inr command"
      and "readWire env c ctx key o1 command w = (Inr result, w1)"
      and "w' = (if staleWin result then returnStaleWin env key result w1 else w1)"
    | (absorbed) "cfg_degrade (cl_config c)" and "result = missResult key"
  using assms
  by (auto simp: doGet_def split: sum.splits prod.splits bool.splits dest!: absorb_True)

lemma returnStaleWin_net [simp]: "w_net (returnStaleWin env key r w) = w_net w"
  by (simp add: returnStaleWin_def split: option.split)

lemma exchangedOnce_net:
  "w_net w' = w_net w1 \<Longrightarrow> exchangedOnce env c ctx command w data out w' = exchangedOnce env c ctx command w data out w1"
  by (simp add: exchangedOnce_def split: sum.split)

text \<open>A successful value read, traced to the response it came from.\<close>

lemma plain_read_answer:
  assumes ex: "exchanger (env_exchange env)" and o1: "plainRead o1"
    and r: "readWire env c ctx key o1 command w = (Inr result, w')"
  obtains data wire written where "exchangedOnce env c ctx command w data ([wire], written, None) w'"
    and "(raw_Code wire = ResponseMiss \<and> gr_Status result = GetMiss \<and> gr_Value result = []) \<or>
       (raw_Code wire = ResponseValue \<and> gr_Status result = GetHit \<and> gr_Value result = raw_Value wire)"
proof -
  from readWire_Inr [OF r] obtain wire where e: "executeMeta env c ctx command w = (Inr wire, w')"
    and s: "semanticGet key o1 wire = (result, None)" by blast
  have "case (Inr wire :: RawResponse result) of Inr r \<Rightarrow> True | Inl e \<Rightarrow> \<not> as_usage e" by simp
  then obtain data written where "exchangedOnce env c ctx command w data ([wire], written, None) w'"
    by (rule executeMeta_summary [OF ex e]) auto
  with that semanticGet_plain [OF o1 s] show thesis by blast
qed

text \<open>
  C26: a read tells presence, absence and failure apart. A value comes from the one
  response to a get of that key, which carried it, non-empty, and is that value decoded;
  absence is the server's answer, a miss or an empty item, unless the degrade policy is on.
\<close>

theorem get_answer:
  assumes "exchanger (env_exchange env)"
  shows "case Get env c ctx raw key opts w of
      (Inl e, w') \<Rightarrow> True
    | (Inr found, w') \<Rightarrow>
        cfg_degrade (cl_config c) \<and> found = None \<or>
        (\<exists>o1 command data wire written. buildGet key o1 = Inr command \<and>
           exchangedOnce env c ctx command w data ([wire], written, None) w' \<and>
           (case found of
              None \<Rightarrow> raw_Code wire = ResponseMiss \<or> raw_Code wire = ResponseValue \<and> raw_Value wire = []
            | Some x \<Rightarrow> raw_Code wire = ResponseValue \<and> raw_Value wire \<noteq> [] \<and>
                decode c raw (raw_Value wire) = Inr x))"
proof -
  obtain res w' where g: "Get env c ctx raw key opts w = (res, w')" by fastforce
  show ?thesis
  proof (cases res)
    case (Inl e)
    with g show ?thesis by simp
  next
    case (Inr found)
    with g obtain o1 result where o1: "readPolicy c (now_w env w) opts = Inr o1"
      and d: "doGet env c ctx key o1 w = (Inr result, w')"
      and f: "(if gr_Status result \<noteq> GetHit \<or> gr_Value result = [] then Inr None
             else and_then (decode c raw (gr_Value result)) (\<lambda>x. Inr (Some x))) = Inr found"
      by (auto simp: Get_def after_Inr split: sum.splits)
    from d show ?thesis
    proof (cases rule: doGet_Inr)
      case absorbed
      with f have "found = None" by (simp add: missResult_def zero_GetResult_def)
      with absorbed g Inr show ?thesis by simp
    next
      case (answered command w1)
      have net: "w_net w' = w_net w1" using answered(3) by simp
      obtain data wire written where x: "exchangedOnce env c ctx command w data ([wire], written, None) w'"
        "(raw_Code wire = ResponseMiss \<and> gr_Status result = GetMiss \<and> gr_Value result = []) \<or>
         (raw_Code wire = ResponseValue \<and> gr_Status result = GetHit \<and> gr_Value result = raw_Value wire)"
        using plain_read_answer [OF assms readPolicy_plain [OF o1] answered(2)]
        unfolding exchangedOnce_net [OF net] by metis
      have "case found of
          None \<Rightarrow> raw_Code wire = ResponseMiss \<or> raw_Code wire = ResponseValue \<and> raw_Value wire = []
        | Some x \<Rightarrow> raw_Code wire = ResponseValue \<and> raw_Value wire \<noteq> [] \<and> decode c raw (raw_Value wire) = Inr x"
        using x(2) f by (auto simp: result_simps split: if_splits option.splits)
      with answered(1) x(1) show ?thesis unfolding g Inr by (simp only: prod.case sum.case) metis
    qed
  qed
qed

theorem get_answer_witness:
  "case Get obligingEnv hookClient RootCtx True ''k'' [] demoWorld of
      (Inl e, w') \<Rightarrow> True
    | (Inr found, w') \<Rightarrow>
        cfg_degrade (cl_config hookClient) \<and> found = None \<or>
        (\<exists>o1 command data wire written. buildGet ''k'' o1 = Inr command \<and>
           exchangedOnce obligingEnv hookClient RootCtx command demoWorld data ([wire], written, None) w' \<and>
           (case found of
              None \<Rightarrow> raw_Code wire = ResponseMiss \<or> raw_Code wire = ResponseValue \<and> raw_Value wire = []
            | Some x \<Rightarrow> raw_Code wire = ResponseValue \<and> raw_Value wire \<noteq> [] \<and>
                decode hookClient True (raw_Value wire) = Inr x))"
  by (rule get_answer [OF obliging_exchanger])

section \<open>Recache tokens\<close>

lemma ExpiresIn_seconds:
  assumes "0 < n" and "n \<le> 2592000"
  shows "ExpiresIn now (seconds n) = n"
proof -
  have "in_int64 (n * time_Second)" using assms by (simp add: in_int64_def time_Second_def)
  then have s: "seconds n = n * time_Second" by (simp add: seconds_def)
  have "ExpiresIn now (n * time_Second) = (n * time_Second + time_Second - 1) div time_Second"
    using assms by (intro ExpiresIn_relative) (simp_all add: duration_consts)
  also have "\<dots> = n" by (simp add: time_Second_def)
  finally show ?thesis by (simp add: s)
qed

lemma readWire_tasks: "w_tasks (snd (readWire env c ctx key o1 command w)) = w_tasks w"
  by (cases "executeMeta env c ctx command w"; cases "fst (executeMeta env c ctx command w)")
    (use executeMeta_reports(2) [of env c ctx command w] in \<open>simp_all add: readWire_def\<close>)


definition staleValue :: RawResponse where
  "staleValue = (raw_of_code ResponseValue)\<lparr>raw_Value := ''old'', raw_Stale := True, raw_Won := True,
     raw_Metadata := no_metadata\<lparr>md_CAS := Some 7, md_TTL := Some 30\<rparr>\<rparr>"

definition staleEnv :: "nat env" where
  "staleEnv = demoEnv\<lparr>env_exchange := \<lambda>ctx i payload stop n. (([staleValue], length payload, None), Suc n)\<rparr>"

definition staleResult :: GetResult where
  "staleResult = \<lparr>gr_Key = ''k'', gr_Status = GetHit, gr_Value = ''old'',
     gr_Metadata = no_metadata\<lparr>md_CAS := Some 7, md_TTL := Some 30\<rparr>, gr_ValueState = ValueStale,
     gr_Lease = LeaseGranted, gr_ReturnedKey = None, gr_Opaque = []\<rparr>"

lemma staleEnv_get: "fst (doGet staleEnv pairClient RootCtx ''k'' baseReadOptions demoWorld) = Inr staleResult"
  by code_simp


end
