(* ===== verification/Optimistic.thy ===== *)
theory Optimistic
  imports Verb_Properties
begin

text \<open>
  The optimistic loops of \<open>update.go\<close>: what a successful \<open>Update\<close> or \<open>Take\<close> did to the
  item, and that both stop after a bounded number of exchanges.
\<close>

section \<open>The read and the conditional write\<close>

text \<open>
  The write of an attempt: conditional on the version just read when there was an item,
  and on absence otherwise. It is never a blind store.
\<close>

lemma writeOptions_conditional:
  "(ms_CompareCAS (writeOptions expiration r) = md_CAS (gr_Metadata r) \<and> md_CAS (gr_Metadata r) \<noteq> None \<and>
     gr_Status r = GetHit \<and> ms_Mode (writeOptions expiration r) = ModeSet) \<or>
   (ms_CompareCAS (writeOptions expiration r) = None \<and> ms_Mode (writeOptions expiration r) = ModeAdd \<and>
     (gr_Status r = GetHit \<longrightarrow> md_CAS (gr_Metadata r) = None))"
  by (auto simp: writeOptions_def zero_MetaSetOptions_def split: option.split)

definition attempt ::
    "'n env \<Rightarrow> ('d, 'v) Client \<Rightarrow> ctx \<Rightarrow> bytes \<Rightarrow> GetResult \<Rightarrow> 'n world \<Rightarrow> bool" where
  "attempt env c ctx key result w1 \<longleftrightarrow>
     (\<exists>w0. (case buildGet key baseReadOptions of Inl e \<Rightarrow> False
        | Inr command \<Rightarrow> readWire env c ctx key baseReadOptions command w0 = (Inr result, w1)))"

lemma attemptI:
  "\<lbrakk>buildGet key baseReadOptions = Inr command;
    readWire env c ctx key baseReadOptions command w0 = (Inr result, w1)\<rbrakk>
   \<Longrightarrow> attempt env c ctx key result w1"
  by (auto simp: attempt_def)

lemma updateLoop_Inr:
  assumes "updateLoop env c ctx key expiration fn n s w = (Inr (body, s'), w')"
  shows "\<exists>result w1 s1. attempt env c ctx key result w1 \<and> fn (currentOf result) s1 = (Inr body, s') \<and>
     body \<noteq> [] \<and> doSet env c ctx key body (writeOptions expiration result) w1 = (Inr MutationApplied, w')"
  using assms
proof (induction n arbitrary: s w)
  case (Suc n)
  from Suc.prems obtain command where b: "buildGet key baseReadOptions = Inr command"
    by (cases "buildGet key baseReadOptions") simp_all
  with Suc.prems obtain result w1 where r: "readWire env c ctx key baseReadOptions command w = (Inr result, w1)"
    by (cases "readWire env c ctx key baseReadOptions command w";
        cases "fst (readWire env c ctx key baseReadOptions command w)") simp_all
  with Suc.prems b obtain data s1 where f: "fn (currentOf result) s = (Inr data, s1)"
    by (cases "fn (currentOf result) s"; cases "fst (fn (currentOf result) s)") (simp_all add: Let_def)
  with Suc.prems b r have ne: "data \<noteq> []" by (auto simp: Let_def)
  with Suc.prems b r f obtain status w2 where
    d: "doSet env c ctx key data (writeOptions expiration result) w1 = (Inr status, w2)"
    by (cases "doSet env c ctx key data (writeOptions expiration result) w1";
        cases "fst (doSet env c ctx key data (writeOptions expiration result) w1)") (simp_all add: Let_def)
  have l: "updateLoop env c ctx key expiration fn (Suc n) s w =
      (if status = MutationApplied then (Inr (data, s1), w2)
       else updateLoop env c ctx key expiration fn n s1 w2)"
    using b r f ne d by (simp add: Let_def)
  show ?case
  proof (cases "status = MutationApplied")
    case True
    with l Suc.prems have "data = body" "s1 = s'" "w2 = w'" by simp_all
    with attemptI [OF b r] f ne d True show ?thesis by blast
  next
    case False
    with l Suc.prems have "updateLoop env c ctx key expiration fn n s1 w2 = (Inr (body, s'), w')" by simp
    then show ?thesis by (rule Suc.IH)
  qed
qed simp

lemma updateTransform_Inr:
  "updateTransform c raw f current s = (Inr body, s') \<longleftrightarrow>
     (\<exists>x y. (case current of None \<Rightarrow> x = None | Some b \<Rightarrow> (case decode c raw b of Inl e \<Rightarrow> False | Inr v \<Rightarrow> x = Some v)) \<and>
        f x = Inr y \<and> encode c y = Inr body \<and> s' = Some y)"
proof (cases current)
  case None
  then show ?thesis by (auto simp: updateTransform_def split: sum.splits)
next
  case (Some b)
  then show ?thesis
    by (cases "decode c raw b") (auto simp: updateTransform_def split: sum.splits)
qed

text \<open>
  C16: \<open>Update\<close> is an atomic read-modify-write. When it succeeds, the value it returns is
  what the caller's function made of the value one of its reads saw (or of nothing, for a
  miss, a stale or an empty item), and its last act was to store that value, on the
  condition that the item still had the version of that same read, or was still absent,
  and the server applied it. No blind store is ever sent.
\<close>

theorem update_atomic:
  "case Update env c ctx raw key ttl fn w of
      (Inl e, w') \<Rightarrow> True
    | (Inr stored, w') \<Rightarrow>
        \<exists>f y result w1 expiration body o1.
          fn = Some f \<and> stored = Some y \<and> attempt env c ctx key result w1 \<and>
          (case currentOf result of
             None \<Rightarrow> f None = Inr y
           | Some b \<Rightarrow> (case decode c raw b of Inl e \<Rightarrow> False | Inr v \<Rightarrow> f (Some v) = Inr y)) \<and>
          encode c y = Inr body \<and> body \<noteq> [] \<and>
          doSet env c ctx key body o1 w1 = (Inr MutationApplied, w') \<and> ms_TTL o1 = expiration \<and>
          (case (gr_Status result, md_CAS (gr_Metadata result)) of
             (GetHit, Some cas) \<Rightarrow> ms_CompareCAS o1 = Some cas \<and> ms_Mode o1 = ModeSet
           | _ \<Rightarrow> ms_Mode o1 = ModeAdd)"
proof -
  obtain res w' where u: "Update env c ctx raw key ttl fn w = (res, w')" by fastforce
  show ?thesis
  proof (cases res)
    case (Inl e)
    with u show ?thesis by simp
  next
    case (Inr stored)
    with u obtain f expiration body where f: "fn = Some f" and l:
      "updateLoop env c ctx key expiration (updateTransform c raw f) updateAttempts None w = (Inr (body, stored), w')"
      by (auto simp: Update_def update_bytes_def after_Inr split: option.splits sum.splits)
    from updateLoop_Inr [OF l] obtain result w1 s1 where r: "attempt env c ctx key result w1"
      "updateTransform c raw f (currentOf result) s1 = (Inr body, stored)" "body \<noteq> []"
      "doSet env c ctx key body (writeOptions expiration result) w1 = (Inr MutationApplied, w')" by blast
    from r(2) obtain x y where xy: "case currentOf result of None \<Rightarrow> x = None
        | Some b \<Rightarrow> (case decode c raw b of Inl e \<Rightarrow> False | Inr v \<Rightarrow> x = Some v)"
      "f x = Inr y" "encode c y = Inr body" "stored = Some y"
      by (auto simp: updateTransform_Inr)
    have v: "case currentOf result of None \<Rightarrow> f None = Inr y
        | Some b \<Rightarrow> (case decode c raw b of Inl e \<Rightarrow> False | Inr v \<Rightarrow> f (Some v) = Inr y)"
      using xy(1,2) by (auto split: option.splits sum.splits)
    have o1: "ms_TTL (writeOptions expiration result) = expiration"
      "case (gr_Status result, md_CAS (gr_Metadata result)) of
         (GetHit, Some cas) \<Rightarrow> ms_CompareCAS (writeOptions expiration result) = Some cas \<and>
            ms_Mode (writeOptions expiration result) = ModeSet
       | _ \<Rightarrow> ms_Mode (writeOptions expiration result) = ModeAdd"
      by (auto simp: writeOptions_def zero_MetaSetOptions_def split: option.split GetStatus.split)
    show ?thesis
      unfolding u Inr prod.case sum.case
      by (rule exI [of _ f], rule exI [of _ y], rule exI [of _ result], rule exI [of _ w1],
          rule exI [of _ expiration], rule exI [of _ body], rule exI [of _ "writeOptions expiration result"])
        (use f xy(3,4) r v o1 in simp)
  qed
qed

text \<open>
  C17: \<open>Take\<close> is an atomic read-and-delete. The value it returns is the non-empty value its
  read saw, and its last act was to delete the item on the condition that it still had the
  version of that read, which the server confirmed: bytes appended in between are not lost.
\<close>

theorem take_atomic:
  "case Take env c ctx key w of
      (Inl e, w') \<Rightarrow> True
    | (Inr None, w') \<Rightarrow> True
    | (Inr (Some v), w') \<Rightarrow>
        \<exists>result w1 cas command wire.
          attempt env c ctx key result w1 \<and> gr_Status result = GetHit \<and>
          gr_Value result = v \<and> v \<noteq> [] \<and> md_CAS (gr_Metadata result) = Some cas \<and>
          buildDelete key (zero_MetaDeleteOptions\<lparr>mdo_CompareCAS := Some cas\<rparr>) = Inr command \<and>
          executeMeta env c ctx command w1 = (Inr wire, w') \<and> raw_Code wire = ResponseHeader"
proof -
  have "\<exists>result w1 cas command wire.
      attempt env c ctx key result w1 \<and> gr_Status result = GetHit \<and>
      gr_Value result = v \<and> v \<noteq> [] \<and> md_CAS (gr_Metadata result) = Some cas \<and>
      buildDelete key (zero_MetaDeleteOptions\<lparr>mdo_CompareCAS := Some cas\<rparr>) = Inr command \<and>
      executeMeta env c ctx command w1 = (Inr wire, w') \<and> raw_Code wire = ResponseHeader"
    if "takeLoop env c ctx key n w = (Inr (Some v), w')" for n v w'
    using that
  proof (induction n arbitrary: w)
    case (Suc n)
    from Suc.prems obtain command where b: "buildGet key baseReadOptions = Inr command"
      by (cases "buildGet key baseReadOptions") simp_all
    with Suc.prems obtain result w1 where r: "readWire env c ctx key baseReadOptions command w = (Inr result, w1)"
      by (cases "readWire env c ctx key baseReadOptions command w";
          cases "fst (readWire env c ctx key baseReadOptions command w)") simp_all
    with Suc.prems b have hit: "gr_Status result = GetHit" "gr_Value result \<noteq> []"
      by (auto split: if_splits)
    with Suc.prems b r obtain cas where cas: "md_CAS (gr_Metadata result) = Some cas"
      by (cases "md_CAS (gr_Metadata result)") simp_all
    obtain command2 where d: "buildDelete key (zero_MetaDeleteOptions\<lparr>mdo_CompareCAS := Some cas\<rparr>) = Inr command2"
      using Suc.prems b r hit cas
      by (cases "buildDelete key (zero_MetaDeleteOptions\<lparr>mdo_CompareCAS := Some cas\<rparr>)") simp_all
    obtain wire w2 where e: "executeMeta env c ctx command2 w1 = (Inr wire, w2)"
      using Suc.prems b r hit cas d
      by (cases "executeMeta env c ctx command2 w1"; cases "fst (executeMeta env c ctx command2 w1)") simp_all
    obtain status where s: "deleteStatus (raw_Code wire) = (status, None)"
      using Suc.prems b r hit cas d e
      by (cases "deleteStatus (raw_Code wire)"; cases "snd (deleteStatus (raw_Code wire))") simp_all
    have l: "takeLoop env c ctx key (Suc n) w =
        (if status = MutationApplied then (Inr (Some (gr_Value result)), w2)
         else takeLoop env c ctx key n w2)"
      using b r hit cas d e s by simp
    show ?case
    proof (cases "status = MutationApplied")
      case True
      then have "raw_Code wire = ResponseHeader" using s by (auto simp: deleteStatus_def split: if_splits)
      moreover have "gr_Value result = v" "w2 = w'" using l True Suc.prems by simp_all
      ultimately show ?thesis using attemptI [OF b r] hit cas d e by blast
    next
      case False
      with l Suc.prems have "takeLoop env c ctx key n w2 = (Inr (Some v), w')" by simp
      then show ?thesis by (rule Suc.IH)
    qed
  qed simp
  then show ?thesis by (simp add: Take_def split: prod.split sum.split option.split)
qed

section \<open>Bounded effort\<close>

text \<open>The environment that also counts the exchanges it performs.\<close>

definition counting :: "'n env \<Rightarrow> ('n \<times> nat) env" where
  "counting env = \<lparr>
     env_exchange = (\<lambda>ctx i payload stop (n, k).
       let (out, n') = env_exchange env ctx i payload stop n in (out, (n', Suc k))),
     env_ctx_err = (\<lambda>ctx (n, k). env_ctx_err env ctx n),
     env_now = (\<lambda>(n, k). env_now env n)\<rparr>"

abbreviation exchanges :: "('n \<times> nat) world \<Rightarrow> nat" where
  "exchanges w \<equiv> snd (w_net w)"

lemma count_executeMeta:
  "exchanges (snd (executeMeta (counting env) c ctx command w)) \<le> Suc (exchanges w)"
  by (cases "w_net w")
    (simp add: executeMeta_def exchange_w_def counting_def split_def Let_def split: sum.split)

lemma count_after:
  assumes "exchanges (snd out) \<le> k" and "\<And>x w1. exchanges w1 \<le> k \<Longrightarrow> exchanges (snd (f x w1)) \<le> m"
    and "k \<le> m"
  shows "exchanges (snd (after out f)) \<le> m"
  using assms by (cases out; cases "fst out") auto

lemma count_readWire:
  "exchanges (snd (readWire (counting env) c ctx key o1 command w)) \<le> Suc (exchanges w)"
  unfolding readWire_def by (rule count_after [OF count_executeMeta]) simp_all

lemma count_doSet:
  "exchanges (snd (doSet (counting env) c ctx key data o1 w)) \<le> Suc (exchanges w)"
  unfolding doSet_def
  by (simp split: sum.split) (intro allI impI count_after [OF count_executeMeta]; simp)

lemma count_update:
  "exchanges (snd (updateLoop (counting env) c ctx key expiration fn n s w)) \<le> exchanges w + 2 * n"
proof (induction n arbitrary: s w)
  case (Suc n)
  show ?case
  proof (cases "buildGet key baseReadOptions")
    case (Inr command)
    obtain r w1 where r: "readWire (counting env) c ctx key baseReadOptions command w = (r, w1)" by fastforce
    then have w1: "exchanges w1 \<le> Suc (exchanges w)"
      using count_readWire [of env c ctx key baseReadOptions command w] by simp
    show ?thesis
    proof (cases r)
      case (Inr result)
      obtain out s1 where f: "fn (currentOf result) s = (out, s1)" by fastforce
      show ?thesis
      proof (cases out)
        case (Inr data)
        obtain d w2 where d: "doSet (counting env) c ctx key data (writeOptions expiration result) w1 = (d, w2)"
          by fastforce
        then have w2: "exchanges w2 \<le> Suc (exchanges w1)"
          using count_doSet [of env c ctx key data "writeOptions expiration result" w1] by simp
        then show ?thesis
          using \<open>buildGet key baseReadOptions = Inr command\<close> r \<open>r = Inr result\<close> f Inr d w1
            Suc.IH [of s1 w2]
          by (cases d) (auto simp: Let_def)
      qed (use \<open>buildGet key baseReadOptions = Inr command\<close> r Inr f w1 in \<open>simp add: Let_def\<close>)
    qed (use Inr r w1 in simp)
  qed simp
qed simp

text \<open>The part of a \<open>Take\<close> attempt after a successful read.\<close>

lemma takeLoop_read:
  assumes "buildGet key baseReadOptions = Inr command"
    and "readWire env c ctx key baseReadOptions command w = (Inr result, w1)"
  obtains (stops) res w2 where "takeLoop env c ctx key (Suc n) w = (res, w2)" and "w_net w2 = w_net w1"
    | (deletes) command2 res w2 where "executeMeta env c ctx command2 w1 = (res, w2)"
        and "(\<exists>out. takeLoop env c ctx key (Suc n) w = (out, w2)) \<or>
             takeLoop env c ctx key (Suc n) w = takeLoop env c ctx key n w2"
proof (cases "(gr_Status result \<noteq> GetHit \<or> gr_Value result = []) \<or> md_CAS (gr_Metadata result) = None")
  case True
  let ?out = "takeLoop env c ctx key (Suc n) w"
  from True assms have "w_net (snd ?out) = w_net w1" by (auto split: if_splits)
  then show ?thesis by (intro stops [of "fst ?out" "snd ?out"]) simp_all
next
  case False
  then obtain cas where hit: "gr_Status result = GetHit" "gr_Value result \<noteq> []"
    and cas: "md_CAS (gr_Metadata result) = Some cas" by auto
  let ?o2 = "zero_MetaDeleteOptions\<lparr>mdo_CompareCAS := Some cas\<rparr>"
  have "buildDelete key ?o2 = Inr \<lparr>mc_Command = ''md'', mc_Key = key, mc_Flags = deleteFlags ?o2,
      mc_Value = [], mc_HasValue = False\<rparr>" (is "_ = Inr ?command2")
    by (simp add: buildDelete_Inr zero_MetaDeleteOptions_def when_flag_def)
  moreover obtain res w2 where e: "executeMeta env c ctx ?command2 w1 = (res, w2)" by fastforce
  moreover obtain status err where "\<And>wire. res = Inr wire \<Longrightarrow> deleteStatus (raw_Code wire) = (status, err)"
    by (cases "deleteStatus (raw_Code (projr res))") (metis sum.sel(2))
  ultimately have "(\<exists>out. takeLoop env c ctx key (Suc n) w = (out, w2)) \<or>
      takeLoop env c ctx key (Suc n) w = takeLoop env c ctx key n w2"
    using assms hit cas by (cases res; cases err) simp_all
  with e show ?thesis by (rule deletes)
qed

lemma count_take: "exchanges (snd (takeLoop (counting env) c ctx key n w)) \<le> exchanges w + 2 * n"
proof (induction n arbitrary: w)
  case (Suc n)
  show ?case
  proof (cases "buildGet key baseReadOptions")
    case (Inr command)
    obtain r w1 where r: "readWire (counting env) c ctx key baseReadOptions command w = (r, w1)" by fastforce
    then have w1: "exchanges w1 \<le> Suc (exchanges w)"
      using count_readWire [of env c ctx key baseReadOptions command w] by simp
    show ?thesis
    proof (cases r)
      case r': (Inr result)
      from Inr r [unfolded r'] show ?thesis
      proof (cases rule: takeLoop_read [where n = n])
        case (stops res w2)
        with w1 show ?thesis by simp
      next
        case (deletes command2 res w2)
        then have "exchanges w2 \<le> Suc (exchanges w1)"
          using count_executeMeta [of env c ctx command2 w1] by simp
        with deletes(2) w1 Suc.IH [of w2] show ?thesis by auto
      qed
    qed (use Inr r w1 in simp)
  qed simp
qed simp

text \<open>
  C33: the optimistic loops give up. Whatever the servers answer and however often other
  writers win, \<open>Update\<close> and \<open>Take\<close> perform at most eight reads and eight conditional
  writes, that is sixteen exchanges, and then return.
\<close>

theorem optimistic_bounded:
  "exchanges (snd (Update (counting env) c ctx raw key ttl fn w)) \<le> exchanges w + 16 \<and>
   exchanges (snd (Take (counting env) c ctx key w)) \<le> exchanges w + 16"
proof
  show "exchanges (snd (Update (counting env) c ctx raw key ttl fn w)) \<le> exchanges w + 16"
  proof (cases fn)
    case (Some f)
    have "exchanges (snd (update_bytes (counting env) c ctx key ttl (updateTransform c raw f) None w)) \<le>
        exchanges w + 16"
      using count_update [of env c ctx key _ "updateTransform c raw f" updateAttempts None w]
      by (simp add: update_bytes_def updateAttempts_def split: sum.split)
    then show ?thesis
      unfolding Update_def Some option.case by (rule count_after) (auto split: prod.split)
  qed (simp add: Update_def)
  show "exchanges (snd (Take (counting env) c ctx key w)) \<le> exchanges w + 16"
    using count_take [of env c ctx key updateAttempts w] by (simp add: Take_def updateAttempts_def)
qed

end
