(* ===== verification/Transport.thy ===== *)
theory Transport
  imports Execute
begin

text \<open>
  The transport of \<open>transport.go\<close>: one server's pool of multiplexed connections, the
  requests queued on them and the goroutines that move the requests on. The state is
  shared, so it is one record; a goroutine is the stack of calls it has still to make, and
  one step of the pool runs the first call of one goroutine up to its next release of a
  mutex, send, receive or system call. What the network, the clock and the callers'
  contexts do at that moment is the \<open>input\<close> of the step.
\<close>

section \<open>What the outside world answers\<close>

text \<open>
  The errors a dialer, a socket or a context reports. They are never errors of this
  package, so they are neither ambiguous nor usage errors.
\<close>

datatype ctxEnd = CtxEndCanceled | CtxEndDeadline

fun ctxErr :: "ctxEnd \<Rightarrow> goerr" where
  "ctxErr CtxEndCanceled = CtxCanceled"
| "ctxErr CtxEndDeadline = CtxDeadlineExceeded"

datatype netError = NetEOF | NetTimeout | NetFailure bytes | NetContext ctxEnd

fun netErr :: "netError \<Rightarrow> goerr" where
  "netErr NetEOF = IoEOF"
| "netErr NetTimeout = OsDeadlineExceeded"
| "netErr (NetFailure m) = EnvError m"
| "netErr (NetContext e) = ctxErr e"

text \<open>
  \<open>in_write\<close> is what successive calls of \<open>Write\<close> accept and report (once used up, a call
  accepts all it is given); \<open>in_bytes\<close> and \<open>in_err\<close> are the bytes that reach the reader
  during the step and the error the socket reports behind them; \<open>in_ctx\<close> is the state of
  the caller's context.
\<close>

record input =
  in_now :: int
  in_dial :: "netError option"
  in_write :: "(nat \<times> netError option) list"
  in_bytes :: bytes
  in_err :: netError
  in_ctx :: "ctxEnd option"

section \<open>Writing\<close>

text \<open>
  \<open>writeAll\<close> over any \<open>io.Writer\<close>: a function of the writer's state and the bytes it is
  given, returning how many it took and an error.
\<close>

type_synonym 'w writer = "'w \<Rightarrow> bytes \<Rightarrow> (nat \<times> goerr option) \<times> 'w"

function writeAll :: "'w writer \<Rightarrow> 'w \<Rightarrow> bytes \<Rightarrow> nat \<Rightarrow> (nat \<times> goerr option) \<times> 'w" where
  "writeAll wr st data written =
     (if written < length data then
        (case wr st (drop written data) of
           ((n, Some e), st') \<Rightarrow> ((written + n, Some e), st')
         | ((n, None), st') \<Rightarrow>
             if n = 0 then ((written + n, Some IoUnexpectedEOF), st')
             else writeAll wr st' data (written + n))
      else ((written, None), st))"
  by pat_completeness auto
termination
  by (relation "measure (\<lambda>(wr, st, data, written). length data - written)") auto

declare writeAll.simps [simp del]

fun scriptedWriter :: "(nat \<times> netError option) list writer" where
  "scriptedWriter [] data = ((length data, None), [])"
| "scriptedWriter ((n, e) # script) data = ((min n (length data), map_option netErr e), script)"

section \<open>The state\<close>

datatype requestState = RequestQueued | RequestWriting | RequestDone

text \<open>
  A request. \<open>rq_done\<close> says that its \<open>done\<close> channel is closed. The last two components
  are not in the code: what \<open>exchange\<close> returned to the request's caller, and a ghost
  count of the payload bytes handed to a socket.
\<close>

record request =
  rq_payload :: bytes
  rq_stop :: stop_rule
  rq_deadline :: "int option"
  rq_state :: requestState
  rq_conn :: "nat option"
  rq_done :: bool
  rq_onWire :: bool
  rq_responses :: "RawResponse list"
  rq_written :: nat
  rq_err :: "goerr option"
  rq_result :: "exchanged option"
  rq_sent :: nat

definition newRequest :: "bytes \<Rightarrow> stop_rule \<Rightarrow> int option \<Rightarrow> request" where
  "newRequest payload stop deadline = \<lparr>rq_payload = payload, rq_stop = stop,
     rq_deadline = deadline, rq_state = RequestQueued, rq_conn = None, rq_done = False,
     rq_onWire = False, rq_responses = [], rq_written = 0, rq_err = None, rq_result = None,
     rq_sent = 0\<rparr>"

text \<open>
  A connection; requests and connections are named by numbers. \<open>cn_conn\<close> says that the
  socket was dialed, \<open>cn_sockClosed\<close> that \<open>Close\<close> was called on it. The write buffer the
  code reuses between flushes holds nothing between two of them and is left out. The last
  three components are ghosts: the bytes the socket took, the requests it took whole, in
  order, and the requests whose response stream was completed, in order.
\<close>

record muxConn =
  cn_wake :: bool
  cn_pending :: "nat list"
  cn_inflight :: "nat list"
  cn_conn :: bool
  cn_reader :: reader
  cn_sockClosed :: bool
  cn_closed :: bool
  cn_cause :: "goerr option"
  cn_blamed :: "nat option"
  cn_closing :: bool
  cn_served :: bool
  cn_lastActive :: int
  cn_readDeadline :: "int option"
  cn_writeDeadline :: "int option"
  cn_wire :: bytes
  cn_log :: "nat list"
  cn_answered :: "nat list"

definition freshConn :: "int \<Rightarrow> muxConn" where
  "freshConn now = \<lparr>cn_wake = False, cn_pending = [], cn_inflight = [], cn_conn = False,
     cn_reader = \<lparr>rd_buf = [], rd_err = IoEOF\<rparr>, cn_sockClosed = False, cn_closed = False,
     cn_cause = None, cn_blamed = None, cn_closing = False, cn_served = False,
     cn_lastActive = now, cn_readDeadline = None, cn_writeDeadline = None,
     cn_wire = [], cn_log = [], cn_answered = []\<rparr>"

text \<open>
  The calls a goroutine may have on its stack. A call that the code makes in several
  critical sections is several calls here: \<open>Flush\<close>, \<open>Flushed\<close> and \<open>FlushSettle\<close> are
  \<open>flush\<close> up to the end of \<open>writeAll\<close>, its critical section and its settling loop;
  \<open>Read\<close> and \<open>Deliver\<close> are one round of \<open>readLoop\<close>; \<open>TeardownSettle\<close> is what
  \<open>teardownLocked\<close> does after releasing the mutex; \<open>Rehome\<close> is the loop of \<open>detach\<close>.
  A span is a request of a flush with the offsets at which its payload starts and ends.
\<close>

type_synonym span = "nat \<times> nat \<times> nat"

datatype action =
    Enqueue nat
  | Add nat nat
  | Unlock
  | Await nat
  | Join nat
  | Detach "nat option" "nat list" "goerr option" bool
  | Rehome "nat list" "goerr option" bool
  | Close
  | Drain nat
  | SettleClosed "nat list"
  | Run
  | Wake
  | Claim
  | Flush "nat list"
  | Flushed "span list" nat "goerr option"
  | FlushSettle "span list" nat "goerr option" bool "goerr option" "nat option" bool "nat list"
  | Fail nat goerr bool
  | TeardownSettle nat "nat list" goerr
  | Read
  | Deliver RawResponse
  | Complete nat
  | Expire nat nat
  | Orphan nat

datatype goroutine = Writer nat | Reader nat | Caller nat | Closer

text \<open>
  The pool with everything that hangs off it. \<open>sy_holder\<close> is the goroutine that holds the
  pool's mutex across steps; a connection's mutex is never held across a step.
  \<open>sy_panicked\<close> says that a slice expression was out of range: the program is gone.
\<close>

record sys =
  sy_conns :: "nat list"
  sy_closed :: bool
  sy_holder :: "goroutine option"
  sy_conn :: "nat \<Rightarrow> muxConn"
  sy_req :: "nat \<Rightarrow> request"
  sy_nextConn :: nat
  sy_nextReq :: nat
  sy_stacks :: "goroutine \<Rightarrow> action list"
  sy_panicked :: bool

definition initSys :: sys where
  "initSys = \<lparr>sy_conns = [], sy_closed = False, sy_holder = None,
     sy_conn = (\<lambda>_. freshConn 0), sy_req = (\<lambda>_. newRequest [] (\<lambda>_. True) None),
     sy_nextConn = 0, sy_nextReq = 0, sy_stacks = (\<lambda>_. []), sy_panicked = False\<rparr>"

definition upd_conn :: "nat \<Rightarrow> (muxConn \<Rightarrow> muxConn) \<Rightarrow> sys \<Rightarrow> sys" where
  "upd_conn c f s = s\<lparr>sy_conn := (sy_conn s)(c := f (sy_conn s c))\<rparr>"

definition upd_req :: "nat \<Rightarrow> (request \<Rightarrow> request) \<Rightarrow> sys \<Rightarrow> sys" where
  "upd_req r f s = s\<lparr>sy_req := (sy_req s)(r := f (sy_req s r))\<rparr>"

definition spawn :: "goroutine \<Rightarrow> action list \<Rightarrow> sys \<Rightarrow> sys" where
  "spawn g as s = s\<lparr>sy_stacks := (sy_stacks s)(g := as)\<rparr>"

section \<open>Settling a request\<close>

text \<open>\<open>complete\<close>: both compare-and-swaps fail exactly when the request is already done.\<close>

definition complete ::
    "nat \<Rightarrow> RawResponse list \<Rightarrow> nat \<Rightarrow> goerr option \<Rightarrow> sys \<Rightarrow> sys" where
  "complete r responses written err s =
     (if rq_state (sy_req s r) = RequestDone then s
      else upd_req r (\<lambda>q. q\<lparr>rq_state := RequestDone, rq_responses := responses,
             rq_written := written, rq_err := err, rq_done := True\<rparr>) s)"

definition payloadLen :: "sys \<Rightarrow> nat \<Rightarrow> nat" where
  "payloadLen s r = length (rq_payload (sy_req s r))"

text \<open>A goroutine's call of \<open>r.complete(r.responses, len(r.payload), err)\<close>.\<close>

definition completeWritten :: "nat \<Rightarrow> goerr option \<Rightarrow> sys \<Rightarrow> sys" where
  "completeWritten r err s = complete r (rq_responses (sy_req s r)) (payloadLen s r) err s"

section \<open>The pool\<close>

definition status :: "muxConn \<Rightarrow> nat \<times> int \<times> bool" where
  "status c = (length (cn_pending c) + length (cn_inflight c), cn_lastActive c, cn_closed c)"

text \<open>
  Sending on the one-slot \<open>wake\<close> channel without blocking is setting a flag. A step that
  releases a connection's mutex and then signals does both at once.
\<close>

definition signal :: "muxConn \<Rightarrow> muxConn" where
  "signal c = c\<lparr>cn_wake := True\<rparr>"

definition add :: "nat \<Rightarrow> nat \<Rightarrow> sys \<Rightarrow> sys" where
  "add r c = upd_conn c (\<lambda>k. signal (k\<lparr>cn_pending := cn_pending k @ [r]\<rparr>))"

definition closeSocket :: "muxConn \<Rightarrow> muxConn" where
  "closeSocket c = c\<lparr>cn_closed := True, cn_sockClosed := cn_sockClosed c \<or> cn_conn c\<rparr>"

definition retire :: "muxConn \<Rightarrow> muxConn" where
  "retire c = signal (if cn_closed c then c else closeSocket c)"

definition newConn :: "int \<Rightarrow> sys \<Rightarrow> nat \<times> sys" where
  "newConn now s =
     (let c = sy_nextConn s
      in (c, spawn (Writer c) [Run] (upd_conn c (\<lambda>_. freshConn now) (s\<lparr>sy_nextConn := Suc c\<rparr>))))"

text \<open>The scan of \<open>pickLocked\<close>: what it keeps, and the best connection so far with its load.\<close>

fun pickScan ::
    "('d, 'v) config \<Rightarrow> int \<Rightarrow> nat list \<Rightarrow> nat list \<times> (nat \<times> nat) option \<Rightarrow> sys \<Rightarrow>
       (nat list \<times> (nat \<times> nat) option) \<times> sys" where
  "pickScan cfg now [] acc s = (acc, s)"
| "pickScan cfg now (c # cs) (kept, best) s =
     (case status (sy_conn s c) of (load, idleSince, closed) \<Rightarrow>
        if closed then pickScan cfg now cs (kept, best) s
        else if load = 0 \<and> cfg_idleTimeout cfg > 0 \<and> now - idleSince > cfg_idleTimeout cfg
          then pickScan cfg now cs (kept, best) (upd_conn c retire s)
        else pickScan cfg now cs
               (kept @ [c],
                case best of None \<Rightarrow> Some (c, load)
                | Some (b, bestLoad) \<Rightarrow> if load < bestLoad then Some (c, load) else best) s)"

definition pickLocked :: "('d, 'v) config \<Rightarrow> int \<Rightarrow> sys \<Rightarrow> nat \<times> sys" where
  "pickLocked cfg now s =
     (case pickScan cfg now (sy_conns s) ([], None) s of ((kept, best), s1) \<Rightarrow>
        let s2 = s1\<lparr>sy_conns := kept\<rparr>;
            dial = (case best of None \<Rightarrow> True
                    | Some (_, bestLoad) \<Rightarrow> bestLoad > 0 \<and> int (length kept) < cfg_maxConns cfg)
        in if dial then (case newConn now s2 of (c, s3) \<Rightarrow> (c, s3\<lparr>sy_conns := kept @ [c]\<rparr>))
           else (fst (the best), s2))"

text \<open>
  The pool's mutex. \<open>enqueue\<close> and \<open>detach\<close> hold it over the call of \<open>add\<close>, which takes a
  connection's mutex of its own: a connection may be torn down between being picked and
  being added to.
\<close>

type_synonym stepped = "(action list \<times> sys) option"

definition enqueue :: "('d, 'v) config \<Rightarrow> goroutine \<Rightarrow> int \<Rightarrow> nat \<Rightarrow> sys \<Rightarrow> stepped" where
  "enqueue cfg g now r s =
     (if sy_holder s \<noteq> None then None
      else if sy_closed s
        then Some ([], upd_req r (\<lambda>q. q\<lparr>rq_result := Some ([], 0, Some ErrClosed)\<rparr>) s)
      else (case pickLocked cfg now s of (c, s') \<Rightarrow>
              Some ([Add r c, Unlock, Await r], s'\<lparr>sy_holder := Some g\<rparr>)))"

definition detach ::
    "goroutine \<Rightarrow> nat option \<Rightarrow> nat list \<Rightarrow> goerr option \<Rightarrow> bool \<Rightarrow> sys \<Rightarrow> stepped" where
  "detach g c pending cause requeue s =
     (if sy_holder s \<noteq> None then None
      else
        let conns = (case c of None \<Rightarrow> sy_conns s | Some k \<Rightarrow> remove1 k (sy_conns s));
            s' = s\<lparr>sy_conns := conns, sy_holder := Some g\<rparr>
        in Some ([if sy_closed s then Rehome pending (Some ErrClosed) False
                  else Rehome pending cause requeue, Unlock], s'))"

fun rehome :: "('d, 'v) config \<Rightarrow> int \<Rightarrow> nat list \<Rightarrow> goerr option \<Rightarrow> bool \<Rightarrow> sys \<Rightarrow> action list \<times> sys" where
  "rehome cfg now [] cause requeue s = ([], s)"
| "rehome cfg now (r # pending) cause requeue s =
     (if rq_state (sy_req s r) \<noteq> RequestQueued then ([Rehome pending cause requeue], s)
      else if requeue
        then (case pickLocked cfg now s of (c, s') \<Rightarrow> ([Add r c, Rehome pending cause requeue], s'))
      else ([Rehome pending cause requeue], complete r [] 0 cause s))"

definition close_pool :: "sys \<Rightarrow> stepped" where
  "close_pool s =
     (if sy_holder s \<noteq> None then None
      else if sy_closed s then Some ([], s)
      else Some (map Drain (sy_conns s), s\<lparr>sy_closed := True, sy_conns := []\<rparr>))"

section \<open>Deadlines\<close>

definition oldestLive :: "sys \<Rightarrow> nat list \<Rightarrow> nat option" where
  "oldestLive s inflight = List.find (\<lambda>r. rq_state (sy_req s r) \<noteq> RequestDone) inflight"

definition armReadDeadlineLocked :: "nat \<Rightarrow> sys \<Rightarrow> sys" where
  "armReadDeadlineLocked c s =
     (if \<not> cn_conn (sy_conn s c) then s
      else upd_conn c (\<lambda>k. k\<lparr>cn_readDeadline :=
             (case oldestLive s (cn_inflight k) of None \<Rightarrow> None
              | Some r \<Rightarrow> rq_deadline (sy_req s r))\<rparr>) s)"

fun oldestLiveLocked :: "sys \<Rightarrow> nat \<Rightarrow> nat list \<Rightarrow> bool" where
  "oldestLiveLocked s r [] = False"
| "oldestLiveLocked s r (candidate # rest) =
     (if candidate = r then True
      else if rq_state (sy_req s candidate) \<noteq> RequestDone then False
      else oldestLiveLocked s r rest)"

section \<open>Tearing a connection down\<close>

definition teardownLocked :: "nat \<Rightarrow> goerr \<Rightarrow> bool \<Rightarrow> sys \<Rightarrow> action list \<times> sys" where
  "teardownLocked c cause headSaw s =
     (let k = sy_conn s c in
      if cn_closed k then ([], s)
      else
        ([TeardownSettle c (cn_inflight k) cause, Detach (Some c) (cn_pending k) (Some cause) (cn_served k)],
         upd_conn c (\<lambda>_. signal (closeSocket (k\<lparr>cn_cause := Some cause,
           cn_blamed := (if headSaw \<and> cn_inflight k \<noteq> [] then Some (hd (cn_inflight k)) else cn_blamed k),
           cn_inflight := [], cn_pending := []\<rparr>))) s))"

fun teardownSettle :: "nat \<Rightarrow> nat list \<Rightarrow> goerr \<Rightarrow> sys \<Rightarrow> action list \<times> sys" where
  "teardownSettle c [] cause s = ([], s)"
| "teardownSettle c (r # rest) cause s =
     (let err = (if cn_blamed (sy_conn s c) = Some r then cause else ConnectionLostError (Some cause))
      in ([TeardownSettle c rest cause],
          if rq_onWire (sy_req s r) then completeWritten r (Some err) s else s))"

definition expire :: "nat \<Rightarrow> nat \<Rightarrow> sys \<Rightarrow> action list \<times> sys" where
  "expire c r s =
     (if \<not> cn_closed (sy_conn s c) \<and> oldestLiveLocked s r (cn_inflight (sy_conn s c))
      then teardownLocked c CtxDeadlineExceeded True s
      else ([], armReadDeadlineLocked c s))"

definition orphan :: "nat \<Rightarrow> sys \<Rightarrow> sys" where
  "orphan c s = (if cn_closed (sy_conn s c) then s else armReadDeadlineLocked c s)"

definition drain :: "nat \<Rightarrow> sys \<Rightarrow> action list \<times> sys" where
  "drain c s =
     (let k = sy_conn s c in
      if cn_closed k then ([], s)
      else
        let k' = k\<lparr>cn_pending := [], cn_closing := True\<rparr>
        in ([SettleClosed (cn_pending k)],
            upd_conn c (\<lambda>_. signal (if cn_inflight k = [] then closeSocket k' else k')) s))"

fun settleClosed :: "nat list \<Rightarrow> sys \<Rightarrow> action list \<times> sys" where
  "settleClosed [] s = ([], s)"
| "settleClosed (r # rest) s = ([SettleClosed rest], complete r [] 0 (Some ErrClosed) s)"

end
