(* ===== verification/Goroutines.thy ===== *)
theory Goroutines
  imports Transport
begin

text \<open>
  The goroutines of \<open>transport.go\<close> over the state of \<open>Transport\<close>: a connection's writer and
  reader, the callers of \<open>exchange\<close>, and the steps of a pool with the states they reach.
\<close>

section \<open>The writer\<close>

text \<open>
  \<open>run\<close>: dial, then either fail or install the socket, start the reader and become the
  writer. A connection closed during the dial closes what was dialed.
\<close>

definition run :: "nat \<Rightarrow> input \<Rightarrow> sys \<Rightarrow> action list \<times> sys" where
  "run c inp s =
     (case in_dial inp of
        Some e \<Rightarrow> ([Fail c (netErr e) False], s)
      | None \<Rightarrow>
          if cn_closed (sy_conn s c) then ([], s)
          else ([Wake],
                spawn (Reader c) [Read]
                  (upd_conn c (\<lambda>k. k\<lparr>cn_conn := True, cn_reader := \<lparr>rd_buf = [], rd_err = IoEOF\<rparr>\<rparr>) s)))"

definition awaitWake :: "nat \<Rightarrow> sys \<Rightarrow> stepped" where
  "awaitWake c s =
     (if cn_wake (sy_conn s c) then Some ([Claim], upd_conn c (\<lambda>k. k\<lparr>cn_wake := False\<rparr>) s) else None)"

text \<open>
  Claiming: every pending request learns its connection, and the ones nobody gave up on
  become the batch.
\<close>

fun claimAll :: "nat \<Rightarrow> nat list \<Rightarrow> sys \<Rightarrow> nat list \<times> sys" where
  "claimAll c [] s = ([], s)"
| "claimAll c (r # queued) s =
     (let s1 = upd_req r (\<lambda>q. q\<lparr>rq_conn := Some c\<rparr>) s in
      if rq_state (sy_req s1 r) = RequestQueued then
        (case claimAll c queued (upd_req r (\<lambda>q. q\<lparr>rq_state := RequestWriting\<rparr>) s1) of
           (batch, s2) \<Rightarrow> (r # batch, s2))
      else claimAll c queued s1)"

definition claim :: "nat \<Rightarrow> sys \<Rightarrow> action list \<times> sys" where
  "claim c s =
     (if cn_closed (sy_conn s c) then ([], s)
      else
        (case claimAll c (cn_pending (sy_conn s c)) (upd_conn c (\<lambda>k. k\<lparr>cn_pending := []\<rparr>) s) of
           (batch, s1) \<Rightarrow>
             if batch = [] then ([Wake], s1)
             else
               let idle = (cn_inflight (sy_conn s1 c) = []);
                   s2 = upd_conn c (\<lambda>k. k\<lparr>cn_inflight := cn_inflight k @ batch\<rparr>) s1
               in ([Flush batch, Claim], if idle then armReadDeadlineLocked c s2 else s2)))"

text \<open>The offsets of a batch in the write buffer, and the earliest deadline of it.\<close>

fun spans :: "sys \<Rightarrow> nat \<Rightarrow> nat list \<Rightarrow> span list" where
  "spans s start [] = []"
| "spans s start (r # batch) =
     (r, start, start + payloadLen s r) # spans s (start + payloadLen s r) batch"

fun earliest :: "int option \<Rightarrow> int option \<Rightarrow> int option" where
  "earliest None d = d"
| "earliest (Some a) None = Some a"
| "earliest (Some a) (Some b) = Some (if b < a then b else a)"

definition writeDeadline :: "sys \<Rightarrow> nat list \<Rightarrow> int option" where
  "writeDeadline s batch = fold (\<lambda>r d. earliest d (rq_deadline (sy_req s r))) batch None"

definition flushBuffer :: "sys \<Rightarrow> nat list \<Rightarrow> bytes" where
  "flushBuffer s batch = concat (map (\<lambda>r. rq_payload (sy_req s r)) batch)"

text \<open>The ghosts: how much of each request a socket has taken.\<close>

definition spanSent :: "nat \<Rightarrow> span \<Rightarrow> nat" where
  "spanSent written sp = (case sp of (r, start, end') \<Rightarrow> min written end' - start)"

definition unwritten :: "nat \<Rightarrow> span \<Rightarrow> bool" where
  "unwritten written sp = (case sp of (r, start, end') \<Rightarrow> written < end')"

fun noteSent :: "nat \<Rightarrow> span list \<Rightarrow> sys \<Rightarrow> sys" where
  "noteSent written [] s = s"
| "noteSent written (sp # sps) s =
     noteSent written sps
       (upd_req (fst sp) (\<lambda>q. q\<lparr>rq_sent := rq_sent q + spanSent written sp\<rparr>) s)"

definition flush :: "nat \<Rightarrow> nat list \<Rightarrow> input \<Rightarrow> sys \<Rightarrow> action list \<times> sys" where
  "flush c batch inp s =
     (let buffer = flushBuffer s batch;
          (written, err) = fst (writeAll scriptedWriter (in_write inp) buffer 0);
          sps = spans s 0 batch;
          s1 = upd_conn c (\<lambda>k. k\<lparr>cn_writeDeadline := writeDeadline s batch,
                 cn_wire := cn_wire k @ take written buffer,
                 cn_log := cn_log k @ map fst (filter (\<lambda>sp. \<not> unwritten written sp) sps)\<rparr>) s
      in ([Flushed sps written err], noteSent written sps s1))"

text \<open>
  The critical section of \<open>flush\<close>. Cutting the unwritten tail off \<open>inflight\<close> is a slice
  expression whose bound may be negative, which is a panic: the result is None.
\<close>

fun cutTail :: "nat \<Rightarrow> nat \<Rightarrow> span list \<Rightarrow> sys \<Rightarrow> sys option" where
  "cutTail c written [] s = Some s"
| "cutTail c written ((r, start, end') # sps) s =
     (if written < end' then
        (let k = sy_conn s c in
         if length (cn_inflight k) < Suc (length sps) then None
         else Some (upd_conn c (\<lambda>_. k\<lparr>cn_inflight :=
                take (length (cn_inflight k) - Suc (length sps)) (cn_inflight k)\<rparr>) s))
      else cutTail c written sps (upd_req r (\<lambda>q. q\<lparr>rq_onWire := True\<rparr>) s))"

fun markOnWire :: "span list \<Rightarrow> sys \<Rightarrow> sys" where
  "markOnWire [] s = s"
| "markOnWire (sp # sps) s = markOnWire sps (upd_req (fst sp) (\<lambda>q. q\<lparr>rq_onWire := True\<rparr>) s)"

definition flushed :: "nat \<Rightarrow> span list \<Rightarrow> nat \<Rightarrow> goerr option \<Rightarrow> sys \<Rightarrow> action list \<times> sys" where
  "flushed c sps written err s =
     (let k = sy_conn s c;
          settle = FlushSettle sps written err (cn_closed k) (cn_cause k) (cn_blamed k)
                     (cn_served k) []
      in if err = None \<and> \<not> cn_closed k then ([], markOnWire sps s)
         else if cn_closed k then ([settle], s)
         else (case cutTail c written sps s of
                 None \<Rightarrow> ([], s\<lparr>sy_panicked := True\<rparr>)
               | Some s' \<Rightarrow> ([settle], s')))"

text \<open>
  The settling loop of \<open>flush\<close>, one request per step, with the requests to queue again
  collected in \<open>requeue\<close>; then the connection fails and the pool takes them over.
\<close>

fun flushSettle ::
    "nat \<Rightarrow> span list \<Rightarrow> nat \<Rightarrow> goerr option \<Rightarrow> bool \<Rightarrow> goerr option \<Rightarrow> nat option \<Rightarrow> bool \<Rightarrow>
       nat list \<Rightarrow> sys \<Rightarrow> action list \<times> sys" where
  "flushSettle c [] written err closed cause blamed served requeue s =
     ((case err of None \<Rightarrow> [] | Some e \<Rightarrow> [Fail c e False]) @ [Detach None requeue err served], s)"
| "flushSettle c ((r, start, end') # sps) written err closed cause blamed served requeue s =
     (let go = (\<lambda>rq. [FlushSettle sps written err closed cause blamed served rq]) in
      if end' \<le> written then
        (go requeue,
         if closed
         then completeWritten r (if blamed = Some r then cause else Some (ConnectionLostError cause)) s
         else s)
      else if start < written then (go requeue, complete r [] (written - start) err s)
      else if served \<and> rq_state (sy_req s r) = RequestWriting
        then (go (requeue @ [r]), upd_req r (\<lambda>q. q\<lparr>rq_state := RequestQueued\<rparr>) s)
      else (go requeue, complete r [] 0 err s))"

section \<open>The reader\<close>

text \<open>
  \<open>readLoop\<close> up to the connection's mutex. A closed socket brings no new bytes, but what
  is buffered is still read. A \<open>FramedResponseError\<close> comes with its response.
\<close>

definition read_next :: "('d, 'v) config \<Rightarrow> nat \<Rightarrow> input \<Rightarrow> sys \<Rightarrow> action list \<times> sys" where
  "read_next cfg c inp s =
     (let k = sy_conn s c;
          arriving = (if cn_sockClosed k then [] else in_bytes inp);
          rd = (cn_reader k)\<lparr>rd_buf := rd_buf (cn_reader k) @ arriving, rd_err := netErr (in_err inp)\<rparr>
      in case readRawResponse (nat (cfg_maxItemSize cfg)) rd of
           ((response, err), rd') \<Rightarrow>
             (let s' = upd_conn c (\<lambda>k. k\<lparr>cn_reader := rd'\<rparr>) s in
              case err of
                None \<Rightarrow> ([Deliver response], s')
              | Some e \<Rightarrow>
                  if as_framed e then ([Deliver response], s')
                  else ([Fail c (if errors_is e OsDeadlineExceeded then CtxDeadlineExceeded else e) True], s')))"

definition deliver :: "nat \<Rightarrow> RawResponse \<Rightarrow> int \<Rightarrow> sys \<Rightarrow> action list \<times> sys" where
  "deliver c response now s =
     (let k = sy_conn s c in
      if cn_closed k then ([], s)
      else
        (case cn_inflight k of
           [] \<Rightarrow> ([Fail c (ProtocolError ''response without a request'' []) True], s)
         | head # rest \<Rightarrow>
             let s1 = upd_req head (\<lambda>q. q\<lparr>rq_responses := rq_responses q @ [response]\<rparr>) s in
             if \<not> rq_stop (sy_req s head) response then ([Read], s1)
             else
               let s2 = armReadDeadlineLocked c
                          (upd_conn c (\<lambda>k. k\<lparr>cn_inflight := rest, cn_served := True,
                             cn_lastActive := now, cn_answered := cn_answered k @ [head]\<rparr>) s1);
                   finished = (cn_closing k \<and> rest = [])
               in ([Complete head] @ (if finished then [] else [Read]),
                   if finished then upd_conn c (\<lambda>k. signal (closeSocket k)) s2 else s2)))"

section \<open>The callers\<close>

text \<open>
  The select of \<open>exchange\<close>. What it returns is recorded when it is decided; the caller may
  still have to tell the connection that it gave up.
\<close>

definition resultOf :: "request \<Rightarrow> exchanged" where
  "resultOf q = (rq_responses q, rq_written q, rq_err q)"

definition join :: "nat \<Rightarrow> sys \<Rightarrow> stepped" where
  "join r s =
     (if rq_done (sy_req s r) then Some ([], upd_req r (\<lambda>q. q\<lparr>rq_result := Some (resultOf q)\<rparr>) s) else None)"

definition giveUp :: "nat \<Rightarrow> ctxEnd \<Rightarrow> sys \<Rightarrow> action list \<times> sys" where
  "giveUp r e s =
     (let q = sy_req s r;
          quit = (\<lambda>n. upd_req r (\<lambda>q. q\<lparr>rq_state := RequestDone, rq_result := Some ([], n, Some (ctxErr e))\<rparr>) s)
      in case rq_state q of
           RequestQueued \<Rightarrow> ([], quit 0)
         | RequestWriting \<Rightarrow>
             ((case rq_conn q of
                 None \<Rightarrow> []
               | Some c \<Rightarrow> if ctxErr e = CtxDeadlineExceeded then [Expire c r] else [Orphan c]),
              quit (length (rq_payload q)))
         | RequestDone \<Rightarrow> ([Join r], s))"

definition await :: "nat \<Rightarrow> input \<Rightarrow> sys \<Rightarrow> stepped" where
  "await r inp s = (case in_ctx inp of None \<Rightarrow> join r s | Some e \<Rightarrow> Some (giveUp r e s))"

text \<open>The deadline of \<open>context.WithTimeout(ctx, ioTimeout)\<close>.\<close>

definition exchangeDeadline :: "('d, 'v) config \<Rightarrow> int \<Rightarrow> int option \<Rightarrow> int option" where
  "exchangeDeadline cfg now deadline =
     (if cfg_ioTimeout cfg > 0 then earliest deadline (Some (now + cfg_ioTimeout cfg)) else deadline)"

definition beginExchange ::
    "('d, 'v) config \<Rightarrow> bytes \<Rightarrow> stop_rule \<Rightarrow> int option \<Rightarrow> int \<Rightarrow> sys \<Rightarrow> sys" where
  "beginExchange cfg payload stop deadline now s =
     (let r = sy_nextReq s
      in spawn (Caller r) [Enqueue r]
           (upd_req r (\<lambda>_. newRequest payload stop (exchangeDeadline cfg now deadline))
             (s\<lparr>sy_nextReq := Suc r\<rparr>)))"

section \<open>Steps\<close>

text \<open>
  One call of one goroutine. The calls of a writer or a reader are about its own
  connection. None means that the goroutine cannot run: it waits for a mutex or a channel.
\<close>

fun writerOf :: "goroutine \<Rightarrow> nat option" where
  "writerOf (Writer c) = Some c"
| "writerOf _ = None"

fun readerOf :: "goroutine \<Rightarrow> nat option" where
  "readerOf (Reader c) = Some c"
| "readerOf _ = None"

fun perform :: "('d, 'v) config \<Rightarrow> goroutine \<Rightarrow> input \<Rightarrow> action \<Rightarrow> sys \<Rightarrow> stepped" where
  "perform cfg g inp (Enqueue r) s = enqueue cfg g (in_now inp) r s"
| "perform cfg g inp (Add r c) s = Some ([], add r c s)"
| "perform cfg g inp Unlock s = Some ([], s\<lparr>sy_holder := None\<rparr>)"
| "perform cfg g inp (Await r) s = await r inp s"
| "perform cfg g inp (Join r) s = join r s"
| "perform cfg g inp (Detach c rs cause requeue) s = detach g c rs cause requeue s"
| "perform cfg g inp (Rehome rs cause requeue) s = Some (rehome cfg (in_now inp) rs cause requeue s)"
| "perform cfg g inp Close s = close_pool s"
| "perform cfg g inp (Drain c) s = Some (drain c s)"
| "perform cfg g inp (SettleClosed rs) s = Some (settleClosed rs s)"
| "perform cfg g inp Run s = map_option (\<lambda>c. run c inp s) (writerOf g)"
| "perform cfg g inp Wake s = Option.bind (writerOf g) (\<lambda>c. awaitWake c s)"
| "perform cfg g inp Claim s = map_option (\<lambda>c. claim c s) (writerOf g)"
| "perform cfg g inp (Flush batch) s = map_option (\<lambda>c. flush c batch inp s) (writerOf g)"
| "perform cfg g inp (Flushed sps written err) s =
     map_option (\<lambda>c. flushed c sps written err s) (writerOf g)"
| "perform cfg g inp (FlushSettle sps written err closed cause blamed served requeue) s =
     map_option (\<lambda>c. flushSettle c sps written err closed cause blamed served requeue s) (writerOf g)"
| "perform cfg g inp (Fail c cause headSaw) s = Some (teardownLocked c cause headSaw s)"
| "perform cfg g inp (TeardownSettle c rs cause) s = Some (teardownSettle c rs cause s)"
| "perform cfg g inp Read s = map_option (\<lambda>c. read_next cfg c inp s) (readerOf g)"
| "perform cfg g inp (Deliver response) s = map_option (\<lambda>c. deliver c response (in_now inp) s) (readerOf g)"
| "perform cfg g inp (Complete r) s = Some ([], completeWritten r None s)"
| "perform cfg g inp (Expire c r) s = Some (expire c r s)"
| "perform cfg g inp (Orphan c) s = Some ([], orphan c s)"

text \<open>A step of a goroutine with nothing to do, or that cannot run, changes nothing.\<close>

definition step :: "('d, 'v) config \<Rightarrow> goroutine \<Rightarrow> input \<Rightarrow> sys \<Rightarrow> sys" where
  "step cfg g inp s =
     (if sy_panicked s then s
      else case sy_stacks s g of
          [] \<Rightarrow> s
        | a # rest \<Rightarrow>
            (case perform cfg g inp a s of
               None \<Rightarrow> s
             | Some (new, s') \<Rightarrow> spawn g (new @ rest) s'))"

text \<open>
  What happens to a pool: a caller begins an exchange, the client is closed, a goroutine
  takes a step.
\<close>

datatype event =
    Begin bytes stop_rule "int option" int
  | CloseClient
  | Step goroutine input

fun occur :: "('d, 'v) config \<Rightarrow> event \<Rightarrow> sys \<Rightarrow> sys" where
  "occur cfg (Begin payload stop deadline now) s = beginExchange cfg payload stop deadline now s"
| "occur cfg CloseClient s = (if sy_stacks s Closer = [] then spawn Closer [Close] s else s)"
| "occur cfg (Step g inp) s = step cfg g inp s"

definition occurs :: "('d, 'v) config \<Rightarrow> event list \<Rightarrow> sys \<Rightarrow> sys" where
  "occurs cfg es s = fold (occur cfg) es s"

inductive reachable :: "('d, 'v) config \<Rightarrow> sys \<Rightarrow> bool" for cfg where
  reachable_init: "reachable cfg initSys"
| reachable_step: "reachable cfg s \<Longrightarrow> reachable cfg (occur cfg e s)"

lemma reachable_occurs: "reachable cfg s \<Longrightarrow> reachable cfg (occurs cfg es s)"
  by (induction es arbitrary: s) (auto simp: occurs_def intro: reachable_step)

lemma occurs_Nil [simp]: "occurs cfg [] s = s"
  and occurs_Cons [simp]: "occurs cfg (e # es) s = occurs cfg es (occur cfg e s)"
  and occurs_append [simp]: "occurs cfg (es @ fs) s = occurs cfg fs (occurs cfg es s)"
  by (simp_all add: occurs_def)

end
