(* ===== verification/Ownership.thy ===== *)
theory Ownership
  imports Goroutines "HOL-Library.Multiset"
begin

text \<open>
  Who may move a request on. A request that still has bytes to be written is in exactly one
  place of the pool: a connection's queue, or the stack of the goroutine that has taken it
  out of one; once a connection has taken all of its bytes it is on that connection until
  its response stream is complete. No step of any goroutine puts a request in two places.
\<close>

section \<open>Places\<close>

datatype place = Pend nat | Live nat | Stack goroutine

text \<open>The requests of a call that it will queue, or that it is writing.\<close>

definition unsentOf :: "nat \<Rightarrow> span list \<Rightarrow> nat list" where
  "unsentOf written sps = map fst (filter (unwritten written) sps)"

fun queuedBy :: "action \<Rightarrow> nat list" where
  "queuedBy (Enqueue r) = [r]"
| "queuedBy (Add r c) = [r]"
| "queuedBy (Detach c rs cause requeue) = rs"
| "queuedBy (Rehome rs cause requeue) = rs"
| "queuedBy (SettleClosed rs) = rs"
| "queuedBy (FlushSettle sps written err closed cause blamed served requeue) = requeue"
| "queuedBy _ = []"

fun writtenBy :: "action \<Rightarrow> nat list" where
  "writtenBy (Flush batch) = batch"
| "writtenBy (Flushed sps written err) = unsentOf written sps"
| "writtenBy (FlushSettle sps written err closed cause blamed served requeue) = unsentOf written sps"
| "writtenBy _ = []"

definition carried :: "action \<Rightarrow> nat list" where
  "carried a = queuedBy a @ writtenBy a"

definition carriedAll :: "action list \<Rightarrow> nat list" where
  "carriedAll as = concat (map carried as)"

definition liveOf :: "muxConn \<Rightarrow> nat list" where
  "liveOf k = (if cn_closed k then [] else drop (length (cn_answered k)) (cn_log k))"

fun at :: "sys \<Rightarrow> place \<Rightarrow> nat list" where
  "at s (Pend c) = cn_pending (sy_conn s c)"
| "at s (Live c) = liveOf (sy_conn s c)"
| "at s (Stack g) = carriedAll (sy_stacks s g)"

definition owned_once :: "(place \<Rightarrow> nat list) \<Rightarrow> bool" where
  "owned_once A \<longleftrightarrow> (\<forall>p q r. p \<noteq> q \<longrightarrow> count (mset (A p)) r + count (mset (A q)) r \<le> 1)"

lemma carriedAll_simps [simp]:
  "carriedAll [] = []" "carriedAll (a # as) = carried a @ carriedAll as"
  "carriedAll (as @ bs) = carriedAll as @ carriedAll bs"
  by (simp_all add: carriedAll_def)

lemma owned_onceD:
  assumes "owned_once A" and "r \<in> set (A p)" and "r \<in> set (A q)"
  shows "p = q"
proof (rule ccontr)
  assume "p \<noteq> q"
  with assms(1) have "count (mset (A p)) r + count (mset (A q)) r \<le> 1" by (simp add: owned_once_def)
  moreover have "0 < count (mset (A p)) r" and "0 < count (mset (A q)) r" using assms by simp_all
  ultimately show False by linarith
qed

lemma owned_once_distinct:
  assumes "owned_once A"
  shows "distinct (A p)"
proof -
  obtain q :: place where "p \<noteq> q" by (cases p) auto
  with assms have "count (mset (A p)) r + count (mset (A q)) r \<le> 1" for r
    unfolding owned_once_def by blast
  then have "count (mset (A p)) r \<le> 1" for r using add_leD1 by blast
  then have "count (mset (A p)) r = (if r \<in> set (A p) then 1 else 0)" for r
    by (metis One_nat_def count_mset_0_iff le_Suc_eq le_zero_eq)
  then show ?thesis by (simp add: distinct_count_atmost_1)
qed

text \<open>What a step may do: move requests between two places, and drop some.\<close>

lemma owned_once_move:
  assumes own: "owned_once A" and PQ: "P \<noteq> Q"
    and frame: "\<And>p. p \<noteq> P \<Longrightarrow> p \<noteq> Q \<Longrightarrow> mset (B p) \<subseteq># mset (A p)"
    and moved: "mset (B P) + mset (B Q) \<subseteq># mset (A P) + mset (A Q)"
  shows "owned_once B"
  unfolding owned_once_def
proof (intro allI impI)
  fix p q :: place and r assume "p \<noteq> q"
  let ?a = "\<lambda>p. count (mset (A p)) r" and ?b = "\<lambda>p. count (mset (B p)) r"
  have pair: "x \<noteq> y \<Longrightarrow> ?a x + ?a y \<le> 1" for x y using own by (simp add: owned_once_def)
  have le: "x \<noteq> P \<Longrightarrow> x \<noteq> Q \<Longrightarrow> ?b x \<le> ?a x" for x using frame by (simp add: subseteq_mset_def)
  have sum: "?b P + ?b Q \<le> ?a P + ?a Q"
    using moved by (metis count_union mset_subset_eq_count)
  have triple: "?b P + ?b Q + ?b x \<le> 1" if "x \<noteq> P" "x \<noteq> Q" for x
    using sum le [OF that] pair [OF PQ] pair [OF that(1)] pair [OF that(2)] by linarith
  consider "{p, q} = {P, Q}" | "p \<in> {P, Q}" "q \<notin> {P, Q}" | "q \<in> {P, Q}" "p \<notin> {P, Q}" | "{p, q} \<inter> {P, Q} = {}"
    using \<open>p \<noteq> q\<close> by auto
  then show "?b p + ?b q \<le> 1"
  proof cases
    case 1
    then have "?b p + ?b q = ?b P + ?b Q" by (auto simp: doubleton_eq_iff)
    with sum pair [OF PQ] show ?thesis by linarith
  next
    case 2
    then show ?thesis using triple [of q] by auto
  next
    case 3
    then show ?thesis using triple [of p] by auto
  next
    case 4
    then have "p \<noteq> P" "p \<noteq> Q" "q \<noteq> P" "q \<noteq> Q" by auto
    then show ?thesis using le [of p] le [of q] pair [OF \<open>p \<noteq> q\<close>] by linarith
  qed
qed

section \<open>What the operations do to the places\<close>

lemma upd_conn_simps [simp]:
  "sy_conn (upd_conn c f s) = (sy_conn s)(c := f (sy_conn s c))"
  "sy_conns (upd_conn c f s) = sy_conns s" "sy_closed (upd_conn c f s) = sy_closed s"
  "sy_holder (upd_conn c f s) = sy_holder s" "sy_req (upd_conn c f s) = sy_req s"
  "sy_nextConn (upd_conn c f s) = sy_nextConn s" "sy_nextReq (upd_conn c f s) = sy_nextReq s"
  "sy_stacks (upd_conn c f s) = sy_stacks s" "sy_panicked (upd_conn c f s) = sy_panicked s"
  by (simp_all add: upd_conn_def)

lemma upd_req_simps [simp]:
  "sy_req (upd_req r f' s) = (sy_req s)(r := f' (sy_req s r))"
  "sy_conns (upd_req r f' s) = sy_conns s" "sy_closed (upd_req r f' s) = sy_closed s"
  "sy_holder (upd_req r f' s) = sy_holder s" "sy_conn (upd_req r f' s) = sy_conn s"
  "sy_nextConn (upd_req r f' s) = sy_nextConn s" "sy_nextReq (upd_req r f' s) = sy_nextReq s"
  "sy_stacks (upd_req r f' s) = sy_stacks s" "sy_panicked (upd_req r f' s) = sy_panicked s"
  by (simp_all add: upd_req_def)

lemma spawn_simps [simp]:
  "sy_stacks (spawn g as s) = (sy_stacks s)(g := as)"
  "sy_conns (spawn g as s) = sy_conns s" "sy_closed (spawn g as s) = sy_closed s"
  "sy_holder (spawn g as s) = sy_holder s" "sy_conn (spawn g as s) = sy_conn s"
  "sy_nextConn (spawn g as s) = sy_nextConn s" "sy_nextReq (spawn g as s) = sy_nextReq s"
  "sy_req (spawn g as s) = sy_req s" "sy_panicked (spawn g as s) = sy_panicked s"
  by (simp_all add: spawn_def)

lemma conn_setters [simp]:
  "cn_pending (signal k) = cn_pending k" "cn_inflight (signal k) = cn_inflight k"
  "cn_closed (signal k) = cn_closed k" "cn_log (signal k) = cn_log k"
  "cn_answered (signal k) = cn_answered k" "cn_cause (signal k) = cn_cause k"
  "cn_blamed (signal k) = cn_blamed k" "cn_served (signal k) = cn_served k"
  "cn_wire (signal k) = cn_wire k" "cn_closing (signal k) = cn_closing k"
  "cn_pending (closeSocket k) = cn_pending k" "cn_inflight (closeSocket k) = cn_inflight k"
  "cn_closed (closeSocket k)" "cn_log (closeSocket k) = cn_log k"
  "cn_answered (closeSocket k) = cn_answered k" "cn_cause (closeSocket k) = cn_cause k"
  "cn_blamed (closeSocket k) = cn_blamed k" "cn_served (closeSocket k) = cn_served k"
  "cn_wire (closeSocket k) = cn_wire k" "cn_closing (closeSocket k) = cn_closing k"
  by (simp_all add: signal_def closeSocket_def)

lemma at_upd_conn [simp]:
  "at (upd_conn c f s) =
     (at s)(Pend c := cn_pending (f (sy_conn s c)), Live c := liveOf (f (sy_conn s c)))"
proof
  fix p show "at (upd_conn c f s) p =
     ((at s)(Pend c := cn_pending (f (sy_conn s c)), Live c := liveOf (f (sy_conn s c)))) p"
    by (cases p) auto
qed

lemma at_cong:
  assumes "sy_conn s' = sy_conn s" and "sy_stacks s' = sy_stacks s"
  shows "at s' = at s"
proof
  fix p show "at s' p = at s p" using assms by (cases p) simp_all
qed

lemma at_upd_req [simp]: "at (upd_req r f s) = at s"
  by (rule at_cong) simp_all

lemma at_fields [simp]:
  "at (s\<lparr>sy_conns := x\<rparr>) = at s" "at (s\<lparr>sy_holder := h\<rparr>) = at s" "at (s\<lparr>sy_closed := b\<rparr>) = at s"
  "at (s\<lparr>sy_panicked := b\<rparr>) = at s" "at (s\<lparr>sy_nextConn := n\<rparr>) = at s"
  "at (s\<lparr>sy_nextReq := n\<rparr>) = at s"
  by (rule at_cong, simp, simp)+

lemma at_spawn [simp]: "at (spawn g as s) = (at s)(Stack g := carriedAll as)"
proof
  fix p show "at (spawn g as s) p = ((at s)(Stack g := carriedAll as)) p" by (cases p) auto
qed

lemma at_complete [simp]: "at (complete r rs n e s) = at s"
  by (simp add: complete_def)

lemma at_completeWritten [simp]: "at (completeWritten r e s) = at s"
  by (simp add: completeWritten_def)

lemma arm_simps [simp]:
  "cn_pending (sy_conn (armReadDeadlineLocked c s) x) = cn_pending (sy_conn s x)"
  "cn_inflight (sy_conn (armReadDeadlineLocked c s) x) = cn_inflight (sy_conn s x)"
  "cn_closed (sy_conn (armReadDeadlineLocked c s) x) = cn_closed (sy_conn s x)"
  "cn_cause (sy_conn (armReadDeadlineLocked c s) x) = cn_cause (sy_conn s x)"
  "cn_blamed (sy_conn (armReadDeadlineLocked c s) x) = cn_blamed (sy_conn s x)"
  "cn_log (sy_conn (armReadDeadlineLocked c s) x) = cn_log (sy_conn s x)"
  "cn_answered (sy_conn (armReadDeadlineLocked c s) x) = cn_answered (sy_conn s x)"
  "cn_wire (sy_conn (armReadDeadlineLocked c s) x) = cn_wire (sy_conn s x)"
  "sy_req (armReadDeadlineLocked c s) = sy_req s" "sy_stacks (armReadDeadlineLocked c s) = sy_stacks s"
  "sy_conns (armReadDeadlineLocked c s) = sy_conns s" "sy_closed (armReadDeadlineLocked c s) = sy_closed s"
  "sy_holder (armReadDeadlineLocked c s) = sy_holder s"
  "sy_nextConn (armReadDeadlineLocked c s) = sy_nextConn s"
  "sy_nextReq (armReadDeadlineLocked c s) = sy_nextReq s"
  "sy_panicked (armReadDeadlineLocked c s) = sy_panicked s"
  by (simp_all add: armReadDeadlineLocked_def)

lemma at_arm [simp]: "at (armReadDeadlineLocked c s) = at s"
  by (rule ext) (auto simp: armReadDeadlineLocked_def liveOf_def)

lemma at_markOnWire [simp]: "at (markOnWire sps s) = at s"
  by (induction sps s rule: markOnWire.induct) simp_all

lemma at_noteSent [simp]: "at (noteSent n sps s) = at s"
  by (induction n sps s rule: noteSent.induct) simp_all

lemma at_cutTail: "cutTail c n sps s = Some s' \<Longrightarrow> at s' = at s"
proof (induction c n sps s rule: cutTail.induct)
  case (2 c written r start end' sps s)
  then show ?case by (auto simp: Let_def liveOf_def fun_eq_iff split: if_splits)
qed simp

definition shrinks :: "(place \<Rightarrow> nat list) \<Rightarrow> (place \<Rightarrow> nat list) \<Rightarrow> bool" where
  "shrinks B A \<longleftrightarrow> (\<forall>p. B p = A p \<or> B p = [])"

lemma shrinks_refl [simp]: "shrinks A A"
  and shrinks_trans: "shrinks C B \<Longrightarrow> shrinks B A \<Longrightarrow> shrinks C A"
  by (auto simp: shrinks_def) metis

lemma shrinks_mset: "shrinks B A \<Longrightarrow> mset (B p) \<subseteq># mset (A p)"
  unfolding shrinks_def by (metis empty_le mset.simps(1) subset_mset.order_refl)

lemma retire_shrinks: "shrinks (at (upd_conn c retire s)) (at s)"
  by (auto simp: shrinks_def retire_def liveOf_def)

lemma pickScan_shrinks: "pickScan cfg now cs acc s = (acc', s') \<Longrightarrow> shrinks (at s') (at s)"
proof (induction cfg now cs acc s rule: pickScan.induct)
  case (2 cfg now c cs kept best s)
  then show ?case
    by (auto simp: status_def simp del: at_upd_conn split: if_splits
        intro: shrinks_trans [OF _ retire_shrinks])
qed simp

lemma newConn_shrinks: "newConn now s = (c, s') \<Longrightarrow> shrinks (at s') (at s)"
  by (auto simp: newConn_def Let_def shrinks_def freshConn_def liveOf_def carried_def)

lemma pickLocked_shrinks:
  assumes "pickLocked cfg now s = (c, s')"
  shows "shrinks (at s') (at s)"
proof -
  obtain kept best s1 where scan: "pickScan cfg now (sy_conns s) ([], None) s = ((kept, best), s1)"
    by (metis prod.exhaust)
  note 1 = pickScan_shrinks [OF scan]
  show ?thesis
    using assms 1
    by (auto simp: pickLocked_def scan Let_def newConn_def freshConn_def liveOf_def carried_def shrinks_def
        split: if_splits option.splits)
qed

section \<open>One step moves requests between two places\<close>

definition moves :: "goroutine \<Rightarrow> action \<Rightarrow> sys \<Rightarrow> action list \<times> sys \<Rightarrow> bool" where
  "moves g a s out =
     (\<exists>P. P \<noteq> Stack g \<and> (\<forall>p. p \<noteq> P \<longrightarrow> mset (at (snd out) p) \<subseteq># mset (at s p)) \<and>
        mset (at (snd out) P) + mset (carriedAll (fst out)) \<subseteq># mset (at s P) + mset (carried a))"

text \<open>Most calls only pass on what they carry.\<close>

lemma moves_within:
  assumes "shrinks (at s') (at s)" and "mset (carriedAll new) \<subseteq># mset (carried a)"
  shows "moves g a s (new, s')"
proof -
  obtain P where P: "P \<noteq> Stack g" by (metis place.distinct(3))
  have "mset (at s' P) \<subseteq># mset (at s P)" using assms(1) by (rule shrinks_mset)
  then have "mset (at s' P) + mset (carriedAll new) \<subseteq># mset (at s P) + mset (carried a)"
    using assms(2) by (rule subset_mset.add_mono)
  with P show ?thesis unfolding moves_def using shrinks_mset [OF assms(1)] by (intro exI [of _ P]) simp
qed

lemma moves_same:
  assumes "at s' = at s" and "mset (carriedAll new) \<subseteq># mset (carried a)"
  shows "moves g a s (new, s')"
  using assms by (intro moves_within) simp_all

lemma moves_pend:
  assumes "\<And>p. p \<noteq> Pend c \<Longrightarrow> at s' p = at s p \<or> at s' p = []"
    and "mset (at s' (Pend c)) + mset (carriedAll new) \<subseteq># mset (at s (Pend c)) + mset (carried a)"
  shows "moves g a s (new, s')"
proof -
  have "mset (at s' p) \<subseteq># mset (at s p)" if "p \<noteq> Pend c" for p
    using assms(1) [OF that] by auto
  with assms(2) show ?thesis unfolding moves_def by (intro exI [of _ "Pend c"]) simp
qed

lemma moves_live:
  assumes "\<And>p. p \<noteq> Live c \<Longrightarrow> at s' p = at s p"
    and "mset (at s' (Live c)) + mset (carriedAll new) \<subseteq># mset (at s (Live c)) + mset (carried a)"
  shows "moves g a s (new, s')"
  using assms unfolding moves_def by (intro exI [of _ "Live c"]) simp

lemma carried_simps [simp]:
  "carried (Enqueue r) = [r]" "carried (Add r c) = [r]" "carried Unlock = []"
  "carried (Await r) = []" "carried (Join r) = []" "carried (Detach k rs cause requeue) = rs"
  "carried (Rehome rs cause requeue) = rs" "carried Close = []" "carried (Drain c) = []"
  "carried (SettleClosed rs) = rs" "carried Run = []" "carried Wake = []" "carried Claim = []"
  "carried (Flush b) = b" "carried (Flushed sps n e) = unsentOf n sps"
  "carried (FlushSettle sps n e cl cause bl sv rq) = rq @ unsentOf n sps"
  "carried (Fail c err hs) = []" "carried (TeardownSettle c rs err) = []" "carried Read = []"
  "carried (Deliver resp) = []" "carried (Complete r) = []" "carried (Expire c r) = []"
  "carried (Orphan c) = []"
  by (simp_all add: carried_def)

lemma unsentOf_simps [simp]:
  "unsentOf n [] = []"
  "unsentOf n (sp # sps) = (if unwritten n sp then fst sp # unsentOf n sps else unsentOf n sps)"
  by (simp_all add: unsentOf_def)

lemma carriedAll_Drain [simp]: "carriedAll (map Drain cs) = []"
  by (induction cs) simp_all

lemma subset_add_mset: "A \<subseteq># B \<Longrightarrow> A \<subseteq># add_mset x B"
  by (metis add_mset_add_single mset_subset_eq_add_left subset_mset.order_trans)

lemma claimAll_frame [simp]:
  "sy_conn (snd (claimAll c queued s)) = sy_conn s"
  "sy_stacks (snd (claimAll c queued s)) = sy_stacks s"
  "sy_conns (snd (claimAll c queued s)) = sy_conns s"
  "sy_closed (snd (claimAll c queued s)) = sy_closed s"
  "sy_holder (snd (claimAll c queued s)) = sy_holder s"
  "sy_nextConn (snd (claimAll c queued s)) = sy_nextConn s"
  "sy_nextReq (snd (claimAll c queued s)) = sy_nextReq s"
  "sy_panicked (snd (claimAll c queued s)) = sy_panicked s"
  by (induction c queued s rule: claimAll.induct) (simp_all add: Let_def case_prod_beta)

lemma claimAll_batch: "mset (fst (claimAll c queued s)) \<subseteq># mset queued"
  by (induction c queued s rule: claimAll.induct)
    (auto simp: Let_def case_prod_beta intro: subset_add_mset)

lemma spans_fst [simp]: "map fst (spans s n batch) = batch"
  by (induction s n batch rule: spans.induct) simp_all

lemma unsentOf_mset:
  "mset (map fst (filter (\<lambda>sp. \<not> unwritten n sp) sps)) + mset (unsentOf n sps) = mset (map fst sps)"
  by (induction sps) simp_all

lemma mset_drop_Suc: "mset (drop (Suc n) xs) \<subseteq># mset (drop n xs)"
  by (cases "drop n xs") (auto simp: drop_Suc tl_drop [symmetric] drop_tl)

lemma enqueue_moves: "enqueue cfg g now r s = Some out \<Longrightarrow> moves g (Enqueue r) s out"
  by (auto simp: enqueue_def split: if_splits prod.splits
      intro!: moves_within dest: pickLocked_shrinks)

lemma add_moves: "moves g (Add r c) s ([], add r c s)"
  by (rule moves_pend [of c]) (auto simp: add_def liveOf_def)

lemma detach_moves: "detach g c rs cause requeue s = Some out \<Longrightarrow> moves g (Detach c rs cause requeue) s out"
  by (auto simp: detach_def Let_def split: if_splits intro!: moves_same)

lemma rehome_moves: "moves g (Rehome rs cause requeue) s (rehome cfg now rs cause requeue s)"
  by (cases rs) (auto split: prod.splits intro!: moves_within dest: pickLocked_shrinks intro: subset_add_mset)

lemma close_moves: "close_pool s = Some out \<Longrightarrow> moves g Close s out"
  by (auto simp: close_pool_def split: if_splits intro!: moves_same)

lemma drain_moves: "moves g (Drain c) s (drain c s)"
  unfolding drain_def Let_def
  by (auto simp: liveOf_def intro!: moves_same moves_pend [of c])

lemma settleClosed_moves: "moves g (SettleClosed rs) s (settleClosed rs s)"
  by (cases rs) (auto intro!: moves_same)

lemma run_moves: "moves g Run s (run c inp s)"
  unfolding run_def
  by (auto simp: shrinks_def liveOf_def split: option.splits intro!: moves_within)

lemma awaitWake_moves: "awaitWake c s = Some out \<Longrightarrow> moves g Wake s out"
  by (auto simp: awaitWake_def liveOf_def fun_eq_iff split: if_splits intro!: moves_same)

lemma claim_moves: "moves g Claim s (claim c s)"
proof (cases "cn_closed (sy_conn s c)")
  case True
  then show ?thesis by (simp add: claim_def moves_same)
next
  case False
  let ?claimed = "claimAll c (cn_pending (sy_conn s c)) (upd_conn c (\<lambda>k. k\<lparr>cn_pending := []\<rparr>) s)"
  have "at (snd ?claimed) p = ((at s)(Pend c := [])) p" for p
    by (cases p) (auto simp: liveOf_def)
  then have "at (snd ?claimed) = (at s)(Pend c := [])" by blast
  moreover have "mset (fst ?claimed) \<subseteq># mset (cn_pending (sy_conn s c))" by (rule claimAll_batch)
  ultimately show ?thesis
    using False
    by (auto simp: claim_def case_prod_beta Let_def liveOf_def intro!: moves_pend [of c])
qed

lemma mset_drop: "mset (drop n xs) \<subseteq># mset xs"
  by (metis append_take_drop_id mset_append mset_subset_eq_add_right)

lemma flush_moves: "moves g (Flush b) s (flush c b inp s)"
proof -
  obtain n e where w: "fst (writeAll scriptedWriter (in_write inp) (flushBuffer s b) 0) = (n, e)"
    by fastforce
  let ?sps = "spans s 0 b"
  let ?whole = "map fst (filter (\<lambda>sp. \<not> unwritten n sp) ?sps)"
  have "mset ?whole + mset (unsentOf n ?sps) = mset b" using unsentOf_mset [of n ?sps] by simp
  moreover have "mset (drop i ?whole) \<subseteq># mset ?whole" for i by (rule mset_drop)
  ultimately have "mset (drop i ?whole) + mset (unsentOf n ?sps) \<subseteq># mset b"
    and "mset (unsentOf n ?sps) \<subseteq># mset b" for i
    by (metis subset_mset.add_right_mono, metis mset_subset_eq_add_right)
  then show ?thesis
    by (auto simp: flush_def Let_def w liveOf_def intro!: moves_live [of c])
qed

lemma flushed_moves: "moves g (Flushed sps n e) s (flushed c sps n e s)"
  unfolding flushed_def Let_def
  by (auto split: option.splits intro!: moves_same dest: at_cutTail)

lemma flushSettle_moves:
  "moves g (FlushSettle sps n e cl cause bl sv rq) s (flushSettle c sps n e cl cause bl sv rq s)"
proof (cases sps)
  case Nil
  then show ?thesis by (auto split: option.splits intro!: moves_same)
next
  case (Cons sp sps')
  obtain r start end' where sp: "sp = (r, start, end')" by (cases sp) auto
  show ?thesis
    by (auto simp: Cons sp Let_def unwritten_def intro!: moves_same intro: subset_add_mset)
qed

lemma teardown_moves: "carried a = [] \<Longrightarrow> moves g a s (teardownLocked c e hs s)"
  unfolding teardownLocked_def Let_def
  by (auto simp: liveOf_def intro!: moves_same moves_pend [of c])

lemma teardownSettle_moves: "moves g (TeardownSettle c rs e) s (teardownSettle c rs e s)"
  by (cases rs) (auto simp: Let_def intro!: moves_same)

lemma read_next_moves: "moves g Read s (read_next cfg c inp s)"
  unfolding read_next_def Let_def
  by (auto simp: liveOf_def fun_eq_iff split: prod.splits option.splits intro!: moves_same)

lemma deliver_moves: "moves g (Deliver resp) s (deliver c resp now s)"
  unfolding deliver_def Let_def
  by (auto simp: liveOf_def mset_drop_Suc split: list.splits intro!: moves_same moves_live [of c])

lemma giveUp_moves: "carried a = [] \<Longrightarrow> moves g a s (giveUp r e s)"
  by (auto simp: giveUp_def Let_def split: requestState.splits option.splits intro!: moves_same)

lemma join_moves: "join r s = Some out \<Longrightarrow> carried a = [] \<Longrightarrow> moves g a s out"
  by (auto simp: join_def split: if_splits intro!: moves_same)

lemma expire_moves: "moves g (Expire c r) s (expire c r s)"
  by (auto simp: expire_def intro!: moves_same teardown_moves)

lemma moves_silent [simp]: "at s' = at s \<Longrightarrow> moves g a s ([], s')"
  by (rule moves_same) simp_all

lemmas operation_moves = enqueue_moves add_moves detach_moves rehome_moves close_moves drain_moves
  settleClosed_moves run_moves awaitWake_moves claim_moves flush_moves flushed_moves
  flushSettle_moves teardown_moves teardownSettle_moves read_next_moves deliver_moves giveUp_moves
  join_moves expire_moves

lemma perform_moves: "perform cfg g inp a s = Some out \<Longrightarrow> moves g a s out"
  by (cases a)
    (auto simp: orphan_def await_def bind_eq_Some_conv operation_moves split: option.splits)

section \<open>Every reachable state\<close>

lemma pickScan_frame [simp]:
  "sy_req (snd (pickScan cfg now cs acc s)) = sy_req s"
  "sy_nextReq (snd (pickScan cfg now cs acc s)) = sy_nextReq s"
  "sy_nextConn (snd (pickScan cfg now cs acc s)) = sy_nextConn s"
  "sy_stacks (snd (pickScan cfg now cs acc s)) = sy_stacks s"
  "sy_closed (snd (pickScan cfg now cs acc s)) = sy_closed s"
  "sy_holder (snd (pickScan cfg now cs acc s)) = sy_holder s"
  "sy_panicked (snd (pickScan cfg now cs acc s)) = sy_panicked s"
  by (induction cfg now cs acc s rule: pickScan.induct) (simp_all add: status_def)

lemma newConn_frame [simp]:
  "sy_req (snd (newConn now s)) = sy_req s" "sy_nextReq (snd (newConn now s)) = sy_nextReq s"
  "sy_closed (snd (newConn now s)) = sy_closed s" "sy_holder (snd (newConn now s)) = sy_holder s"
  "sy_panicked (snd (newConn now s)) = sy_panicked s" "sy_conns (snd (newConn now s)) = sy_conns s"
  by (simp_all add: newConn_def Let_def)

lemma pickLocked_frame [simp]:
  "sy_req (snd (pickLocked cfg now s)) = sy_req s"
  "sy_nextReq (snd (pickLocked cfg now s)) = sy_nextReq s"
  "sy_closed (snd (pickLocked cfg now s)) = sy_closed s"
  "sy_holder (snd (pickLocked cfg now s)) = sy_holder s"
  "sy_panicked (snd (pickLocked cfg now s)) = sy_panicked s"
  by (simp_all add: pickLocked_def Let_def case_prod_beta)

lemma complete_frame [simp]:
  "sy_conns (complete r rs n e s) = sy_conns s" "sy_closed (complete r rs n e s) = sy_closed s"
  "sy_holder (complete r rs n e s) = sy_holder s" "sy_conn (complete r rs n e s) = sy_conn s"
  "sy_nextConn (complete r rs n e s) = sy_nextConn s" "sy_nextReq (complete r rs n e s) = sy_nextReq s"
  "sy_stacks (complete r rs n e s) = sy_stacks s" "sy_panicked (complete r rs n e s) = sy_panicked s"
  by (simp_all add: complete_def)

lemma completeWritten_frame [simp]:
  "sy_conns (completeWritten r e s) = sy_conns s" "sy_closed (completeWritten r e s) = sy_closed s"
  "sy_holder (completeWritten r e s) = sy_holder s" "sy_conn (completeWritten r e s) = sy_conn s"
  "sy_nextConn (completeWritten r e s) = sy_nextConn s" "sy_nextReq (completeWritten r e s) = sy_nextReq s"
  "sy_stacks (completeWritten r e s) = sy_stacks s" "sy_panicked (completeWritten r e s) = sy_panicked s"
  by (simp_all add: completeWritten_def)

lemma markOnWire_frame [simp]:
  "sy_conns (markOnWire sps s) = sy_conns s" "sy_closed (markOnWire sps s) = sy_closed s"
  "sy_holder (markOnWire sps s) = sy_holder s" "sy_conn (markOnWire sps s) = sy_conn s"
  "sy_nextConn (markOnWire sps s) = sy_nextConn s" "sy_nextReq (markOnWire sps s) = sy_nextReq s"
  "sy_stacks (markOnWire sps s) = sy_stacks s" "sy_panicked (markOnWire sps s) = sy_panicked s"
  by (induction sps s rule: markOnWire.induct) simp_all

lemma noteSent_frame [simp]:
  "sy_conns (noteSent n sps s) = sy_conns s" "sy_closed (noteSent n sps s) = sy_closed s"
  "sy_holder (noteSent n sps s) = sy_holder s" "sy_conn (noteSent n sps s) = sy_conn s"
  "sy_nextConn (noteSent n sps s) = sy_nextConn s" "sy_nextReq (noteSent n sps s) = sy_nextReq s"
  "sy_stacks (noteSent n sps s) = sy_stacks s" "sy_panicked (noteSent n sps s) = sy_panicked s"
  by (induction n sps s rule: noteSent.induct) simp_all

lemma cutTail_frame:
  "cutTail c n sps s = Some s' \<Longrightarrow>
     sy_conns s' = sy_conns s \<and> sy_closed s' = sy_closed s \<and> sy_holder s' = sy_holder s \<and>
     sy_nextConn s' = sy_nextConn s \<and> sy_nextReq s' = sy_nextReq s \<and> sy_stacks s' = sy_stacks s \<and>
     sy_panicked s' = sy_panicked s"
  by (induction c n sps s rule: cutTail.induct) (auto simp: Let_def split: if_splits)

lemma snd_of: "f = (a, b) \<Longrightarrow> snd f = b"
  by simp

lemmas operation_defs = enqueue_def add_def detach_def close_pool_def drain_def run_def
  awaitWake_def claim_def flush_def flushed_def teardownLocked_def read_next_def deliver_def
  giveUp_def join_def await_def expire_def orphan_def

lemma rehome_nextReq [simp]:
  "sy_nextReq (snd (rehome cfg now rs cause requeue s)) = sy_nextReq s"
  by (cases rs) (simp_all add: case_prod_beta)

lemma settleClosed_nextReq [simp]: "sy_nextReq (snd (settleClosed rs s)) = sy_nextReq s"
  by (cases rs) simp_all

lemma teardownSettle_nextReq [simp]: "sy_nextReq (snd (teardownSettle c rs e s)) = sy_nextReq s"
  by (cases rs) (simp_all add: Let_def)

lemma flushSettle_nextReq [simp]:
  "sy_nextReq (snd (flushSettle c sps n e cl cause bl sv rq s)) = sy_nextReq s"
proof (cases sps)
  case (Cons sp sps')
  then show ?thesis by (cases sp) (simp add: Let_def)
qed simp

lemma operation_nextReqD:
  "rehome cfg now rs cause requeue s = (new, s') \<Longrightarrow> sy_nextReq s' = sy_nextReq s"
  "settleClosed rs s = (new, s') \<Longrightarrow> sy_nextReq s' = sy_nextReq s"
  "teardownSettle c rs err s = (new, s') \<Longrightarrow> sy_nextReq s' = sy_nextReq s"
  "flushSettle c sps n e cl cause' bl sv rq s = (new, s') \<Longrightarrow> sy_nextReq s' = sy_nextReq s"
  by (metis rehome_nextReq snd_conv, metis settleClosed_nextReq snd_conv,
      metis teardownSettle_nextReq snd_conv, metis flushSettle_nextReq snd_conv)

lemma perform_nextReq: "perform cfg g inp a s = Some (new, s') \<Longrightarrow> sy_nextReq s' = sy_nextReq s"
  by (cases a)
    (auto simp: operation_defs Let_def case_prod_beta bind_eq_Some_conv
      dest!: cutTail_frame operation_nextReqD
      split: if_splits option.splits list.splits requestState.splits)

section \<open>Every reachable state\<close>

definition placed :: "sys \<Rightarrow> bool" where
  "placed s \<longleftrightarrow> owned_once (at s) \<and> (\<forall>p. \<forall>r \<in> set (at s p). r < sy_nextReq s)"

lemma moves_spawn:
  assumes own: "owned_once (at s)" and stack: "sy_stacks s g = a # rest"
    and moves: "moves g a s (new, s')"
  shows "owned_once (at (spawn g (new @ rest) s'))"
    and "set (at (spawn g (new @ rest) s') p) \<subseteq> (\<Union>q. set (at s q))"
proof -
  let ?B = "at (spawn g (new @ rest) s')"
  obtain P where P: "P \<noteq> Stack g" and frame: "\<And>p. p \<noteq> P \<Longrightarrow> mset (at s' p) \<subseteq># mset (at s p)"
    and moved: "mset (at s' P) + mset (carriedAll new) \<subseteq># mset (at s P) + mset (carried a)"
    using moves by (auto simp: moves_def)
  have other: "mset (?B p) \<subseteq># mset (at s p)" if "p \<noteq> P" "p \<noteq> Stack g" for p
    using that frame [of p] by simp
  have both: "mset (?B P) + mset (?B (Stack g)) \<subseteq># mset (at s P) + mset (at s (Stack g))"
    using P moved by (simp add: stack ac_simps)
  show "owned_once ?B" using owned_once_move [OF own P other both] .
  have "set (?B p) \<subseteq> set (at s P) \<union> set (at s (Stack g)) \<union> set (at s p)"
    using set_mset_mono [OF both] set_mset_mono [OF other [of p]] by (cases "p = P \<or> p = Stack g") auto
  then show "set (?B p) \<subseteq> (\<Union>q. set (at s q))" by blast
qed

lemma owned_once_new:
  assumes "owned_once A" and "\<And>p. r \<notin> set (A p)"
  shows "owned_once (A(P := [r]))"
  unfolding owned_once_def
proof (intro allI impI)
  fix p q :: place and x assume "p \<noteq> q"
  with assms(1) have "count (mset (A p)) x + count (mset (A q)) x \<le> 1"
    and "count (mset (A p)) x \<le> 1" and "count (mset (A q)) x \<le> 1"
    unfolding owned_once_def by (metis, metis add_leD1, metis add_leD2)
  moreover have "count (mset (A p)) r = 0" "count (mset (A q)) r = 0"
    using assms(2) by simp_all
  ultimately show "count (mset ((A(P := [r])) p)) x + count (mset ((A(P := [r])) q)) x \<le> 1"
    using \<open>p \<noteq> q\<close> by (cases "x = r"; cases "p = P"; cases "q = P") (simp_all del: count_mset_0_iff count_eq_zero_iff)
qed

lemma placed_occur:
  assumes "placed s"
  shows "placed (occur cfg e s)"
proof (cases e)
  case (Begin payload stop deadline now)
  have "owned_once ((at s)(Stack (Caller (sy_nextReq s)) := [sy_nextReq s]))"
    using assms by (intro owned_once_new) (auto simp: placed_def)
  with assms show ?thesis
    by (auto simp: Begin beginExchange_def Let_def placed_def less_SucI)
next
  case CloseClient
  have "at s (Stack Closer) = []" if "sy_stacks s Closer = []" using that by simp
  then have "at (occur cfg e s) = at s" by (auto simp: CloseClient fun_eq_iff)
  then show ?thesis using assms by (simp add: placed_def CloseClient)
next
  case (Step g inp)
  show ?thesis
  proof (cases "sy_panicked s \<or> sy_stacks s g = []")
    case True
    then show ?thesis using assms by (auto simp: Step step_def split: list.split)
  next
    case False
    then obtain a rest where stack: "sy_stacks s g = a # rest" by (meson list.exhaust)
    show ?thesis
    proof (cases "perform cfg g inp a s")
      case None
      then show ?thesis using assms by (simp add: Step step_def stack)
    next
      case (Some out)
      obtain new s' where out: "out = (new, s')" by fastforce
      note moved = perform_moves [OF Some] and next_req = perform_nextReq [OF Some [unfolded out]]
      let ?s = "spawn g (new @ rest) s'"
      have own: "owned_once (at s)" and fresh: "\<And>p r. r \<in> set (at s p) \<Longrightarrow> r < sy_nextReq s"
        using assms by (simp_all add: placed_def)
      note out = moves_spawn [OF own stack moved [unfolded out]] out
      have "owned_once (at ?s)" by (rule out(1))
      moreover have "r < sy_nextReq ?s" if "r \<in> set (at ?s p)" for p r
      proof -
        from out(2) that obtain q where "r \<in> set (at s q)" by blast
        with fresh next_req show ?thesis by simp
      qed
      ultimately have "placed ?s" unfolding placed_def by blast
      with False Some show ?thesis by (simp add: Step step_def stack out)
    qed
  qed
qed

end
