(* ===== verification/Reading.thy ===== *)
theory Reading
  imports Execution
begin

text \<open>
  What reading a response can yield: the errors a connection's reader meets are server
  errors, protocol errors and the socket's own, never errors that the client makes up about
  its commands, and a response that reaches a caller carries at most a protocol error.
\<close>

section \<open>Plain errors\<close>

lemma plain_sentinels [simp]:
  "plainError ErrClosed" "plainError CtxDeadlineExceeded" "plainError CtxCanceled"
  "plainError (ProtocolError m as)" "plainError (ServerError k m)" "plainError IoEOF"
  "plainError IoUnexpectedEOF" "plainError OsDeadlineExceeded" "plainError (EnvError m)"
  "plainError (ConnectionLostError cause)"
  by (simp_all add: plainError_def as_ambiguous_def as_usage_def)

lemma plain_framed [simp]: "plainError (FramedResponseError e) = plainError e"
  by (simp add: plainError_def as_ambiguous_def as_usage_def)

section \<open>Responses\<close>

definition flagsPlain :: "flag_state \<Rightarrow> bool" where
  "flagsPlain st \<longleftrightarrow> (case st of (r, b64, e) \<Rightarrow>
     raw_parseErr r = None \<and> (case e of None \<Rightarrow> True | Some x \<Rightarrow> plainError x))"

lemma flagsPlain_branches:
  "flagsPlain a \<Longrightarrow> flagsPlain b \<Longrightarrow> flagsPlain (if c then a else b)"
  "flagsPlain a \<Longrightarrow> (\<And>v. flagsPlain (f v)) \<Longrightarrow> flagsPlain (case t of None \<Rightarrow> a | Some v \<Rightarrow> f v)"
  by (simp_all split: option.split)

lemma flagsPlain_recordErr:
  "flagsPlain (r, b, e) \<Longrightarrow> plainError x \<Longrightarrow> flagsPlain (r, b', recordErr x e)"
  by (auto simp: flagsPlain_def recordErr_def split: option.split)

lemma flagsPlain_fields:
  "flagsPlain (r, b, e) \<Longrightarrow> raw_parseErr r' = raw_parseErr r \<Longrightarrow> flagsPlain (r', b', e)"
  by (simp add: flagsPlain_def)

lemma parseFlag_plain: "flagsPlain st \<Longrightarrow> flagsPlain (parseFlag f st)"
proof (induction f st rule: parseFlag.induct)
  case (2 code token r b64 e)
  note st = 2
  show ?case
    unfolding parseFlag.simps
    by (intro flagsPlain_branches flagsPlain_recordErr [OF st] flagsPlain_fields [OF st])
      (simp_all add: setMeta_def)
qed simp

lemma fold_parseFlag_plain: "flagsPlain st \<Longrightarrow> flagsPlain (fold parseFlag fs st)"
  by (induction fs arbitrary: st) (simp_all add: parseFlag_plain)

lemma parseResponseFlags_plain:
  assumes "raw_parseErr r = None" and "parseResponseFlags r = (r', e)"
  shows "raw_parseErr r' = None \<and> (case e of None \<Rightarrow> True | Some x \<Rightarrow> plainError x)"
proof -
  obtain r1 b e1 where st: "fold parseFlag (raw_Flags r) (r, False, None) = (r1, b, e1)"
    by (metis prod_cases3)
  have "flagsPlain (r1, b, e1)"
    using assms(1) fold_parseFlag_plain [of "(r, False, None)" "raw_Flags r"] by (simp add: st flagsPlain_def)
  with assms(2) st show ?thesis
    by (auto simp: parseResponseFlags_def finishFlags_def flagsPlain_def recordErr_def
        split: if_splits option.splits)
qed

lemma raw_parseErr_code [simp]: "raw_parseErr (raw_of_code code) = None"
  by (simp add: raw_of_code_def)

lemma deliverable_code [simp]: "deliverable (raw_of_code code)"
  by (simp add: deliverable_def)

text \<open>A pair as \<open>readRawResponse\<close> returns it, with nothing but plain errors in it.\<close>

definition readPlain :: "read_result \<Rightarrow> bool" where
  "readPlain out \<longleftrightarrow> deliverable (fst out) \<and>
     (case snd out of None \<Rightarrow> True | Some e \<Rightarrow> plainError e)"

lemma readPlain_Pair [simp]: "readPlain (r, None) = deliverable r"
  "readPlain (r, Some e) \<longleftrightarrow> deliverable r \<and> plainError e"
  by (simp_all add: readPlain_def)

lemma flagged_plain:
  assumes "raw_parseErr r = None"
  shows "readPlain (flagged r flags)"
proof -
  obtain r' e where out: "parseResponseFlags (r\<lparr>raw_Flags := flags\<rparr>) = (r', e)" by fastforce
  with assms show ?thesis
    using parseResponseFlags_plain [OF _ out]
    by (cases e) (auto simp: flagged_def readPlain_def deliverable_def)
qed

lemma readFull_err: "readFull n r = (out, r') \<Longrightarrow> rd_err r' = rd_err r"
  and readFull_plain: "readFull n r = (Inl e, r') \<Longrightarrow> plainError (rd_err r) \<Longrightarrow> plainError e"
  by (auto simp: readFull_def split: if_splits)

lemma readFull_plain_second:
  "readFull n r = (Inl e, r') \<Longrightarrow> readFull m r0 = (x, r) \<Longrightarrow> plainError (rd_err r0) \<Longrightarrow> plainError e"
  by (metis readFull_err readFull_plain)

lemma readValue_plain:
  assumes "plainError (rd_err r)" and "readValue mx parts r = (Inl e, r')"
  shows "plainError e"
  using assms
  by (auto simp: readValue_def split: if_splits option.splits prod.splits sum.splits
      dest: readFull_plain readFull_plain_second)

lemma readSlice_keeps_err: "rd_err (snd (readSlice r)) = rd_err r"
  and readSlice_plain: "fst (readSlice r) = SliceErr part e \<Longrightarrow> e = rd_err r"
  by (auto simp: readSlice_def Let_def split: if_splits)

lemma readLineLoop_plain:
  "plainError (rd_err r) \<Longrightarrow> plainError (rd_err (snd (readLineLoop line r))) \<and>
     (\<forall>e. fst (readLineLoop line r) = Inl e \<longrightarrow> plainError e)"
proof (induction line r rule: readLineLoop.induct)
  case (1 line r)
  obtain sl r' where slice: "readSlice r = (sl, r')" by fastforce
  have r': "rd_err r' = rd_err r" using readSlice_keeps_err [of r] by (simp add: slice)
  show ?case
  proof (cases sl)
    case (SliceLine part)
    with 1 slice r' show ?thesis
      by (simp add: readLineLoop.simps [of line r] finishLine_def)
  next
    case (SliceFull part)
    with 1 slice r' show ?thesis by (simp add: readLineLoop.simps [of line r])
  next
    case (SliceErr part e)
    then have "e = rd_err r" using readSlice_plain [of r] by (simp add: slice)
    with SliceErr 1 slice r' show ?thesis by (simp add: readLineLoop.simps [of line r])
  qed
qed

lemma readPlain_branches:
  "readPlain (fst a) \<Longrightarrow> readPlain (fst b) \<Longrightarrow> readPlain (fst (if c then a else b))"
  "readPlain (fst a) \<Longrightarrow> (\<And>x xs. readPlain (fst (f x xs))) \<Longrightarrow>
     readPlain (fst (case l of [] \<Rightarrow> a | x # xs \<Rightarrow> f x xs))"
  by (simp_all split: list.split)

lemma respondValue_plain:
  assumes "plainError (rd_err r)"
  shows "readPlain (fst (case readValue mx parts r of
      (Inl e, r') \<Rightarrow> (fatal e, r')
    | (Inr v, r') \<Rightarrow> (flagged ((raw_of_code code)\<lparr>raw_Value := v\<rparr>) flags, r')))"
proof -
  obtain out r' where v: "readValue mx parts r = (out, r')" by fastforce
  with assms show ?thesis by (cases out) (auto simp: flagged_plain dest: readValue_plain)
qed

lemma respondLine_plain:
  assumes "plainError (rd_err r)"
  shows "readPlain (fst (respondLine mx ln r))"
  unfolding respondLine_def
  by (intro readPlain_branches respondValue_plain assms)
    (simp_all add: flagged_plain deliverable_def)

lemma readRawResponse_plain:
  assumes "plainError (rd_err r)"
  shows "readPlain (fst (readRawResponse mx r))"
proof -
  obtain out r1 where line: "readLine r = (out, r1)" by fastforce
  note plain = readLineLoop_plain [OF assms, of "[]", unfolded readLine_def [symmetric] line]
  show ?thesis
    using plain by (cases out) (simp_all add: readRawResponse_def line respondLine_plain)
qed

end
