(* ===== verification/Accounting.thy ===== *)
theory Accounting
  imports Ownership Reading
begin

text \<open>
  What a caller is told about its request's bytes is what happened to them: at most the
  reported number of payload bytes was ever handed to a socket. The proof follows a request
  through the pool. While it is queued nothing of it was written; while a writer holds it,
  a caller that gives up on it is told that all of it may be on the wire; and the writer
  that settles it reports exactly what it wrote.
\<close>

section \<open>What is kept of a request\<close>

definition plainOpt :: "goerr option \<Rightarrow> bool" where
  "plainOpt e \<longleftrightarrow> (case e of None \<Rightarrow> True | Some e \<Rightarrow> plainError e)"

lemma plainOpt_simps [simp]: "plainOpt None" "plainOpt (Some e) = plainError e"
  by (simp_all add: plainOpt_def)

definition payload_len :: "request \<Rightarrow> nat" where
  "payload_len q = length (rq_payload q)"

text \<open>\<open>ok_result n\<close>: a result that reports \<open>n\<close> bytes or more.\<close>

definition ok_result :: "nat \<Rightarrow> request \<Rightarrow> exchanged \<Rightarrow> bool" where
  "ok_result n q out \<longleftrightarrow> (case out of (rs, written, e) \<Rightarrow>
     n \<le> written \<and> written \<le> payload_len q \<and> plainOpt e \<and> list_all deliverable rs)"

definition ok_req :: "request \<Rightarrow> bool" where
  "ok_req q \<longleftrightarrow>
     rq_sent q \<le> payload_len q \<and> (rq_state q = RequestQueued \<longrightarrow> rq_sent q = 0) \<and>
     (rq_state q = RequestWriting \<longrightarrow> rq_result q = None) \<and>
     (rq_done q \<longrightarrow> rq_state q = RequestDone \<and> ok_result (rq_sent q) q (resultOf q)) \<and>
     (rq_state q = RequestDone \<longrightarrow> rq_done q \<or> rq_result q \<noteq> None) \<and>
     (\<forall>out. rq_result q = Some out \<longrightarrow> ok_result (rq_sent q) q out) \<and>
     list_all deliverable (rq_responses q)"

text \<open>A request that is queued somewhere.\<close>

definition ok_queued :: "request \<Rightarrow> bool" where
  "ok_queued q \<longleftrightarrow> rq_state q \<noteq> RequestWriting \<and> rq_sent q = 0 \<and>
     (rq_result q \<noteq> None \<longrightarrow> rq_state q = RequestDone)"

text \<open>A request a writer holds, with \<open>n\<close> bytes of it on the socket.\<close>

definition told_all :: "request \<Rightarrow> bool" where
  "told_all q \<longleftrightarrow> (rq_done q \<longrightarrow> rq_written q = payload_len q) \<and>
     (\<forall>rs n e. rq_result q = Some (rs, n, e) \<longrightarrow> n = payload_len q)"

definition ok_writing :: "nat \<Rightarrow> request \<Rightarrow> bool" where
  "ok_writing n q \<longleftrightarrow> rq_state q \<noteq> RequestQueued \<and> rq_sent q = n \<and>
     (rq_state q = RequestDone \<longrightarrow> told_all q)"

fun writing :: "action \<Rightarrow> (nat \<times> nat) list" where
  "writing (Flush batch) = map (\<lambda>r. (r, 0)) batch"
| "writing (Flushed sps n e) = map (\<lambda>(r, start, end'). (r, n - start)) (filter (unwritten n) sps)"
| "writing (FlushSettle sps n e closed cause blamed served requeue) =
     map (\<lambda>(r, start, end'). (r, n - start)) (filter (unwritten n) sps)"
| "writing _ = []"

lemma map_fst_writing: "map fst (writing a) = writtenBy a"
  by (cases a) (auto simp: unsentOf_def comp_def)

fun sane :: "action \<Rightarrow> bool" where
  "sane (Detach c rs cause requeue) \<longleftrightarrow> plainOpt cause \<and> (rs = [] \<or> requeue \<or> cause \<noteq> None)"
| "sane (Rehome rs cause requeue) \<longleftrightarrow> plainOpt cause \<and> (rs = [] \<or> requeue \<or> cause \<noteq> None)"
| "sane (Flushed sps n e) \<longleftrightarrow> plainOpt e \<and> (e = None \<longrightarrow> unsentOf n sps = [])"
| "sane (FlushSettle sps n e closed cause blamed served requeue) \<longleftrightarrow>
     plainOpt e \<and> plainOpt cause \<and> (e = None \<longrightarrow> unsentOf n sps = []) \<and>
     (requeue \<noteq> [] \<longrightarrow> served) \<and> (blamed \<noteq> None \<longrightarrow> cause \<noteq> None)"
| "sane (Fail c e headSaw) \<longleftrightarrow> plainError e"
| "sane (TeardownSettle c rs e) \<longleftrightarrow> plainError e"
| "sane (Deliver response) \<longleftrightarrow> deliverable response"
| "sane _ \<longleftrightarrow> True"

definition ok_action :: "(nat \<Rightarrow> request) \<Rightarrow> action \<Rightarrow> bool" where
  "ok_action reqs a \<longleftrightarrow> sane a \<and> (\<forall>r \<in> set (queuedBy a). ok_queued (reqs r)) \<and>
     (\<forall>(r, n) \<in> set (writing a). ok_writing n (reqs r))"

definition ok_conn :: "muxConn \<Rightarrow> bool" where
  "ok_conn k \<longleftrightarrow> plainOpt (cn_cause k) \<and> (cn_blamed k \<noteq> None \<longrightarrow> cn_cause k \<noteq> None)"

definition accounted :: "sys \<Rightarrow> bool" where
  "accounted s \<longleftrightarrow> (\<forall>r. ok_req (sy_req s r)) \<and>
     (\<forall>c. ok_conn (sy_conn s c) \<and> (\<forall>r \<in> set (cn_pending (sy_conn s c)). ok_queued (sy_req s r))) \<and>
     (\<forall>g. \<forall>a \<in> set (sy_stacks s g). ok_action (sy_req s) a)"

section \<open>Quiet changes\<close>

text \<open>
  A change of a request that any goroutine may make, whoever holds the request: whatever
  is kept of it as queued or as being written is kept by the change.
\<close>

definition quiet :: "request \<Rightarrow> request \<Rightarrow> bool" where
  "quiet q q' \<longleftrightarrow> (ok_req q \<longrightarrow> ok_req q' \<and> (ok_queued q \<longrightarrow> ok_queued q') \<and>
     (\<forall>n. ok_writing n q \<longrightarrow> ok_writing n q'))"

lemma quiet_refl [simp]: "quiet q q"
  by (simp add: quiet_def)

lemma quiet_trans: "quiet q q' \<Longrightarrow> quiet q' q'' \<Longrightarrow> quiet q q''"
  by (auto simp: quiet_def)

lemmas request_defs = ok_req_def ok_queued_def ok_writing_def told_all_def ok_result_def
  payload_len_def resultOf_def

lemma quiet_conn [simp]: "quiet q (q\<lparr>rq_conn := x\<rparr>)"
  and quiet_onWire [simp]: "quiet q (q\<lparr>rq_onWire := b\<rparr>)"
  by (auto simp: quiet_def request_defs)

lemma quiet_response: "deliverable x \<Longrightarrow> quiet q (q\<lparr>rq_responses := rq_responses q @ [x]\<rparr>)"
  by (auto simp: quiet_def request_defs)

lemma quiet_giveUp_queued:
  "rq_state q = RequestQueued \<Longrightarrow> plainError e \<Longrightarrow>
     quiet q (q\<lparr>rq_state := RequestDone, rq_result := Some ([], 0, Some e)\<rparr>)"
  by (auto simp: quiet_def request_defs)

lemma quiet_giveUp_writing:
  "rq_state q = RequestWriting \<Longrightarrow> plainError e \<Longrightarrow>
     quiet q (q\<lparr>rq_state := RequestDone, rq_result := Some ([], length (rq_payload q), Some e)\<rparr>)"
  by (auto simp: quiet_def request_defs)

lemma quiet_join: "rq_done q \<Longrightarrow> quiet q (q\<lparr>rq_result := Some (resultOf q)\<rparr>)"
  by (auto simp: quiet_def request_defs)

lemma quiet_completeWritten:
  "plainOpt e \<Longrightarrow> quiet (sy_req s x) (sy_req (completeWritten r e s) x)"
  by (cases "rq_state (sy_req s r)")
    (auto simp: completeWritten_def complete_def quiet_def request_defs payloadLen_def)

section \<open>One step\<close>

lemma ok_action_quiet:
  assumes "ok_action reqs a" and "\<And>r. ok_req (reqs r)"
    and "\<And>r. r \<in> set (carried a) \<Longrightarrow> quiet (reqs r) (reqs' r)"
  shows "ok_action reqs' a"
proof -
  have "quiet (reqs r) (reqs' r)" if "(r, n) \<in> set (writing a)" for r n
    using assms(3) [of r] that map_fst_writing [of a]
    by (metis UnCI carried_def fst_conv image_eqI list.set_map set_append)
  moreover have "quiet (reqs r) (reqs' r)" if "r \<in> set (queuedBy a)" for r
    using assms(3) [of r] that by (simp add: carried_def)
  ultimately show ?thesis
    using assms(1,2) unfolding ok_action_def quiet_def by (auto split: prod.splits)
qed

lemma ok_action_empty: "carried a = [] \<Longrightarrow> sane a \<Longrightarrow> ok_action reqs a"
  using map_fst_writing [of a] by (simp add: ok_action_def carried_def)

text \<open>
  What a step has to establish: the requests it changes otherwise than quietly, \<open>X\<close>, are
  ones it carries or takes out of one queue.
\<close>

lemma accounted_step:
  assumes own: "owned_once (at s)" and acc: "accounted s" and stack: "sy_stacks s g = a # rest"
    and reqs: "\<And>r. ok_req (sy_req s' r)"
    and quiet: "\<And>r. r \<notin> X \<Longrightarrow> quiet (sy_req s r) (sy_req s' r)"
    and X: "X \<subseteq> set (carried a) \<or> X \<subseteq> set (cn_pending (sy_conn s c)) \<and> cn_pending (sy_conn s' c) = []"
    and conns: "\<And>c. ok_conn (sy_conn s' c)"
    and pending: "\<And>c r. r \<in> set (cn_pending (sy_conn s' c)) \<Longrightarrow>
        r \<in> set (cn_pending (sy_conn s c)) \<or> ok_queued (sy_req s' r)"
    and stacks: "\<And>h. sy_stacks s' h = sy_stacks s h \<or> list_all (\<lambda>a. carried a = [] \<and> sane a) (sy_stacks s' h)"
    and new: "\<And>a'. a' \<in> set new \<Longrightarrow> ok_action (sy_req s') a'"
  shows "accounted (spawn g (new @ rest) s')"
proof -
  have ok: "\<And>r. ok_req (sy_req s r)" using acc by (simp add: accounted_def)
  have in_stack: "set (carried b) \<subseteq> set (at s (Stack h))" if "b \<in> set (sy_stacks s h)" for b h
    using that by (auto simp: carriedAll_def)
  have X_stack: "X \<subseteq> set (at s (Stack g)) \<or> X \<subseteq> set (at s (Pend c))"
    using X in_stack [of a g] stack by auto
  have away: "r \<notin> X" if "r \<in> set (at s p)" "p \<noteq> Stack g" "p \<noteq> Pend c" for r p
    using that X_stack owned_onceD [OF own, of r p] by blast
  have away_rest: "r \<notin> X" if "r \<in> set (carriedAll rest)" for r
  proof
    assume "r \<in> X"
    from that stack have r: "r \<in> set (at s (Stack g))" by simp
    have "distinct (at s (Stack g))" by (rule owned_once_distinct [OF own])
    with that stack have "r \<notin> set (carried a)" by auto
    moreover have "r \<notin> set (at s (Pend c))" using owned_onceD [OF own r, of "Pend c"] by blast
    ultimately show False using X \<open>r \<in> X\<close> by auto
  qed
  have queued: "ok_queued (sy_req s' r)" if "r \<in> set (cn_pending (sy_conn s' k))" for r k
  proof (cases "ok_queued (sy_req s' r)")
    case False
    with pending [OF that] have r: "r \<in> set (at s (Pend k))" by auto
    have "r \<notin> X"
    proof
      assume "r \<in> X"
      with X that show False
        using owned_onceD [OF own r, of "Pend c"] owned_onceD [OF own r, of "Stack g"] in_stack [of a g] stack
        by auto
    qed
    then show ?thesis using quiet [of r] ok acc r by (auto simp: quiet_def accounted_def)
  qed
  have others: "ok_action (sy_req s') b" if b: "b \<in> set (sy_stacks s h)"
      and far: "h \<noteq> g \<or> b \<in> set rest" for b h
  proof (rule ok_action_quiet)
    show "ok_action (sy_req s) b" using acc b by (auto simp: accounted_def)
    show "quiet (sy_req s r) (sy_req s' r)" if r: "r \<in> set (carried b)" for r
    proof (rule quiet, cases "h = g")
      case True
      then have "r \<in> set (carriedAll rest)" using far r by (auto simp: carriedAll_def)
      then show "r \<notin> X" by (rule away_rest)
    next
      case False
      have "r \<in> set (at s (Stack h))" using in_stack [OF b] r by auto
      then show "r \<notin> X" using away False by blast
    qed
  qed (rule ok)
  have "ok_action (sy_req s') b" if b: "b \<in> set (sy_stacks s' h)" and "h \<noteq> g" for b h
    using stacks [of h] others [of b h] that by (auto simp: list_all_iff ok_action_empty)
  moreover have "ok_action (sy_req s') b" if "b \<in> set (new @ rest)" for b
    using that new others [of b g] stack by auto
  ultimately show ?thesis
    using reqs conns queued by (auto simp: accounted_def)
qed

section \<open>The operations\<close>

inductive accounts :: "action \<Rightarrow> sys \<Rightarrow> action list \<times> sys \<Rightarrow> bool" where
  accountsI: "accounts a s (new, s')"
    if "\<forall>r. ok_req (sy_req s' r)"
      and "\<forall>r. r \<notin> X \<longrightarrow> quiet (sy_req s r) (sy_req s' r)"
      and "X \<subseteq> set (carried a) \<or>
        X \<subseteq> set (cn_pending (sy_conn s c)) \<and> cn_pending (sy_conn s' c) = []"
      and "\<forall>c. ok_conn (sy_conn s' c)"
      and "\<forall>c. \<forall>r \<in> set (cn_pending (sy_conn s' c)).
        r \<in> set (cn_pending (sy_conn s c)) \<or> ok_queued (sy_req s' r)"
      and "\<forall>h. sy_stacks s' h = sy_stacks s h \<or>
        list_all (\<lambda>a. carried a = [] \<and> sane a) (sy_stacks s' h)"
      and "\<forall>a' \<in> set new. ok_action (sy_req s') a'"

lemma accounts_step:
  assumes "owned_once (at s)" and "accounted s" and "sy_stacks s g = a # rest"
    and "accounts a s (new, s')"
  shows "accounted (spawn g (new @ rest) s')"
  using assms(4)
proof cases
  case (accountsI X c)
  show ?thesis
    by (rule accounted_step [OF assms(1-3), where X = X and c = c]) (use accountsI in simp_all)
qed

text \<open>A step that changes one request it carries.\<close>

lemma accounts_own:
  assumes acc: "accounted s" and r: "r \<in> set (carried a)" and req: "ok_req (sy_req s' r)"
    and others: "\<And>x. x \<noteq> r \<Longrightarrow> sy_req s' x = sy_req s x"
    and same: "sy_conn s' = sy_conn s" "sy_stacks s' = sy_stacks s"
    and new: "\<And>a'. a' \<in> set new \<Longrightarrow> ok_action (sy_req s') a'"
  shows "accounts a s (new, s')"
proof -
  have "ok_req (sy_req s' x)" for x
    using acc req others [of x] by (cases "x = r") (auto simp: accounted_def)
  moreover have "x \<notin> {r} \<longrightarrow> quiet (sy_req s x) (sy_req s' x)" for x using others [of x] by simp
  moreover have "{r} \<subseteq> set (carried a)" using r by simp
  moreover have "ok_conn (sy_conn s c)" for c using acc by (simp add: accounted_def)
  ultimately show ?thesis
    using new by (intro accountsI [where X = "{r}"]) (simp_all add: same)
qed

text \<open>A step that changes requests quietly.\<close>

lemma accounts_quiet:
  assumes acc: "accounted s" and quiet: "\<And>r. quiet (sy_req s r) (sy_req s' r)"
    and "\<And>c. ok_conn (sy_conn s' c)"
    and "\<And>c r. r \<in> set (cn_pending (sy_conn s' c)) \<Longrightarrow>
      r \<in> set (cn_pending (sy_conn s c)) \<or> ok_queued (sy_req s' r)"
    and "\<And>h. sy_stacks s' h = sy_stacks s h \<or> list_all (\<lambda>a. carried a = [] \<and> sane a) (sy_stacks s' h)"
    and "\<And>a'. a' \<in> set new \<Longrightarrow> ok_action (sy_req s') a'"
  shows "accounts a s (new, s')"
proof -
  have "ok_req (sy_req s' r)" for r
    using acc quiet [of r] by (simp add: accounted_def quiet_def)
  then show ?thesis
    using assms by (intro accountsI [where X = "{}"]) simp_all
qed

lemma accountedD:
  assumes "accounted s"
  shows "ok_req (sy_req s r)" and "ok_conn (sy_conn s c)"
    and "r \<in> set (cn_pending (sy_conn s c)) \<Longrightarrow> ok_queued (sy_req s r)"
    and "sy_stacks s g = a # rest \<Longrightarrow> ok_action (sy_req s) a"
  using assms by (auto simp: accounted_def) (metis list.set_intros(1))

lemma ok_action_simps [simp]:
  "ok_action q (Add r c) = ok_queued (q r)" "ok_action q (Enqueue r) = ok_queued (q r)"
  "ok_action q Unlock" "ok_action q (Await r)" "ok_action q (Join r)" "ok_action q Close"
  "ok_action q (Drain c)" "ok_action q Run" "ok_action q Wake" "ok_action q Claim"
  "ok_action q Read" "ok_action q (Complete r)" "ok_action q (Expire c r)" "ok_action q (Orphan c)"
  "ok_action q (Fail c e hs) = plainError e" "ok_action q (TeardownSettle c rs e) = plainError e"
  "ok_action q (Deliver x) = deliverable x"
  "ok_action q (SettleClosed rs) = (\<forall>r \<in> set rs. ok_queued (q r))"
  "ok_action q (Rehome rs cause rq) =
     (plainOpt cause \<and> (rs = [] \<or> rq \<or> cause \<noteq> None) \<and> (\<forall>r \<in> set rs. ok_queued (q r)))"
  "ok_action q (Detach k rs cause rq) =
     (plainOpt cause \<and> (rs = [] \<or> rq \<or> cause \<noteq> None) \<and> (\<forall>r \<in> set rs. ok_queued (q r)))"
  "ok_action q (Flush b) = (\<forall>r \<in> set b. ok_writing 0 (q r))"
  by (auto simp: ok_action_def)

lemma plain_ctxErr [simp]: "plainError (ctxErr e)"
  by (cases e) simp_all

lemma plain_netErr [simp]: "plainError (netErr e)"
  by (cases e) simp_all

lemma ok_conn_fresh [simp]: "ok_conn (freshConn now)"
  by (simp add: ok_conn_def freshConn_def)

lemma ok_conn_setters [simp]:
  "ok_conn (signal k) = ok_conn k" "ok_conn (closeSocket k) = ok_conn k" "ok_conn (retire k) = ok_conn k"
  by (simp_all add: ok_conn_def retire_def)

lemma pickScan_ok_conn: "(\<And>c. ok_conn (sy_conn s c)) \<Longrightarrow> ok_conn (sy_conn (snd (pickScan cfg now cs acc s)) c)"
  by (induction cfg now cs acc s rule: pickScan.induct) (auto simp: status_def)

lemma pickLocked_conns:
  assumes "accounted s"
  shows "ok_conn (sy_conn (snd (pickLocked cfg now s)) c)"
    and "r \<in> set (cn_pending (sy_conn (snd (pickLocked cfg now s)) k)) \<Longrightarrow> r \<in> set (cn_pending (sy_conn s k))"
    and "sy_stacks (snd (pickLocked cfg now s)) h = sy_stacks s h \<or> sy_stacks (snd (pickLocked cfg now s)) h = [Run]"
proof -
  show "ok_conn (sy_conn (snd (pickLocked cfg now s)) c)"
    using pickScan_ok_conn [of s cfg now "sy_conns s" "([], None)" c] accountedD(2) [OF assms]
    by (auto simp: pickLocked_def newConn_def Let_def case_prod_beta)
  have "shrinks (at (snd (pickLocked cfg now s))) (at s)"
    by (rule pickLocked_shrinks [of cfg now s "fst (pickLocked cfg now s)"]) simp
  then have "at (snd (pickLocked cfg now s)) (Pend k) = at s (Pend k) \<or>
      at (snd (pickLocked cfg now s)) (Pend k) = []" unfolding shrinks_def by blast
  then show "r \<in> set (cn_pending (sy_conn (snd (pickLocked cfg now s)) k)) \<Longrightarrow> r \<in> set (cn_pending (sy_conn s k))"
    by auto
  show "sy_stacks (snd (pickLocked cfg now s)) h = sy_stacks s h \<or> sy_stacks (snd (pickLocked cfg now s)) h = [Run]"
    by (auto simp: pickLocked_def newConn_def Let_def case_prod_beta)
qed

lemma accounts_pick:
  assumes acc: "accounted s" and pick: "pickLocked cfg now s = (c, s1)"
    and s': "sy_req s' = sy_req s1" "sy_conn s' = sy_conn s1" "sy_stacks s' = sy_stacks s1"
    and new: "\<And>a'. a' \<in> set new \<Longrightarrow> ok_action (sy_req s) a'"
  shows "accounts a s (new, s')"
proof (rule accounts_quiet [OF acc])
  have s1: "s1 = snd (pickLocked cfg now s)" by (simp add: pick)
  note conns = pickLocked_conns [OF acc, where cfg = cfg and now = now, folded s1]
  show "quiet (sy_req s r) (sy_req s' r)" for r by (simp add: s' s1)
  show "ok_conn (sy_conn s' c)" for c by (simp add: s' conns)
  show "r \<in> set (cn_pending (sy_conn s c)) \<or> ok_queued (sy_req s' r)"
    if "r \<in> set (cn_pending (sy_conn s' c))" for c r
    using that conns by (simp add: s')
  show "sy_stacks s' h = sy_stacks s h \<or> list_all (\<lambda>a. carried a = [] \<and> sane a) (sy_stacks s' h)" for h
    using conns(3) [of h] by (auto simp: s')
  show "ok_action (sy_req s') a'" if "a' \<in> set new" for a' using new [OF that] by (simp add: s' s1)
qed

lemma enqueue_accounts:
  assumes "accounted s" and "ok_queued (sy_req s r)" and "enqueue cfg g now r s = Some out"
  shows "accounts (Enqueue r) s out"
proof (cases "sy_closed s")
  case True
  with assms(3) have out: "out = ([], upd_req r (\<lambda>q. q\<lparr>rq_result := Some ([], 0, Some ErrClosed)\<rparr>) s)"
    by (auto simp: enqueue_def split: if_splits)
  have "ok_req (sy_req s r)" using assms(1) by (rule accountedD)
  with assms(2) show ?thesis
    by (auto simp: out request_defs intro!: accounts_own [OF assms(1), of r])
next
  case False
  with assms show ?thesis
    by (auto simp: enqueue_def split: if_splits prod.splits intro!: accounts_pick)
qed

text \<open>A step that changes one connection and no request.\<close>

lemma accounts_conn:
  assumes acc: "accounted s" and conn: "ok_conn (f (sy_conn s c))"
    and pend: "\<And>r. r \<in> set (cn_pending (f (sy_conn s c))) \<Longrightarrow>
      r \<in> set (cn_pending (sy_conn s c)) \<or> ok_queued (sy_req s r)"
    and new: "\<And>a'. a' \<in> set new \<Longrightarrow> ok_action (sy_req s) a'"
  shows "accounts a s (new, upd_conn c f s)"
proof (rule accounts_quiet [OF acc])
  show "ok_conn (sy_conn (upd_conn c f s) k)" for k
    using conn accountedD(2) [OF acc] by (cases "k = c") simp_all
qed (use pend new in \<open>auto split: if_splits\<close>)

lemma add_accounts:
  assumes "accounted s" and "ok_queued (sy_req s r)"
  shows "accounts (Add r c) s ([], add r c s)"
  using assms accountedD(2) [OF assms(1), of c]
  by (auto simp: add_def ok_conn_def intro!: accounts_conn)

lemma accounts_same_reqs:
  assumes acc: "accounted s"
    and "sy_req s' = sy_req s" "sy_conn s' = sy_conn s" "sy_stacks s' = sy_stacks s"
    and new: "\<And>a'. a' \<in> set new \<Longrightarrow> ok_action (sy_req s) a'"
  shows "accounts a s (new, s')"
  using assms accountedD(2) [OF acc] by (intro accounts_quiet) simp_all

lemma accounts_refl [simp]: "accounted s \<Longrightarrow> accounts a s ([], s)"
  by (rule accounts_same_reqs) simp_all

lemma detach_accounts:
  assumes "accounted s" and "ok_action (sy_req s) (Detach c rs cause rq)"
    and "detach g c rs cause rq s = Some out"
  shows "accounts (Detach c rs cause rq) s out"
  using assms
  by (auto simp: detach_def Let_def split: if_splits intro!: accounts_same_reqs)

lemma accounts_complete_none:
  assumes acc: "accounted s" and r: "r \<in> set (carried a)" and q: "ok_queued (sy_req s r)" and e: "plainOpt e"
    and new: "\<And>a'. a' \<in> set new \<Longrightarrow> sane a' \<and> (\<forall>x \<in> set (queuedBy a'). ok_queued (sy_req s x)) \<and> writing a' = []"
  shows "accounts a s (new, complete r [] 0 e s)"
proof (rule accounts_own [OF acc r])
  show "ok_req (sy_req (complete r [] 0 e s) r)"
    using accountedD(1) [OF acc, of r] q e by (auto simp: complete_def request_defs)
  have keep: "ok_queued (sy_req s x) \<Longrightarrow> ok_queued (sy_req (complete r [] 0 e s) x)" for x
    by (auto simp: complete_def request_defs)
  show "ok_action (sy_req (complete r [] 0 e s)) a'" if "a' \<in> set new" for a'
    using new [OF that] keep by (auto simp: ok_action_def)
qed (simp_all add: complete_def)

lemma rehome_accounts:
  assumes "accounted s" and "ok_action (sy_req s) (Rehome rs cause rq)"
  shows "accounts (Rehome rs cause rq) s (rehome cfg now rs cause rq s)"
proof (cases rs)
  case Nil
  with assms(1) show ?thesis by simp
next
  case (Cons r rest)
  show ?thesis
  proof (cases "rq_state (sy_req s r) = RequestQueued")
    case False
    with assms Cons show ?thesis by (auto intro!: accounts_same_reqs)
  next
    case True
    obtain c s' where pick: "pickLocked cfg now s = (c, s')" by fastforce
    show ?thesis
    proof (cases rq)
      case True
      with assms Cons pick \<open>rq_state (sy_req s r) = RequestQueued\<close> show ?thesis
        by (auto intro!: accounts_pick [OF _ pick])
    next
      case False
      with assms Cons \<open>rq_state (sy_req s r) = RequestQueued\<close> show ?thesis
        by (auto intro!: accounts_complete_none)
    qed
  qed
qed

lemma close_accounts:
  "accounted s \<Longrightarrow> close_pool s = Some out \<Longrightarrow> accounts Close s out"
  by (auto simp: close_pool_def split: if_splits intro!: accounts_same_reqs)

lemma settleClosed_accounts:
  "accounted s \<Longrightarrow> ok_action (sy_req s) (SettleClosed rs) \<Longrightarrow>
     accounts (SettleClosed rs) s (settleClosed rs s)"
  by (cases rs) (auto intro!: accounts_same_reqs accounts_complete_none)

lemma drain_accounts:
  assumes "accounted s"
  shows "accounts (Drain c) s (drain c s)"
proof (cases "cn_closed (sy_conn s c)")
  case True
  with assms show ?thesis by (simp add: drain_def)
next
  case False
  with assms show ?thesis
    using accountedD(2) [OF assms, of c] accountedD(3) [OF assms]
    by (auto simp: drain_def Let_def ok_conn_def intro!: accounts_conn)
qed

lemma teardown_accounts:
  assumes "accounted s" and "plainError e"
  shows "accounts a s (teardownLocked c e hs s)"
proof (cases "cn_closed (sy_conn s c)")
  case True
  with assms show ?thesis by (simp add: teardownLocked_def)
next
  case False
  with assms show ?thesis
    using accountedD(3) [OF assms(1)]
    by (auto simp: teardownLocked_def Let_def ok_conn_def intro!: accounts_conn)
qed

text \<open>A step whose changes of requests are all quiet and that leaves the connections alone.\<close>

lemma accounts_quiet_reqs:
  assumes acc: "accounted s" and "\<And>r. quiet (sy_req s r) (sy_req s' r)"
    and "sy_conn s' = sy_conn s" "sy_stacks s' = sy_stacks s"
    and "\<And>a'. a' \<in> set new \<Longrightarrow> ok_action (sy_req s') a'"
  shows "accounts a s (new, s')"
  using assms accountedD(2) [OF acc] by (intro accounts_quiet) simp_all

lemma complete_accounts:
  "accounted s \<Longrightarrow> accounts (Complete r) s ([], completeWritten r None s)"
  by (intro accounts_quiet_reqs) (simp_all add: quiet_completeWritten)

lemma teardownSettle_accounts:
  assumes "accounted s" and "plainError e"
  shows "accounts (TeardownSettle c rs e) s (teardownSettle c rs e s)"
  using assms
  by (cases rs) (auto simp: Let_def quiet_completeWritten intro!: accounts_quiet_reqs)

lemma join_accounts:
  assumes "accounted s" and "join r s = Some out"
  shows "accounts a s out"
  using assms by (auto simp: join_def quiet_join split: if_splits intro!: accounts_quiet_reqs)

lemma giveUp_accounts:
  assumes "accounted s"
  shows "accounts (Await r) s (giveUp r e s)"
  using assms
  by (cases "rq_state (sy_req s r)")
    (auto simp: giveUp_def Let_def quiet_giveUp_queued quiet_giveUp_writing split: option.splits
      intro!: accounts_quiet_reqs)

lemma ok_conn_arm [simp]: "ok_conn (sy_conn (armReadDeadlineLocked c s) x) = ok_conn (sy_conn s x)"
  by (simp add: ok_conn_def)

lemma arm_accounts: "accounted s \<Longrightarrow> accounts a s ([], armReadDeadlineLocked c s)"
  by (intro accounts_quiet) (simp_all add: accountedD(2))

lemma expire_accounts: "accounted s \<Longrightarrow> accounts (Expire c r) s (expire c r s)"
  by (simp add: expire_def teardown_accounts arm_accounts)

lemma orphan_accounts: "accounted s \<Longrightarrow> accounts (Orphan c) s ([], orphan c s)"
  by (simp add: orphan_def arm_accounts)

lemma run_accounts:
  assumes "accounted s"
  shows "accounts Run s (run c inp s)"
proof (cases "in_dial inp")
  case (Some e)
  with assms show ?thesis by (auto simp: run_def intro!: accounts_same_reqs)
next
  case None
  show ?thesis
  proof (cases "cn_closed (sy_conn s c)")
    case True
    with assms None show ?thesis by (simp add: run_def)
  next
    case False
    with assms None show ?thesis
      using accountedD(2) [OF assms]
      by (auto simp: run_def ok_conn_def split: if_splits intro!: accounts_quiet)
  qed
qed

lemma awaitWake_accounts:
  assumes "accounted s" and "awaitWake c s = Some out"
  shows "accounts Wake s out"
  using assms accountedD(2) [OF assms(1), of c]
  by (auto simp: awaitWake_def ok_conn_def split: if_splits intro!: accounts_conn)

lemma read_next_accounts:
  assumes "accounted s"
  shows "accounts Read s (read_next cfg c inp s)"
proof -
  let ?k = "sy_conn s c"
  define rd where "rd = (cn_reader ?k)\<lparr>
    rd_buf := rd_buf (cn_reader ?k) @ (if cn_sockClosed ?k then [] else in_bytes inp),
    rd_err := netErr (in_err inp)\<rparr>"
  obtain resp err rd' where read: "readRawResponse (nat (cfg_maxItemSize cfg)) rd = ((resp, err), rd')"
    by (cases "readRawResponse (nat (cfg_maxItemSize cfg)) rd") (metis prod.exhaust)
  have "plainError (rd_err rd)" by (simp add: rd_def)
  then have "readPlain (resp, err)"
    using readRawResponse_plain [of rd "nat (cfg_maxItemSize cfg)"] by (simp add: read)
  then have ok: "deliverable resp" "err = Some e \<Longrightarrow> plainError e" for e
    by (auto simp: readPlain_def)
  let ?s = "upd_conn c (\<lambda>k. k\<lparr>cn_reader := rd'\<rparr>) s"
  have conn: "accounts Read s (new, ?s)" if "\<And>a. a \<in> set new \<Longrightarrow> ok_action (sy_req s) a" for new
    using that accountedD(2) [OF assms, of c]
    by (intro accounts_conn assms) (simp_all add: ok_conn_def)
  show ?thesis
  proof (cases err)
    case None
    have "read_next cfg c inp s = ([Deliver resp], ?s)"
      by (simp add: read_next_def Let_def rd_def [symmetric] read None)
    with ok show ?thesis by (simp only:) (rule conn, simp)
  next
    case (Some e)
    have "read_next cfg c inp s = ([if as_framed e then Deliver resp
        else Fail c (if errors_is e OsDeadlineExceeded then CtxDeadlineExceeded else e) True], ?s)"
      by (simp add: read_next_def Let_def rd_def [symmetric] read Some)
    with ok Some show ?thesis by (simp only:) (rule conn, simp)
  qed
qed

lemma arm_other [simp]: "x \<noteq> c \<Longrightarrow> sy_conn (armReadDeadlineLocked c s) x = sy_conn s x"
  by (simp add: armReadDeadlineLocked_def)

lemma deliver_completes:
  assumes k: "\<not> cn_closed (sy_conn s c)" "cn_inflight (sy_conn s c) = head # rest"
    and stop: "rq_stop (sy_req s head) response"
  shows "fst (deliver c response now s) =
      [Complete head] @ (if cn_closing (sy_conn s c) \<and> rest = [] then [] else [Read])"
    and "sy_req (snd (deliver c response now s)) = (sy_req s)(head :=
      (sy_req s head)\<lparr>rq_responses := rq_responses (sy_req s head) @ [response]\<rparr>)"
    and "sy_stacks (snd (deliver c response now s)) = sy_stacks s" and "x \<noteq> c \<Longrightarrow> sy_conn (snd (deliver c response now s)) x = sy_conn s x"
    and "cn_pending (sy_conn (snd (deliver c response now s)) x) = cn_pending (sy_conn s x)"
    and "cn_cause (sy_conn (snd (deliver c response now s)) x) = cn_cause (sy_conn s x)"
    and "cn_blamed (sy_conn (snd (deliver c response now s)) x) = cn_blamed (sy_conn s x)"
    and "cn_log (sy_conn (snd (deliver c response now s)) x) = cn_log (sy_conn s x)"
    and "cn_wire (sy_conn (snd (deliver c response now s)) x) = cn_wire (sy_conn s x)"
    and "cn_inflight (sy_conn (snd (deliver c response now s)) c) = rest"
    and "cn_answered (sy_conn (snd (deliver c response now s)) c) = cn_answered (sy_conn s c) @ [head]"
    and "cn_closed (sy_conn (snd (deliver c response now s)) c) = (cn_closing (sy_conn s c) \<and> rest = [])"
  by (simp_all add: deliver_def Let_def k stop)

lemma deliver_waits:
  assumes "\<not> cn_closed (sy_conn s c)" and "cn_inflight (sy_conn s c) = head # rest"
    and "\<not> rq_stop (sy_req s head) response"
  shows "deliver c response now s = ([Read],
     upd_req head (\<lambda>q. q\<lparr>rq_responses := rq_responses q @ [response]\<rparr>) s)"
  using assms by (simp add: deliver_def Let_def)

lemma deliver_accounts:
  assumes "accounted s" and "deliverable response"
  shows "accounts (Deliver response) s (deliver c response now s)"
proof (cases "cn_closed (sy_conn s c) \<or> cn_inflight (sy_conn s c) = []")
  case True
  with assms show ?thesis by (auto simp: deliver_def Let_def intro!: accounts_same_reqs)
next
  case False
  then obtain head rest where k: "\<not> cn_closed (sy_conn s c)" "cn_inflight (sy_conn s c) = head # rest"
    by (meson list.exhaust)
  let ?q = "(sy_req s head)\<lparr>rq_responses := rq_responses (sy_req s head) @ [response]\<rparr>"
  have quiet: "quiet (sy_req s r) (((sy_req s)(head := ?q)) r)" for r
    using assms(2) by (simp add: quiet_response)
  show ?thesis
  proof (cases "rq_stop (sy_req s head) response")
    case False
    with k show ?thesis
      by (simp add: deliver_waits)
        (rule accounts_quiet_reqs [OF assms(1)], use quiet in \<open>simp_all add: fun_upd_def\<close>)
  next
    case True
    note effect = deliver_completes [OF k True, where now = now]
    obtain new s' where out: "deliver c response now s = (new, s')" by fastforce
    have "accounts (Deliver response) s (new, s')"
    proof (rule accounts_quiet [OF assms(1)])
      show "ok_conn (sy_conn s' x)" for x
        using accountedD(2) [OF assms(1), of x] effect(6,7) [of x] by (simp add: out ok_conn_def)
      show "quiet (sy_req s r) (sy_req s' r)" for r using effect(2) quiet [of r] by (simp add: out)
    qed (use effect in \<open>auto simp: out split: if_splits\<close>)
    then show ?thesis by (simp add: out)
  qed
qed

end
