(* ===== verification/Accounting_Writer.thy ===== *)
theory Accounting_Writer
  imports Accounting
begin

text \<open>
  The writer's part of the accounting: claiming a batch, writing it and settling what a
  failed write left; then every reachable state of a pool keeps the account.
\<close>

section \<open>The writer\<close>

lemma claimAll_req:
  "sy_req (snd (claimAll c queued s)) r =
     (if r \<in> set queued then
        (if rq_state (sy_req s r) = RequestQueued
         then (sy_req s r)\<lparr>rq_conn := Some c, rq_state := RequestWriting\<rparr>
         else (sy_req s r)\<lparr>rq_conn := Some c\<rparr>)
      else sy_req s r)"
  by (induction c queued s rule: claimAll.induct) (auto simp: Let_def case_prod_beta)

lemma claimAll_set:
  "set (fst (claimAll c queued s)) = {r \<in> set queued. rq_state (sy_req s r) = RequestQueued}"
  by (induction c queued s rule: claimAll.induct) (auto simp: Let_def case_prod_beta split: if_splits)

lemma claim_accounts:
  assumes acc: "accounted s"
  shows "accounts Claim s (claim c s)"
proof (cases "cn_closed (sy_conn s c)")
  case True
  with acc show ?thesis by (simp add: claim_def)
next
  case False
  let ?queue = "cn_pending (sy_conn s c)"
  let ?s0 = "upd_conn c (\<lambda>k. k\<lparr>cn_pending := []\<rparr>) s"
  obtain batch s1 where claimed: "claimAll c ?queue ?s0 = (batch, s1)" by fastforce
  have req: "sy_req s1 r = (if r \<in> set ?queue then
        (if rq_state (sy_req s r) = RequestQueued
         then (sy_req s r)\<lparr>rq_conn := Some c, rq_state := RequestWriting\<rparr>
         else (sy_req s r)\<lparr>rq_conn := Some c\<rparr>) else sy_req s r)" for r
    using claimAll_req [of c ?queue ?s0 r] by (simp add: claimed)
  have batch: "set batch = {r \<in> set ?queue. rq_state (sy_req s r) = RequestQueued}"
    using claimAll_set [of c ?queue ?s0] by (simp add: claimed)
  have frame: "sy_conn s1 = (sy_conn s)(c := (sy_conn s c)\<lparr>cn_pending := []\<rparr>)"
    "sy_stacks s1 = sy_stacks s"
    using claimAll_frame(1,2) [of c ?queue ?s0] by (simp_all add: claimed)
  have queued: "ok_queued (sy_req s r)" if "r \<in> set ?queue" for r using acc that by (rule accountedD)
  have taken: "ok_req (sy_req s1 r) \<and> ok_writing 0 (sy_req s1 r)" if "r \<in> set batch" for r
    using that queued [of r] accountedD(1) [OF acc, of r]
    by (cases "rq_result (sy_req s r)") (auto simp: batch req request_defs)
  have quiet: "quiet (sy_req s r) (sy_req s1 r)" if "r \<notin> set batch" for r
    using that by (auto simp: batch req)
  have ok: "ok_req (sy_req s1 r)" for r
    using taken [of r] quiet [of r] accountedD(1) [OF acc, of r] by (auto simp: quiet_def)
  have gen: "accounts Claim s (new, s')"
    if "sy_req s' = sy_req s1" "sy_stacks s' = sy_stacks s"
      and "\<And>x. cn_pending (sy_conn s' x) = cn_pending (sy_conn s1 x)"
      and "\<And>x. ok_conn (sy_conn s' x)"
      and "\<And>a. a \<in> set new \<Longrightarrow> a = Wake \<or> a = Claim \<or> a = Flush batch" for new s'
  proof -
    have "ok_action (sy_req s') a" if "a \<in> set new" for a
      using \<open>a \<in> set new \<Longrightarrow> a = Wake \<or> a = Claim \<or> a = Flush batch\<close> [OF that] taken
      by (auto simp: \<open>sy_req s' = sy_req s1\<close>)
    with that ok quiet batch show ?thesis
      by (intro accountsI [where X = "set batch" and c = c]) (auto simp: frame)
  qed
  have conn: "ok_conn (sy_conn s x)" for x using acc by (rule accountedD)
  then have ok1: "ok_conn (sy_conn s1 x)" for x by (simp add: frame) (simp add: ok_conn_def)
  then have ok2: "ok_conn ((sy_conn s1 c)\<lparr>cn_inflight := z\<rparr>)" for z by (simp add: ok_conn_def)
  show ?thesis
    using False ok1 ok2
    by (auto simp: claim_def claimed Let_def frame(2) intro!: gen)
qed

lemma spans_mem:
  "(r, start, end') \<in> set (spans s n b) \<Longrightarrow>
     end' = start + payloadLen s r \<and> n \<le> start \<and> end' \<le> n + length (flushBuffer s b)"
  by (induction s n b rule: spans.induct) (auto simp: flushBuffer_def payloadLen_def)

lemma noteSent_other:
  "r \<notin> fst ` set sps \<Longrightarrow> sy_req (noteSent n sps s) r = sy_req s r"
  by (induction n sps s rule: noteSent.induct) auto

lemma noteSent_mem:
  assumes "distinct (map fst sps)" and "(r, start, end') \<in> set sps"
  shows "sy_req (noteSent n sps s) r =
     (sy_req s r)\<lparr>rq_sent := rq_sent (sy_req s r) + (min n end' - start)\<rparr>"
  using assms
proof (induction sps arbitrary: s)
  case (Cons sp sps)
  show ?case
  proof (cases "(r, start, end') = sp")
    case True
    have "r \<notin> fst ` set sps" using Cons.prems(1) unfolding True [symmetric] by simp
    then show ?thesis unfolding True [symmetric] by (simp add: noteSent_other spanSent_def)
  next
    case False
    have mem: "(r, start, end') \<in> set sps" using False Cons.prems(2) by simp
    then have "r \<in> fst ` set sps" by (rule rev_image_eqI) simp
    moreover have "fst sp \<notin> fst ` set sps" and d: "distinct (map fst sps)" using Cons.prems(1) by simp_all
    ultimately have r: "r \<noteq> fst sp" by metis
    show ?thesis using Cons.IH [OF d mem] r by simp
  qed
qed simp

lemma scriptedWriter_plain:
  "fst (scriptedWriter script data) = (n, Some e) \<Longrightarrow> plainError e"
  by (induction script data rule: scriptedWriter.induct) auto

lemma writeAll_outcome:
  assumes "\<And>st data n e. fst (wr st data) = (n, Some e) \<Longrightarrow> plainError e"
    and "fst (writeAll wr st data written) = (n, e)"
  shows "case e of None \<Rightarrow> length data \<le> n | Some x \<Rightarrow> plainError x"
  using assms
proof (induction wr st data written rule: writeAll.induct)
  case (1 wr st data written)
  show ?case
  proof (cases "written < length data")
    case False
    with 1(3) show ?thesis by (auto simp: writeAll.simps [of wr st data written])
  next
    case True
    obtain m d st' where w: "wr st (drop written data) = ((m, d), st')" by (metis prod.exhaust)
    show ?thesis
    proof (cases "d = None \<and> m \<noteq> 0")
      case False
      with 1(2) [of st "drop written data"] 1(3) True show ?thesis
        by (auto simp: writeAll.simps [of wr st data written] w split: option.splits)
    next
      case again: True
      then show ?thesis
        using 1(1) [OF True w [symmetric] refl] 1(2,3) True
        by (simp add: writeAll.simps [of wr st data written] w)
    qed
  qed
qed

lemma ok_sent:
  assumes "ok_req q" and "ok_writing 0 q" and "n \<le> payload_len q"
  shows "ok_req (q\<lparr>rq_sent := rq_sent q + n\<rparr>)" and "ok_writing n (q\<lparr>rq_sent := rq_sent q + n\<rparr>)"
  using assms by (cases "rq_state q"; cases "rq_result q"; auto simp: request_defs)+

lemma flush_accounts:
  assumes acc: "accounted s" and dist: "distinct b"
    and held: "\<And>r. r \<in> set b \<Longrightarrow> ok_writing 0 (sy_req s r)"
  shows "accounts (Flush b) s (flush c b inp s)"
proof -
  let ?sps = "spans s 0 b"
  obtain n e where w: "fst (writeAll scriptedWriter (in_write inp) (flushBuffer s b) 0) = (n, e)"
    by fastforce
  have wr: "case e of None \<Rightarrow> length (flushBuffer s b) \<le> n | Some x \<Rightarrow> plainError x"
    by (rule writeAll_outcome [OF _ w]) (rule scriptedWriter_plain)
  obtain s1 where out: "flush c b inp s = ([Flushed ?sps n e], noteSent n ?sps s1)"
    and s1: "sy_req s1 = sy_req s" "sy_stacks s1 = sy_stacks s"
      "\<And>x. cn_pending (sy_conn s1 x) = cn_pending (sy_conn s x)"
      "\<And>x. ok_conn (sy_conn s1 x) = ok_conn (sy_conn s x)"
    by (rule that [of "upd_conn c _ s"]) (auto simp: flush_def w Let_def ok_conn_def)
  have req: "sy_req (noteSent n ?sps s1) r = sy_req s r" if "r \<notin> set b" for r
    using noteSent_other [of r ?sps n s1] that spans_fst [of s 0 b] by (metis list.set_map s1(1))
  have span: "ok_req (sy_req (noteSent n ?sps s1) r) \<and>
      ok_writing (min n end' - start) (sy_req (noteSent n ?sps s1) r)"
    if "(r, start, end') \<in> set ?sps" for r start end'
  proof -
    have "r \<in> set b" using that spans_fst [of s 0 b] by (metis fst_conv image_eqI list.set_map)
    with held spans_mem [OF that] accountedD(1) [OF acc, of r]
      noteSent_mem [of ?sps r start end' n s1] dist that
    show ?thesis by (simp add: s1 ok_sent payloadLen_def payload_len_def)
  qed
  have "ok_req (sy_req (noteSent n ?sps s1) r)" for r
  proof (cases "r \<in> set b")
    case True
    then obtain start end' where "(r, start, end') \<in> set ?sps"
      by (metis spans_fst imageE list.set_map prod.collapse)
    then show ?thesis using span by blast
  next
    case False
    then show ?thesis using accountedD(1) [OF acc, of r] req by simp
  qed
  moreover have "ok_action (sy_req (noteSent n ?sps s1)) (Flushed ?sps n e)"
    using wr span spans_mem
    by (auto simp: ok_action_def unsentOf_def unwritten_def filter_empty_conv split: option.splits) fastforce+
  ultimately show ?thesis
    unfolding out using req s1 accountedD(2) [OF acc]
    by (intro accountsI [where X = "set b"]) auto
qed

lemma quiet_same: "q' = q \<Longrightarrow> quiet q q'"
  by simp

lemma quiet_markOnWire [simp]: "quiet (sy_req s r) (sy_req (markOnWire sps s) r)"
proof (induction sps s rule: markOnWire.induct)
  case (2 sp sps s)
  show ?case
    using quiet_trans [OF _ 2, of "sy_req s r"] by (cases "r = fst sp") simp_all
qed simp

lemma cutTail_quiet: "cutTail c n sps s = Some s' \<Longrightarrow> quiet (sy_req s r) (sy_req s' r)"
proof (induction c n sps s rule: cutTail.induct)
  case (2 c n r' start end' sps s)
  show ?case
  proof (cases "n < end'")
    case True
    with 2(2) show ?thesis by (auto simp: Let_def split: if_splits)
  next
    case False
    with 2 have "quiet (sy_req (upd_req r' (\<lambda>q. q\<lparr>rq_onWire := True\<rparr>) s) r) (sy_req s' r)" by simp
    then show ?thesis by (rule quiet_trans [rotated]) simp
  qed
qed simp

lemma cutTail_conn:
  "cutTail c n sps s = Some s' \<Longrightarrow> x \<noteq> c \<Longrightarrow> sy_conn s' x = sy_conn s x"
  "cutTail c n sps s = Some s' \<Longrightarrow>
     \<exists>tl. sy_conn s' c = (sy_conn s c)\<lparr>cn_inflight := take tl (cn_inflight (sy_conn s c))\<rparr>"
proof (induction c n sps s rule: cutTail.induct)
  case (1 c n s)
  { case 1 then show ?case by simp }
  { case 2 then show ?case by (intro exI [of _ "length (cn_inflight (sy_conn s c))"]) simp }
next
  case (2 c n r start end' sps s)
  { case 1 with 2 show ?case by (auto simp: Let_def split: if_splits) }
  { case 2 with "2.IH" show ?case by (auto simp: Let_def split: if_splits) }
qed

lemma ok_action_settle:
  "ok_action q (FlushSettle sps n e cl cause bl sv []) \<longleftrightarrow>
     ok_action q (Flushed sps n e) \<and> plainOpt cause \<and> (bl \<noteq> None \<longrightarrow> cause \<noteq> None)"
  by (auto simp: ok_action_def)

lemma flushed_accounts:
  assumes acc: "accounted s" and ok: "ok_action (sy_req s) (Flushed sps n e)"
  shows "accounts (Flushed sps n e) s (flushed c sps n e s)"
proof -
  let ?k = "sy_conn s c"
  let ?settle = "FlushSettle sps n e (cn_closed ?k) (cn_cause ?k) (cn_blamed ?k) (cn_served ?k) []"
  have settle: "ok_action (sy_req s) ?settle"
    using ok accountedD(2) [OF acc, of c] by (auto simp: ok_action_settle ok_conn_def)
  consider (fine) "e = None" "\<not> cn_closed ?k" | (torn) "cn_closed ?k" | (cut) "e \<noteq> None" "\<not> cn_closed ?k"
    by blast
  then show ?thesis
  proof cases
    case fine
    then show ?thesis by (auto simp: flushed_def Let_def intro!: accounts_quiet_reqs [OF acc])
  next
    case torn
    with settle show ?thesis by (auto simp: flushed_def Let_def intro!: accounts_same_reqs [OF acc])
  next
    case cut
    show ?thesis
    proof (cases "cutTail c n sps s")
      case None
      with cut show ?thesis by (auto simp: flushed_def Let_def intro!: accounts_same_reqs [OF acc])
    next
      case (Some s')
      note quiet = cutTail_quiet [OF Some]
      obtain tl where conn: "sy_conn s' c = ?k\<lparr>cn_inflight := take tl (cn_inflight ?k)\<rparr>"
        using cutTail_conn(2) [OF Some] by blast
      have fields: "cn_pending (sy_conn s' x) = cn_pending (sy_conn s x)"
        "ok_conn (sy_conn s' x) = ok_conn (sy_conn s x)" for x
        using conn cutTail_conn(1) [OF Some, of x] by (cases "x = c"; simp add: ok_conn_def)+
      have "accounts (Flushed sps n e) s ([?settle], s')"
      proof (rule accounts_quiet [OF acc quiet])
        show "ok_action (sy_req s') a'" if "a' \<in> set [?settle]" for a'
          using that ok_action_quiet [OF settle accountedD(1) [OF acc] quiet] by simp
      qed (use cutTail_frame [OF Some] in \<open>simp_all add: fields accountedD(2) [OF acc]\<close>)
      moreover have "flushed c sps n e s = ([?settle], s')"
        using cut Some by (auto simp: flushed_def Let_def)
      ultimately show ?thesis by simp
    qed
  qed
qed

lemma ok_action_settle_Cons:
  "ok_action q (FlushSettle ((r, start, end') # sps) n e cl cause bl sv rq) \<Longrightarrow>
     (n < end' \<longrightarrow> e \<noteq> None \<and> ok_writing (n - start) (q r)) \<and>
     plainOpt e \<and> plainOpt cause \<and> ok_action q (FlushSettle sps n e cl cause bl sv rq)"
  by (auto simp: ok_action_def unwritten_def split: if_splits)

text \<open>Changing a request that a settling loop has passed leaves the rest of the loop as it was.\<close>

lemma ok_action_other:
  assumes "ok_action q a" and "\<And>x. x \<in> set (carried a) \<Longrightarrow> q' x = q x"
  shows "ok_action q' a"
proof -
  have "q' x = q x" if "(x, m) \<in> set (writing a)" for x m
    using that assms(2) [of x] map_fst_writing [of a]
    by (metis UnCI carried_def fst_conv image_eqI list.set_map set_append)
  moreover have "q' x = q x" if "x \<in> set (queuedBy a)" for x
    using that assms(2) [of x] by (simp add: carried_def)
  ultimately show ?thesis using assms(1) by (auto simp: ok_action_def)
qed

lemma flushSettle_out:
  "flushSettle c ((r, start, end') # sps) n e cl cause bl sv rq s =
     (if end' \<le> n then
        ([FlushSettle sps n e cl cause bl sv rq],
         if cl then completeWritten r (if bl = Some r then cause else Some (ConnectionLostError cause)) s else s)
      else if sv \<and> n \<le> start \<and> rq_state (sy_req s r) = RequestWriting
        then ([FlushSettle sps n e cl cause bl sv (rq @ [r])],
              upd_req r (\<lambda>q. q\<lparr>rq_state := RequestQueued\<rparr>) s)
      else ([FlushSettle sps n e cl cause bl sv rq], complete r [] (n - start) e s))"
  by (simp add: Let_def)

text \<open>A request of the batch that was not written whole is the settling writer's own.\<close>

lemma settle_own:
  assumes acc: "accounted s" and ok: "ok_action (sy_req s) (FlushSettle sps n e cl cause bl sv rq)"
    and r: "r \<in> set (carried a)" and apart: "r \<notin> set (rq @ unsentOf n sps)"
    and q: "ok_req (sy_req s' r)" and other: "\<And>x. x \<noteq> r \<Longrightarrow> sy_req s' x = sy_req s x"
    and same: "sy_conn s' = sy_conn s" "sy_stacks s' = sy_stacks s"
    and rq': "rq' = rq \<or> rq' = rq @ [r] \<and> ok_queued (sy_req s' r) \<and> sv"
  shows "accounts a s ([FlushSettle sps n e cl cause bl sv rq'], s')"
proof (rule accounts_own [OF acc r q other same])
  have "ok_action (sy_req s') (FlushSettle sps n e cl cause bl sv rq)"
    by (rule ok_action_other [OF ok]) (metis apart carried_simps(16) other)
  with rq' have "ok_action (sy_req s') (FlushSettle sps n e cl cause bl sv rq')"
    by (auto simp: ok_action_def)
  then show "ok_action (sy_req s') a'" if "a' \<in> set [FlushSettle sps n e cl cause bl sv rq']" for a'
    using that by simp
qed

lemma flushSettle_accounts:
  assumes acc: "accounted s" and ok: "ok_action (sy_req s) (FlushSettle sps n e cl cause bl sv rq)"
    and dist: "distinct (carried (FlushSettle sps n e cl cause bl sv rq))"
  shows "accounts (FlushSettle sps n e cl cause bl sv rq) s (flushSettle c sps n e cl cause bl sv rq s)"
proof (cases sps)
  case Nil
  with acc ok show ?thesis
    by (auto simp: ok_action_def split: option.splits intro!: accounts_same_reqs)
next
  case (Cons sp sps')
  obtain r start end' where sp: "sp = (r, start, end')" by (cases sp) auto
  let ?a = "FlushSettle ((r, start, end') # sps') n e cl cause bl sv rq"
  note okC = ok_action_settle_Cons [OF ok [unfolded Cons sp]]
  then have rest: "ok_action (sy_req s) (FlushSettle sps' n e cl cause bl sv rq)" by simp
  have "accounts ?a s (flushSettle c ((r, start, end') # sps') n e cl cause bl sv rq s)"
  proof (cases "end' \<le> n")
    case True
    let ?x = "if bl = Some r then cause else Some (ConnectionLostError cause)"
    have x: "plainOpt ?x" using okC by simp
    note quiet = quiet_completeWritten [OF x, of s _ r]
    have "accounts ?a s ([FlushSettle sps' n e cl cause bl sv rq], completeWritten r ?x s)"
      by (rule accounts_quiet_reqs [OF acc quiet])
        (simp_all add: ok_action_quiet [OF rest accountedD(1) [OF acc] quiet])
    moreover have "accounts ?a s ([FlushSettle sps' n e cl cause bl sv rq], s)"
      by (rule accounts_same_reqs [OF acc]) (simp_all add: rest)
    ultimately show ?thesis unfolding flushSettle_out if_P [OF True] by (cases cl) (simp_all only: if_True if_False)
  next
    case False
    with okC have writing: "ok_writing (n - start) (sy_req s r)" and e: "plainOpt e" by simp_all
    have r: "r \<in> set (carried ?a)" and apart: "r \<notin> set (rq @ unsentOf n sps')"
      using False dist by (auto simp: Cons sp unwritten_def)
    note req = accountedD(1) [OF acc, of r]
    show ?thesis
    proof (cases "sv \<and> n \<le> start \<and> rq_state (sy_req s r) = RequestWriting")
      case True
      let ?s = "upd_req r (\<lambda>q. q\<lparr>rq_state := RequestQueued\<rparr>) s"
      have "ok_req (sy_req ?s r)" and "ok_queued (sy_req ?s r)"
        using writing req True by (auto simp: request_defs)
      with True have "accounts ?a s ([FlushSettle sps' n e cl cause bl sv (rq @ [r])], ?s)"
        by (intro settle_own [OF acc rest r apart]) simp_all
      with True False show ?thesis unfolding flushSettle_out by simp
    next
      case kept: False
      have "ok_req (sy_req (complete r [] (n - start) e s) r)"
        using writing req e
        by (cases "rq_state (sy_req s r)"; cases "rq_result (sy_req s r)") (auto simp: complete_def request_defs)
      then have "accounts ?a s ([FlushSettle sps' n e cl cause bl sv rq], complete r [] (n - start) e s)"
        by (intro settle_own [OF acc rest r apart]) (simp_all add: complete_def)
      with kept False show ?thesis unfolding flushSettle_out by (simp only: if_False)
    qed
  qed
  then show ?thesis by (simp only: Cons sp)
qed

section \<open>Every reachable state\<close>

lemma perform_accounts:
  assumes acc: "accounted s" and ok: "ok_action (sy_req s) a" and dist: "distinct (carried a)"
    and "perform cfg g inp a s = Some out"
  shows "accounts a s out"
proof (cases a)
  case (Await r)
  with assms(4) show ?thesis
    by (auto simp: await_def join_accounts [OF acc] giveUp_accounts [OF acc] split: option.splits)
next
  case (Flush b)
  with assms show ?thesis by (auto simp: flush_accounts)
next
  case (FlushSettle sps n e cl cause bl sv rq)
  with assms show ?thesis by (auto simp: flushSettle_accounts simp del: carried_simps)
next
  case (Unlock)
  with assms show ?thesis by (auto intro!: accounts_same_reqs)
qed (use assms in \<open>auto simp: bind_eq_Some_conv enqueue_accounts add_accounts detach_accounts
    rehome_accounts close_accounts drain_accounts settleClosed_accounts run_accounts
    awaitWake_accounts claim_accounts flushed_accounts teardown_accounts teardownSettle_accounts
    read_next_accounts deliver_accounts complete_accounts expire_accounts orphan_accounts join_accounts\<close>)

lemma accounted_init: "accounted initSys"
  by (simp add: accounted_def initSys_def newRequest_def request_defs freshConn_def ok_conn_def)

lemma accounted_begin:
  assumes placed: "placed s" and acc: "accounted s"
  shows "accounted (beginExchange cfg payload stop deadline now s)"
proof -
  let ?r = "sy_nextReq s"
  let ?new = "newRequest payload stop (exchangeDeadline cfg now deadline)"
  have new: "ok_req ?new" "ok_queued ?new" by (simp_all add: newRequest_def request_defs)
  have fresh: "?r \<notin> set (at s p)" for p using placed by (auto simp: placed_def)
  have "?r \<notin> set (cn_pending (sy_conn s c))" for c using fresh [of "Pend c"] by simp
  then have "ok_queued (((sy_req s)(?r := ?new)) r)" if "r \<in> set (cn_pending (sy_conn s c))" for r c
    using accountedD(3) [OF acc that] that by auto
  moreover have "ok_action ((sy_req s)(?r := ?new)) a" if a: "a \<in> set (sy_stacks s g)" for a g
  proof (rule ok_action_other)
    show "ok_action (sy_req s) a" using acc a by (auto simp: accounted_def)
    show "((sy_req s)(?r := ?new)) x = sy_req s x" if "x \<in> set (carried a)" for x
      using fresh [of "Stack g"] that a by (auto simp: carriedAll_def)
  qed
  ultimately show ?thesis
    using acc new by (auto simp: accounted_def beginExchange_def Let_def)
qed

lemma accounted_occur:
  assumes placed: "placed s" and acc: "accounted s"
  shows "accounted (occur cfg e s)"
proof (cases e)
  case (Begin payload stop deadline now)
  then show ?thesis using accounted_begin [OF placed acc] by simp
next
  case CloseClient
  then show ?thesis using acc by (auto simp: accounted_def)
next
  case (Step g inp)
  show ?thesis
  proof (cases "sy_panicked s \<or> sy_stacks s g = []")
    case True
    then show ?thesis using acc by (auto simp: Step step_def split: list.split)
  next
    case False
    then obtain a rest where stack: "sy_stacks s g = a # rest" by (meson list.exhaust)
    have own: "owned_once (at s)" using placed by (simp add: placed_def)
    then have "distinct (at s (Stack g))" by (rule owned_once_distinct)
    then have dist: "distinct (carried a)" by (simp add: stack)
    show ?thesis
    proof (cases "perform cfg g inp a s")
      case None
      then show ?thesis using acc by (simp add: Step step_def stack)
    next
      case (Some out)
      obtain new s' where out: "out = (new, s')" by fastforce
      have "accounts a s (new, s')"
        using perform_accounts [OF acc accountedD(4) [OF acc stack] dist Some] by (simp add: out)
      then have "accounted (spawn g (new @ rest) s')" by (rule accounts_step [OF own acc stack])
      with False Some show ?thesis by (simp add: Step step_def stack out)
    qed
  qed
qed

lemma placed_init: "placed initSys"
proof -
  have "at initSys p = []" for p
    by (cases p) (simp_all add: initSys_def freshConn_def liveOf_def)
  then show ?thesis by (simp add: placed_def owned_once_def)
qed

lemma reachable_invariants: "reachable cfg s \<Longrightarrow> placed s \<and> accounted s"
  by (induction rule: reachable.induct)
    (auto simp: placed_init accounted_init placed_occur accounted_occur)

end
