(* ===== verification/Matching.thy ===== *)
theory Matching
  imports Accounting_Writer
begin

text \<open>
  Responses go to the requests they answer. A connection carries commands one behind the
  other and its reader hands the responses to the requests in the same order, so with a
  server that answers what it was sent, a request is settled successfully by exactly its own
  response stream. The invariant ties the three lists of a connection together: the requests
  its socket took whole, the ones answered, and the ones in flight.
\<close>

section \<open>Servers that answer what they were sent\<close>

text \<open>
  A server is honest in a step when a response frame reaches a reader only while the
  connection has carried more commands than were answered. (A fatal error may be met at any
  time.) The rest of the environment is not restricted.
\<close>

definition answersUnasked :: "('d, 'v) config \<Rightarrow> event \<Rightarrow> sys \<Rightarrow> bool" where
  "answersUnasked cfg e s \<longleftrightarrow>
     (case e of
        Step (Reader c) inp \<Rightarrow>
          (case sy_stacks s (Reader c) of
             Read # _ \<Rightarrow>
               (case fst (read_next cfg c inp s) of
                  [Deliver _] \<Rightarrow> length (cn_log (sy_conn s c)) \<le> length (cn_answered (sy_conn s c))
                | _ \<Rightarrow> False)
           | _ \<Rightarrow> False)
      | _ \<Rightarrow> False)"

inductive honestly :: "('d, 'v) config \<Rightarrow> sys \<Rightarrow> bool" for cfg where
  honestly_init: "honestly cfg initSys"
| honestly_step: "honestly cfg s \<Longrightarrow> \<not> answersUnasked cfg e s \<Longrightarrow> honestly cfg (occur cfg e s)"

lemma honestly_reachable: "honestly cfg s \<Longrightarrow> reachable cfg s"
  by (induction rule: honestly.induct) (auto intro: reachable.intros)

section \<open>The invariant\<close>

definition partialStream :: "request \<Rightarrow> bool" where
  "partialStream q \<longleftrightarrow> list_all (\<lambda>x. \<not> rq_stop q x) (rq_responses q)"

definition streamOf :: "stop_rule \<Rightarrow> RawResponse list \<Rightarrow> bool" where
  "streamOf stop rs \<longleftrightarrow> rs \<noteq> [] \<and> stop (last rs) \<and> list_all (\<lambda>x. \<not> stop x) (butlast rs)"

definition wholeStream :: "request \<Rightarrow> bool" where
  "wholeStream q \<longleftrightarrow> streamOf (rq_stop q) (rq_responses q)"

lemma not_both: "wholeStream q \<Longrightarrow> \<not> partialStream q"
  by (auto simp: wholeStream_def streamOf_def partialStream_def list_all_iff)

definition settledWell :: "request \<Rightarrow> bool" where
  "settledWell q \<longleftrightarrow>
     (rq_done q \<and> rq_err q = None \<longrightarrow> wholeStream q \<and> rq_written q = payload_len q) \<and>
     (\<forall>rs n. rq_result q = Some (rs, n, None) \<longrightarrow> streamOf (rq_stop q) rs \<and> n = payload_len q)"

text \<open>What the writer of a connection still has to write of the requests in flight.\<close>

fun inflightTail :: "action \<Rightarrow> nat list" where
  "inflightTail (Flush batch) = batch"
| "inflightTail (Flushed sps n e) = unsentOf n sps"
| "inflightTail _ = []"

definition tailOf :: "action list \<Rightarrow> nat list" where
  "tailOf as = concat (map inflightTail as)"

lemma tailOf_simps [simp]:
  "tailOf [] = []" "tailOf (a # as) = inflightTail a @ tailOf as" "tailOf (as @ bs) = tailOf as @ tailOf bs"
  by (simp_all add: tailOf_def)

fun delivers :: "action \<Rightarrow> bool" where
  "delivers (Deliver x) = True"
| "delivers _ = False"

definition ordered :: "nat \<Rightarrow> span list \<Rightarrow> bool" where
  "ordered n sps \<longleftrightarrow> filter (unwritten n) sps = dropWhile (\<lambda>sp. \<not> unwritten n sp) sps"

text \<open>A connection with its writer's and its reader's stacks.\<close>

definition pipe :: "muxConn \<Rightarrow> action list \<Rightarrow> action list \<Rightarrow> bool" where
  "pipe k ws rs \<longleftrightarrow> cn_closed k \<or>
     (\<exists>sent. cn_log k = cn_answered k @ sent \<and> cn_inflight k = sent @ tailOf ws \<and>
        (list_ex delivers rs \<longrightarrow> sent \<noteq> []))"

text \<open>Only the first call on a stack writes, or delivers.\<close>

definition shaped :: "sys \<Rightarrow> bool" where
  "shaped s \<longleftrightarrow>
     (\<forall>g. tailOf (tl (sy_stacks s g)) = [] \<and> list_all (\<lambda>a. \<not> delivers a) (tl (sy_stacks s g))) \<and>
     (\<forall>g sps n e. Flushed sps n e \<in> set (sy_stacks s g) \<longrightarrow> ordered n sps) \<and>
     (\<forall>c \<ge> sy_nextConn s. sy_stacks s (Writer c) = [] \<and> sy_stacks s (Reader c) = []) \<and>
     (\<forall>g r. Complete r \<in> set (sy_stacks s g) \<longrightarrow> r < sy_nextReq s)"

definition piped :: "sys \<Rightarrow> bool" where
  "piped s \<longleftrightarrow> (\<forall>c. pipe (sy_conn s c) (sy_stacks s (Writer c)) (sy_stacks s (Reader c)))"

definition answered :: "sys \<Rightarrow> bool" where
  "answered s \<longleftrightarrow>
     (\<forall>p. \<forall>r \<in> set (at s p). partialStream (sy_req s r)) \<and>
     (\<forall>g r. Complete r \<in> set (sy_stacks s g) \<longrightarrow> wholeStream (sy_req s r)) \<and>
     (\<forall>r. settledWell (sy_req s r))"

definition matched :: "sys \<Rightarrow> bool" where
  "matched s \<longleftrightarrow> shaped s \<and> piped s \<and> answered s \<and> \<not> sy_panicked s"

section \<open>Tame steps\<close>

text \<open>
  Most steps leave the order of commands and responses alone: connections are closed, or
  keep their lists, or are new; and no response stream grows.
\<close>

definition steady :: "request \<Rightarrow> request \<Rightarrow> bool" where
  "steady q q' \<longleftrightarrow> (settledWell q \<longrightarrow> settledWell q') \<and> (partialStream q \<longrightarrow> partialStream q') \<and>
     (wholeStream q \<longrightarrow> wholeStream q')"

definition calm :: "muxConn \<Rightarrow> muxConn \<Rightarrow> bool" where
  "calm k k' \<longleftrightarrow> cn_closed k' \<or>
     (cn_closed k' = cn_closed k \<and> cn_log k' = cn_log k \<and> cn_answered k' = cn_answered k \<and>
      cn_inflight k' = cn_inflight k)"

lemma steady_refl [simp]: "steady q q"
  by (simp add: steady_def)

lemma calm_refl [simp]: "calm k k"
  by (simp add: calm_def)

lemma calm_trans: "calm k k' \<Longrightarrow> calm k' k'' \<Longrightarrow> calm k k''"
  by (auto simp: calm_def)

lemma pipe_calm: "pipe k ws rs \<Longrightarrow> calm k k' \<Longrightarrow> pipe k' ws rs"
  by (auto simp: pipe_def calm_def)

fun mild :: "action \<Rightarrow> bool" where
  "mild (Flush b) = False"
| "mild (Flushed sps n e) = False"
| "mild (Deliver x) = False"
| "mild (Complete r) = False"
| "mild _ = True"

lemma mild_tail [simp]: "mild a \<Longrightarrow> inflightTail a = []"
  and mild_delivers: "mild a \<Longrightarrow> \<not> delivers a"
  by (cases a; simp)+

lemma mild_all:
  assumes "list_all mild as"
  shows "tailOf as = []" and "list_all (\<lambda>a. \<not> delivers a) as" and "\<not> list_ex delivers as"
    and "Flushed sps n e \<notin> set as" and "Complete r \<notin> set as"
  using assms by (induction as) (auto simp: mild_delivers)

inductive tame :: "action \<Rightarrow> sys \<Rightarrow> action list \<times> sys \<Rightarrow> bool" where
  tameI: "tame a s (new, s')"
    if "\<forall>r. steady (sy_req s r) (sy_req s' r)"
      and "\<forall>c. calm (sy_conn s c) (sy_conn s' c) \<or>
        sy_nextConn s \<le> c \<and> cn_log (sy_conn s' c) = [] \<and> cn_answered (sy_conn s' c) = [] \<and>
        cn_inflight (sy_conn s' c) = []"
      and "sy_nextConn s \<le> sy_nextConn s'"
      and "\<forall>h. sy_stacks s' h = sy_stacks s h \<or> list_all mild (sy_stacks s' h) \<and>
        (\<forall>c. h = Writer c \<longrightarrow> sy_nextConn s \<le> c \<and> c < sy_nextConn s') \<and>
        (\<forall>c. h = Reader c \<longrightarrow> sy_stacks s (Writer c) \<noteq> [])"
      and "list_all mild new"
      and "sy_nextReq s' = sy_nextReq s" and "sy_panicked s' = sy_panicked s"

lemma tailOf_tl: "tailOf as = [] \<Longrightarrow> tailOf (tl as) = []"
  by (cases as) simp_all

lemma list_all_tl: "list_all P as \<Longrightarrow> list_all P (tl as)"
  by (cases as) simp_all

lemma shapedD:
  assumes "shaped s" and "sy_stacks s g = a # rest"
  shows "tailOf rest = []" and "list_all (\<lambda>a. \<not> delivers a) rest" and "\<not> list_ex delivers rest"
    and "g = Writer c \<or> g = Reader c \<Longrightarrow> c < sy_nextConn s"
proof -
  have "tailOf (tl (sy_stacks s g)) = []" and "list_all (\<lambda>a. \<not> delivers a) (tl (sy_stacks s g))"
    using assms(1) unfolding shaped_def by blast+
  then show "tailOf rest = []" and "list_all (\<lambda>a. \<not> delivers a) rest" and "\<not> list_ex delivers rest"
    by (simp_all add: assms(2) list_all_iff list_ex_iff)
  show "g = Writer c \<or> g = Reader c \<Longrightarrow> c < sy_nextConn s"
    using assms unfolding shaped_def by (metis linorder_not_less list.distinct(1))
qed

text \<open>The shape of the stacks after a step, for any step whose new calls are led by one special call.\<close>

lemma shaped_step:
  assumes sh: "shaped s" and stack: "sy_stacks s g = a # rest"
    and tl: "list_all mild (tl new)" and hd: "\<And>sps n e. new \<noteq> [] \<Longrightarrow> hd new = Flushed sps n e \<Longrightarrow> ordered n sps"
    and compl: "\<And>r. new \<noteq> [] \<Longrightarrow> hd new = Complete r \<Longrightarrow> r < sy_nextReq s"
    and conns: "sy_nextConn s \<le> sy_nextConn s'" "sy_nextReq s' = sy_nextReq s"
    and stacks: "\<And>h. sy_stacks s' h = sy_stacks s h \<or> list_all mild (sy_stacks s' h) \<and>
        (\<forall>c. h = Writer c \<longrightarrow> sy_nextConn s \<le> c \<and> c < sy_nextConn s') \<and>
        (\<forall>c. h = Reader c \<longrightarrow> sy_stacks s (Writer c) \<noteq> [])"
  shows "shaped (spawn g (new @ rest) s')"
proof -
  let ?s = "spawn g (new @ rest) s'"
  note rest = shapedD [OF sh stack]
  have tail: "tailOf (tl (new @ rest)) = []" "list_all (\<lambda>a. \<not> delivers a) (tl (new @ rest))"
    using rest(1,2) tl mild_all [OF tl] by (cases new; simp add: tailOf_tl list_all_tl)+
  have "tailOf (tl (sy_stacks ?s h)) = [] \<and> list_all (\<lambda>a. \<not> delivers a) (tl (sy_stacks ?s h))" for h
  proof (cases "h = g \<or> sy_stacks s' h = sy_stacks s h")
    case True
    then show ?thesis using tail sh by (auto simp: shaped_def)
  next
    case False
    then have "list_all mild (sy_stacks s' h)" using stacks [of h] by blast
    with False show ?thesis using mild_all [OF list_all_tl] by simp
  qed
  moreover have "ordered n sps" if "Flushed sps n e \<in> set (sy_stacks ?s h)" for h sps n e
  proof (cases "h = g \<and> Flushed sps n e \<in> set new")
    case True
    then have "new \<noteq> []" "hd new = Flushed sps n e"
      using mild_all(4) [OF tl] by (cases new; auto)+
    then show ?thesis by (rule hd)
  next
    case False
    then have "Flushed sps n e \<in> set (sy_stacks s h)"
      using that stack stacks [of h] mild_all(4) [of "sy_stacks s' h"] by (auto split: if_splits)
    then show ?thesis using sh unfolding shaped_def by blast
  qed
  moreover have "r < sy_nextReq ?s" if "Complete r \<in> set (sy_stacks ?s h)" for h r
  proof (cases "h = g \<and> Complete r \<in> set new")
    case True
    then have "new \<noteq> []" "hd new = Complete r"
      using mild_all(5) [OF tl] by (cases new; auto)+
    then show ?thesis using compl conns by simp
  next
    case False
    then have "Complete r \<in> set (sy_stacks s h)"
      using that stack stacks [of h] mild_all(5) [of "sy_stacks s' h"] by (auto split: if_splits)
    then show ?thesis using sh conns by (auto simp: shaped_def)
  qed
  moreover have "sy_stacks ?s (Writer c) = [] \<and> sy_stacks ?s (Reader c) = []" if "sy_nextConn ?s \<le> c" for c
  proof -
    have c: "sy_nextConn s \<le> c" "\<not> c < sy_nextConn s'" using that conns by simp_all
    then have old: "sy_stacks s (Writer c) = []" "sy_stacks s (Reader c) = []" using sh by (auto simp: shaped_def)
    then have "g \<noteq> Writer c" "g \<noteq> Reader c" using stack by auto
    then show ?thesis using old c stacks [of "Writer c"] stacks [of "Reader c"] by auto
  qed
  ultimately show ?thesis unfolding shaped_def by blast
qed

lemma piped_tame:
  assumes sh: "shaped s" and pi: "piped s" and stack: "sy_stacks s g = a # rest"
    and tl: "inflightTail a = []" and tame: "tame a s (new, s')"
  shows "piped (spawn g (new @ rest) s')"
  unfolding piped_def
proof
  fix c
  let ?s = "spawn g (new @ rest) s'"
  note rest = shapedD [OF sh stack]
  from tame have conn: "calm (sy_conn s c) (sy_conn s' c) \<or>
      sy_nextConn s \<le> c \<and> cn_log (sy_conn s' c) = [] \<and> cn_answered (sy_conn s' c) = [] \<and>
      cn_inflight (sy_conn s' c) = []"
    and stacks: "\<And>h. sy_stacks s' h = sy_stacks s h \<or> list_all mild (sy_stacks s' h) \<and>
        (\<forall>c. h = Writer c \<longrightarrow> sy_nextConn s \<le> c \<and> c < sy_nextConn s')"
    and new: "list_all mild new"
    by (auto elim!: tame.cases)
  have fresh: "sy_stacks s (Writer c) = []" "sy_stacks s (Reader c) = []" if "sy_nextConn s \<le> c"
    using sh that by (auto simp: shaped_def)
  have tail: "tailOf (sy_stacks ?s (Writer c)) = tailOf (sy_stacks s (Writer c))"
  proof (cases "Writer c = g")
    case True
    then show ?thesis using stack tl rest(1) mild_all(1) [OF new] by auto
  next
    case False
    then show ?thesis using stacks [of "Writer c"] fresh mild_all(1) [of "sy_stacks s' (Writer c)"] by auto
  qed
  have reads: "list_ex delivers (sy_stacks ?s (Reader c)) \<Longrightarrow> list_ex delivers (sy_stacks s (Reader c))"
    using stack rest(3) mild_all(3) [OF new] stacks [of "Reader c"] mild_all(3) [of "sy_stacks s' (Reader c)"]
    by (auto split: if_splits)
  have pipe: "pipe (sy_conn s c) (sy_stacks s (Writer c)) (sy_stacks s (Reader c))"
    using pi by (simp add: piped_def)
  from conn show "pipe (sy_conn ?s c) (sy_stacks ?s (Writer c)) (sy_stacks ?s (Reader c))"
  proof
    assume "calm (sy_conn s c) (sy_conn s' c)"
    from pipe_calm [OF pipe this] tail reads show ?thesis unfolding pipe_def spawn_simps(5) by metis
  next
    assume new_conn: "sy_nextConn s \<le> c \<and> cn_log (sy_conn s' c) = [] \<and> cn_answered (sy_conn s' c) = [] \<and>
      cn_inflight (sy_conn s' c) = []"
    then have "\<not> list_ex delivers (sy_stacks ?s (Reader c))" using reads fresh by auto
    with new_conn tail fresh show ?thesis by (simp add: pipe_def del: spawn_simps(1))
  qed
qed

lemma answered_steady:
  assumes an: "answered s" and stack: "sy_stacks s g = a # rest"
    and places: "\<And>p. set (at (spawn g (new @ rest) s') p) \<subseteq> (\<Union>q. set (at s q))"
    and steady: "\<And>r. steady (sy_req s r) (sy_req s' r)"
    and compl: "\<And>r. Complete r \<in> set new \<Longrightarrow> wholeStream (sy_req s' r)"
    and stacks: "\<And>h r. Complete r \<in> set (sy_stacks s' h) \<Longrightarrow> Complete r \<in> set (sy_stacks s h)"
  shows "answered (spawn g (new @ rest) s')"
  unfolding answered_def
proof (intro conjI allI impI ballI)
  let ?s = "spawn g (new @ rest) s'"
  fix p r assume "r \<in> set (at ?s p)"
  then obtain q where "r \<in> set (at s q)" using places [of p] by blast
  then have "partialStream (sy_req s r)" using an unfolding answered_def by blast
  then show "partialStream (sy_req ?s r)" using steady [of r] by (simp add: steady_def)
next
  fix h r assume "Complete r \<in> set (sy_stacks (spawn g (new @ rest) s') h)"
  then consider "Complete r \<in> set new" | "Complete r \<in> set (sy_stacks s h)"
    using stacks [of r h] stack by (auto split: if_splits)
  then show "wholeStream (sy_req (spawn g (new @ rest) s') r)"
  proof cases
    case 1
    then show ?thesis using compl by simp
  next
    case 2
    then have "wholeStream (sy_req s r)" using an unfolding answered_def by blast
    then show ?thesis using steady [of r] by (simp add: steady_def)
  qed
next
  fix r show "settledWell (sy_req (spawn g (new @ rest) s') r)"
    using an steady [of r] unfolding answered_def steady_def by simp
qed

lemma matched_tame:
  assumes own: "owned_once (at s)" and ma: "matched s" and stack: "sy_stacks s g = a # rest"
    and tl: "inflightTail a = []" and tame: "tame a s (new, s')" and moves: "moves g a s (new, s')"
  shows "matched (spawn g (new @ rest) s')"
proof -
  from ma have sh: "shaped s" and pi: "piped s" and an: "answered s" and np: "\<not> sy_panicked s"
    by (simp_all add: matched_def)
  from tame have t: "\<And>r. steady (sy_req s r) (sy_req s' r)" "list_all mild new"
    "sy_nextConn s \<le> sy_nextConn s'" "sy_nextReq s' = sy_nextReq s" "sy_panicked s' = sy_panicked s"
    and stacks: "\<And>h. sy_stacks s' h = sy_stacks s h \<or> list_all mild (sy_stacks s' h) \<and>
        (\<forall>c. h = Writer c \<longrightarrow> sy_nextConn s \<le> c \<and> c < sy_nextConn s') \<and>
        (\<forall>c. h = Reader c \<longrightarrow> sy_stacks s (Writer c) \<noteq> [])"
    by (auto elim!: tame.cases)
  have "shaped (spawn g (new @ rest) s')"
    using t(2) mild_all(4,5) [OF t(2)] stacks
    by (intro shaped_step [OF sh stack list_all_tl]) (auto simp: t dest: hd_in_set)
  moreover have "answered (spawn g (new @ rest) s')"
  proof (rule answered_steady [OF an stack moves_spawn(2) [OF own stack moves] t(1)])
    show "wholeStream (sy_req s' r)" if "Complete r \<in> set new" for r
      using that mild_all(5) [OF t(2)] by simp
    show "Complete r \<in> set (sy_stacks s h)" if "Complete r \<in> set (sy_stacks s' h)" for h r
      using that stacks [of h] mild_all(5) [of "sy_stacks s' h"] by auto
  qed
  ultimately show ?thesis
    using piped_tame [OF sh pi stack tl tame] np by (simp add: matched_def t)
qed

section \<open>The tame operations\<close>

lemmas stream_defs = steady_def settledWell_def partialStream_def wholeStream_def streamOf_def
  payload_len_def resultOf_def

lemma steady_fields [simp]:
  "steady q (q\<lparr>rq_conn := x\<rparr>)" "steady q (q\<lparr>rq_onWire := b\<rparr>)" "steady q (q\<lparr>rq_state := st\<rparr>)"
  "steady q (q\<lparr>rq_conn := x, rq_state := st\<rparr>)" "steady q (q\<lparr>rq_sent := n\<rparr>)"
  "steady q (q\<lparr>rq_result := Some (rs, n, Some e)\<rparr>)"
  "steady q (q\<lparr>rq_state := st, rq_result := Some (rs, n, Some e)\<rparr>)"
  by (auto simp: stream_defs)

lemma steady_trans: "steady q q' \<Longrightarrow> steady q' q'' \<Longrightarrow> steady q q''"
  by (auto simp: steady_def)

lemma steady_join: "rq_done q \<Longrightarrow> steady q (q\<lparr>rq_result := Some (resultOf q)\<rparr>)"
  by (auto simp: stream_defs)

lemma steady_complete_empty:
  "partialStream (sy_req s r) \<Longrightarrow> e \<noteq> None \<Longrightarrow> steady (sy_req s x) (sy_req (complete r [] n e s) x)"
  using not_both [of "sy_req s r"]
  by (auto simp: complete_def stream_defs)

lemma steady_completeWritten:
  "e \<noteq> None \<or> wholeStream (sy_req s r) \<Longrightarrow> steady (sy_req s x) (sy_req (completeWritten r e s) x)"
  by (auto simp: complete_def completeWritten_def stream_defs payloadLen_def)

lemma tame_reqs:
  assumes "\<And>r. steady (sy_req s r) (sy_req s' r)" and "list_all mild new"
    and "sy_conn s' = sy_conn s" "sy_stacks s' = sy_stacks s" "sy_nextConn s' = sy_nextConn s"
    "sy_nextReq s' = sy_nextReq s" "sy_panicked s' = sy_panicked s"
  shows "tame a s (new, s')"
  using assms by (intro tameI) simp_all

lemma tame_conn:
  assumes "calm (sy_conn s c) (f (sy_conn s c))" and "list_all mild new"
  shows "tame a s (new, upd_conn c f s)"
  using assms by (intro tameI) simp_all

lemma tame_refl [simp]: "list_all mild new \<Longrightarrow> tame a s (new, s)"
  by (rule tame_reqs) simp_all

lemma pickScan_calm: "calm (sy_conn s c) (sy_conn (snd (pickScan cfg now cs acc s)) c)"
proof (induction cfg now cs acc s rule: pickScan.induct)
  case (2 cfg now k cs kept best s)
  let ?s = "upd_conn k retire s"
  have "calm (sy_conn s c) (sy_conn ?s c)" by (simp add: calm_def retire_def)
  then show ?case using 2 by (auto simp: status_def intro: calm_trans)
qed simp

lemma tame_pick:
  assumes pick: "pickLocked cfg now s = (c, s1)"
    and s': "sy_req s' = sy_req s1" "sy_conn s' = sy_conn s1" "sy_stacks s' = sy_stacks s1"
      "sy_nextConn s' = sy_nextConn s1" "sy_nextReq s' = sy_nextReq s1" "sy_panicked s' = sy_panicked s1"
    and new: "list_all mild new"
  shows "tame a s (new, s')"
proof -
  obtain kept best s0 where scan: "pickScan cfg now (sy_conns s) ([], None) s = ((kept, best), s0)"
    by (metis prod.exhaust)
  have calm: "calm (sy_conn s x) (sy_conn s0 x)" for x
    using pickScan_calm [of s x cfg now "sy_conns s" "([], None)"] by (simp add: scan)
  have frame: "sy_stacks s0 = sy_stacks s" "sy_nextConn s0 = sy_nextConn s"
    using pickScan_frame(3,4) [of cfg now "sy_conns s" "([], None)" s] by (simp_all add: scan)
  consider "s1 = s0\<lparr>sy_conns := kept\<rparr>"
    | "s1 = (snd (newConn now (s0\<lparr>sy_conns := kept\<rparr>)))\<lparr>sy_conns := kept @ [c]\<rparr>"
    using pick by (auto simp: pickLocked_def scan Let_def newConn_def split: if_splits)
  then show ?thesis
  proof cases
    case 1
    then show ?thesis
      using calm frame new pickLocked_frame [of cfg now s] pick
      by (intro tameI) (simp_all add: s')
  next
    case 2
    then show ?thesis
      using calm frame new pickLocked_frame [of cfg now s] pick
      by (intro tameI) (auto simp: s' newConn_def Let_def freshConn_def)
  qed
qed

lemma enqueue_tame:
  assumes "enqueue cfg g now r s = Some out"
  shows "tame (Enqueue r) s out"
proof (cases "sy_closed s")
  case True
  with assms show ?thesis by (auto simp: enqueue_def split: if_splits intro!: tame_reqs)
next
  case False
  with assms show ?thesis
    by (auto simp: enqueue_def split: if_splits prod.splits intro!: tame_pick)
qed

lemma detach_tame: "detach g c rs cause rq s = Some out \<Longrightarrow> tame (Detach c rs cause rq) s out"
  by (auto simp: detach_def Let_def split: if_splits intro!: tame_reqs)

lemma rehome_tame:
  assumes "\<And>r. r \<in> set rs \<Longrightarrow> partialStream (sy_req s r)" and "rs = [] \<or> rq \<or> cause \<noteq> None"
  shows "tame (Rehome rs cause rq) s (rehome cfg now rs cause rq s)"
proof (cases rs)
  case (Cons r rest)
  show ?thesis
  proof (cases "rq_state (sy_req s r) = RequestQueued")
    case False
    then show ?thesis by (simp add: Cons)
  next
    case queued: True
    show ?thesis
    proof (cases rq)
      case True
      then show ?thesis by (auto simp: Cons queued split: prod.splits intro!: tame_pick)
    next
      case False
      then show ?thesis using assms by (auto simp: Cons queued intro!: tame_reqs steady_complete_empty)
    qed
  qed
qed simp

lemma close_tame: "close_pool s = Some out \<Longrightarrow> tame Close s out"
  by (auto simp: close_pool_def list_all_iff split: if_splits intro!: tame_reqs)

lemma drain_tame: "tame (Drain c) s (drain c s)"
  unfolding drain_def Let_def
  by (cases "cn_closed (sy_conn s c)") (auto simp: calm_def intro!: tame_conn)

lemma settleClosed_tame:
  assumes "\<And>r. r \<in> set rs \<Longrightarrow> partialStream (sy_req s r)"
  shows "tame (SettleClosed rs) s (settleClosed rs s)"
  using assms by (cases rs) (auto intro!: tame_reqs steady_complete_empty)

lemma add_tame: "tame (Add r c) s ([], add r c s)"
  unfolding add_def by (rule tame_conn) (simp_all add: calm_def)

lemma teardown_tame: "tame a s (teardownLocked c e hs s)"
  unfolding teardownLocked_def Let_def
  by (cases "cn_closed (sy_conn s c)") (auto simp: calm_def intro!: tame_conn)

lemma teardownSettle_tame: "tame (TeardownSettle c rs e) s (teardownSettle c rs e s)"
proof (cases rs)
  case (Cons r rest)
  have "tame (TeardownSettle c rs e) s ([TeardownSettle c rest e], completeWritten r (Some x) s)" for x
    by (rule tame_reqs) (simp_all add: steady_completeWritten)
  then show ?thesis by (auto simp: Cons Let_def)
qed simp

lemma arm_tame: "list_all mild new \<Longrightarrow> tame a s (new, armReadDeadlineLocked c s)"
  by (rule tameI) (simp_all add: calm_def)

lemma expire_tame: "tame (Expire c r) s (expire c r s)"
  by (simp add: expire_def teardown_tame arm_tame)

lemma orphan_tame: "tame (Orphan c) s ([], orphan c s)"
  by (simp add: orphan_def arm_tame)

lemma join_tame: "join r s = Some out \<Longrightarrow> tame a s out"
  by (auto simp: join_def steady_join split: if_splits intro!: tame_reqs)

lemma giveUp_tame: "tame (Await r) s (giveUp r e s)"
  by (cases "rq_state (sy_req s r)")
    (auto simp: giveUp_def Let_def split: option.splits intro!: tame_reqs)

lemma run_tame:
  assumes "sy_stacks s (Writer c) \<noteq> []"
  shows "tame Run s (run c inp s)"
proof (cases "in_dial inp")
  case None
  then show ?thesis
    using assms by (cases "cn_closed (sy_conn s c)") (auto simp: run_def calm_def split: if_splits intro!: tameI)
qed (simp add: run_def)

lemma awaitWake_tame: "awaitWake c s = Some out \<Longrightarrow> tame Wake s out"
  by (auto simp: awaitWake_def calm_def split: if_splits intro!: tame_conn)

lemma complete_tame: "wholeStream (sy_req s r) \<Longrightarrow> tame (Complete r) s ([], completeWritten r None s)"
  by (rule tame_reqs) (simp_all add: steady_completeWritten)

lemma flushSettle_tame:
  assumes sane: "sane (FlushSettle sps n e cl cause bl sv rq)"
    and part: "\<And>r. r \<in> set (unsentOf n sps) \<Longrightarrow> partialStream (sy_req s r)"
  shows "tame (FlushSettle sps n e cl cause bl sv rq) s (flushSettle c sps n e cl cause bl sv rq s)"
proof (cases sps)
  case Nil
  then show ?thesis by (simp split: option.split)
next
  case (Cons sp sps')
  obtain r start end' where sp: "sp = (r, start, end')" by (cases sp) auto
  let ?a = "FlushSettle ((r, start, end') # sps') n e cl cause bl sv rq"
  have "tame ?a s (flushSettle c ((r, start, end') # sps') n e cl cause bl sv rq s)"
  proof (cases "end' \<le> n")
    case True
    let ?x = "if bl = Some r then cause else Some (ConnectionLostError cause)"
    have "?x \<noteq> None" using sane by auto
    then have "tame ?a s ([FlushSettle sps' n e cl cause bl sv rq], completeWritten r ?x s)"
      by (intro tame_reqs steady_completeWritten) simp_all
    then show ?thesis unfolding flushSettle_out if_P [OF True] by (cases cl) (simp_all only: if_True if_False, simp)
  next
    case False
    with sane part [of r] have e: "e \<noteq> None" and r: "partialStream (sy_req s r)"
      by (auto simp: Cons sp unwritten_def)
    show ?thesis
    proof (cases "sv \<and> n \<le> start \<and> rq_state (sy_req s r) = RequestWriting")
      case True
      with False show ?thesis unfolding flushSettle_out by (auto intro!: tame_reqs)
    next
      case kept: False
      have "tame ?a s ([FlushSettle sps' n e cl cause bl sv rq], complete r [] (n - start) e s)"
        by (intro tame_reqs steady_complete_empty [OF r e]) simp_all
      with kept False show ?thesis unfolding flushSettle_out by (simp only: if_False)
    qed
  qed
  then show ?thesis by (simp only: Cons sp)
qed

end
