(* ===== verification/Matching_Steps.thy ===== *)
theory Matching_Steps
  imports Matching
begin

text \<open>
  The steps of the matching invariant that are not tame: a writer claims a batch, writes it
  and notes how much it wrote, a reader reads a response and delivers it. With them the
  invariant holds in every state that is reached with an honest server.
\<close>

section \<open>The steps that move commands and responses\<close>

text \<open>Such a step changes one connection, its own.\<close>

lemma matched_special:
  assumes own: "owned_once (at s)" and ma: "matched s" and stack: "sy_stacks s g = a # rest"
    and moves: "moves g a s (new, s')"
    and gc: "g = Writer c \<or> g = Reader c"
    and steady: "\<And>r. steady (sy_req s r) (sy_req s' r)"
    and other: "\<And>x. x \<noteq> c \<Longrightarrow> sy_conn s' x = sy_conn s x"
    and pipe: "pipe (sy_conn s' c) (if g = Writer c then new @ rest else sy_stacks s (Writer c))
        (if g = Reader c then new @ rest else sy_stacks s (Reader c))"
    and new: "list_all mild (tl new)" "\<And>r. new \<noteq> [] \<Longrightarrow> hd new \<noteq> Complete r"
    and ordered: "\<And>sps n e. new \<noteq> [] \<Longrightarrow> hd new = Flushed sps n e \<Longrightarrow> ordered n sps"
    and same: "sy_stacks s' = sy_stacks s" "sy_nextConn s' = sy_nextConn s"
      "sy_nextReq s' = sy_nextReq s" "sy_panicked s' = sy_panicked s"
  shows "matched (spawn g (new @ rest) s')"
proof -
  from ma have sh: "shaped s" and pi: "piped s" and an: "answered s" and np: "\<not> sy_panicked s"
    by (simp_all add: matched_def)
  have "shaped (spawn g (new @ rest) s')"
    by (rule shaped_step [OF sh stack new(1) ordered]) (use new(2) same in auto)
  moreover have "piped (spawn g (new @ rest) s')"
    unfolding piped_def
  proof
    fix x
    show "pipe (sy_conn (spawn g (new @ rest) s') x) (sy_stacks (spawn g (new @ rest) s') (Writer x))
        (sy_stacks (spawn g (new @ rest) s') (Reader x))"
    proof (cases "x = c")
      case True
      with pipe gc show ?thesis by (auto simp: same)
    next
      case False
      then have "Writer x \<noteq> g" "Reader x \<noteq> g" using gc by auto
      with False pi show ?thesis by (simp add: other same piped_def)
    qed
  qed
  moreover have "answered (spawn g (new @ rest) s')"
  proof (rule answered_steady [OF an stack moves_spawn(2) [OF own stack moves] steady])
    show "wholeStream (sy_req s' r)" if "Complete r \<in> set new" for r
      using that new mild_all(5) [OF new(1)] by (cases new) auto
  qed (simp add: same)
  ultimately show ?thesis using np by (simp add: matched_def same)
qed

lemma spans_ordered: "ordered n (spans s m b)"
proof (induction s m b rule: spans.induct)
  case (2 s m r b)
  have all: "n < end' \<Longrightarrow> unwritten n sp" if "sp \<in> set (spans s end' b)" for sp end'
    using that spans_mem [of "fst sp" "fst (snd sp)" "snd (snd sp)" s end' b]
    by (auto simp: unwritten_def split: prod.splits)
  show ?case
  proof (cases "n < m + payloadLen s r")
    case True
    then have "filter (unwritten n) (spans s (m + payloadLen s r) b) = spans s (m + payloadLen s r) b"
      using all by (simp add: filter_id_conv)
    with True show ?thesis by (simp add: ordered_def unwritten_def)
  next
    case False
    with 2 show ?thesis by (simp add: ordered_def unwritten_def)
  qed
qed (simp add: ordered_def)

lemma ordered_split: "ordered n sps \<Longrightarrow>
    map fst (filter (\<lambda>sp. \<not> unwritten n sp) sps) @ unsentOf n sps = map fst sps"
proof (induction sps)
  case (Cons sp sps)
  show ?case
  proof (cases "unwritten n sp")
    case True
    with Cons.prems have "filter (unwritten n) sps = sps" by (simp add: ordered_def)
    then have "filter (\<lambda>sp. \<not> unwritten n sp) sps = []"
      by (metis filter_False filter_id_conv)
    with True \<open>filter (unwritten n) sps = sps\<close> show ?thesis by (simp add: unsentOf_def)
  next
    case False
    with Cons show ?thesis by (simp add: ordered_def)
  qed
qed simp

lemma pipedD: "piped s \<Longrightarrow> pipe (sy_conn s c) (sy_stacks s (Writer c)) (sy_stacks s (Reader c))"
  by (simp add: piped_def)

lemma claim_matched:
  assumes own: "owned_once (at s)" and ma: "matched s" and stack: "sy_stacks s (Writer c) = Claim # rest"
    and out: "claim c s = (new, s')"
  shows "matched (spawn (Writer c) (new @ rest) s')"
proof -
  have moves: "moves (Writer c) Claim s (new, s')" using claim_moves [of "Writer c" s c] by (simp add: out)
  note tame = matched_tame [OF own ma stack _ _ moves]
  show ?thesis
  proof (cases "cn_closed (sy_conn s c)")
    case True
    then show ?thesis using out by (intro tame) (auto simp: claim_def)
  next
    case False
    let ?s0 = "upd_conn c (\<lambda>k. k\<lparr>cn_pending := []\<rparr>) s"
    obtain batch s1 where claimed: "claimAll c (cn_pending (sy_conn s c)) ?s0 = (batch, s1)" by fastforce
    note frame = claimAll_frame [of c "cn_pending (sy_conn s c)" ?s0, unfolded claimed snd_conv]
    have steady: "steady (sy_req s r) (sy_req s1 r)" for r
      using claimAll_req [of c "cn_pending (sy_conn s c)" ?s0 r] by (simp add: claimed)
    show ?thesis
    proof (cases "batch = []")
      case True
      then have "new = [Wake]" "s' = s1" using out False by (auto simp: claim_def claimed)
      then show ?thesis
        using steady frame by (intro tame tameI) (auto simp: calm_def)
    next
      case batch: False
      have new: "new = [Flush batch, Claim]" using out False batch by (auto simp: claim_def claimed Let_def)
      have conn: "cn_inflight (sy_conn s' c) = cn_inflight (sy_conn s c) @ batch"
        "cn_log (sy_conn s' c) = cn_log (sy_conn s c)" "cn_answered (sy_conn s' c) = cn_answered (sy_conn s c)"
        and other: "x \<noteq> c \<Longrightarrow> sy_conn s' x = sy_conn s x"
        and same: "sy_req s' = sy_req s1" "sy_stacks s' = sy_stacks s" "sy_nextConn s' = sy_nextConn s"
          "sy_nextReq s' = sy_nextReq s" "sy_panicked s' = sy_panicked s" for x
        using out False batch frame
        by (cases "cn_inflight (sy_conn s c) = []"; auto simp: claim_def claimed Let_def)+
      have "pipe (sy_conn s c) (Claim # rest) (sy_stacks s (Reader c))"
        using ma pipedD [of s c] stack by (simp add: matched_def)
      then have "pipe (sy_conn s' c) (new @ rest) (sy_stacks s (Reader c))"
        using False conn shapedD(1) [OF _ stack] ma by (auto simp: pipe_def new matched_def)
      then show ?thesis
        by (intro matched_special [OF own ma stack moves, of c])
          (simp_all add: steady same other new)
    qed
  qed
qed

lemma noteSent_steady [simp]: "steady (sy_req s r) (sy_req (noteSent n sps s) r)"
proof (induction n sps s rule: noteSent.induct)
  case (2 n sp sps s)
  show ?case
    using steady_trans [OF _ 2, of "sy_req s r"] by (cases "r = fst sp") simp_all
qed simp

lemma flush_matched:
  assumes own: "owned_once (at s)" and ma: "matched s" and stack: "sy_stacks s (Writer c) = Flush b # rest"
    and out: "flush c b inp s = (new, s')"
  shows "matched (spawn (Writer c) (new @ rest) s')"
proof -
  have moves: "moves (Writer c) (Flush b) s (new, s')"
    using flush_moves [of "Writer c" b s c inp] by (simp add: out)
  obtain n e where w: "fst (writeAll scriptedWriter (in_write inp) (flushBuffer s b) 0) = (n, e)"
    by fastforce
  let ?sps = "spans s 0 b"
  let ?whole = "map fst (filter (\<lambda>sp. \<not> unwritten n sp) ?sps)"
  have new: "new = [Flushed ?sps n e]"
    and conn: "cn_inflight (sy_conn s' c) = cn_inflight (sy_conn s c)"
      "cn_log (sy_conn s' c) = cn_log (sy_conn s c) @ ?whole"
      "cn_answered (sy_conn s' c) = cn_answered (sy_conn s c)"
      "cn_closed (sy_conn s' c) = cn_closed (sy_conn s c)"
    and other: "\<And>x. x \<noteq> c \<Longrightarrow> sy_conn s' x = sy_conn s x"
    and same: "sy_stacks s' = sy_stacks s" "sy_nextConn s' = sy_nextConn s"
      "sy_nextReq s' = sy_nextReq s" "sy_panicked s' = sy_panicked s"
    using out by (auto simp: flush_def w Let_def)
  have steady: "steady (sy_req s r) (sy_req s' r)" for r
    using out noteSent_steady [of "upd_conn c f s" r n ?sps for f] by (auto simp: flush_def w Let_def)
  have b: "?whole @ unsentOf n ?sps = b" using ordered_split [OF spans_ordered] by simp
  have "pipe (sy_conn s c) (Flush b # rest) (sy_stacks s (Reader c))"
    using ma pipedD [of s c] stack by (simp add: matched_def)
  moreover have "tailOf rest = []" using shapedD(1) [OF _ stack] ma by (simp add: matched_def)
  ultimately have "pipe (sy_conn s' c) (new @ rest) (sy_stacks s (Reader c))"
    using b unfolding pipe_def conn new by (auto simp del: map_append)
  then show ?thesis
    using spans_ordered [of n s 0 b]
    by (intro matched_special [OF own ma stack moves, of c]) (auto simp: steady same other new)
qed

lemma markOnWire_steady [simp]: "steady (sy_req s r) (sy_req (markOnWire sps s) r)"
proof (induction sps s rule: markOnWire.induct)
  case (2 sp sps s)
  show ?case
    using steady_trans [OF _ 2, of "sy_req s r"] by (cases "r = fst sp") simp_all
qed simp

lemma cutTail_exact:
  assumes "ordered n sps" and "length (unsentOf n sps) \<le> length (cn_inflight (sy_conn s c))"
  shows "\<exists>s'. cutTail c n sps s = Some s' \<and> (\<forall>r. steady (sy_req s r) (sy_req s' r)) \<and>
     sy_conn s' c = (sy_conn s c)\<lparr>cn_inflight :=
       take (length (cn_inflight (sy_conn s c)) - length (unsentOf n sps)) (cn_inflight (sy_conn s c))\<rparr>"
  using assms
proof (induction sps arbitrary: s)
  case Nil
  then show ?case by simp
next
  case (Cons sp sps)
  obtain r start end' where sp: "sp = (r, start, end')" by (cases sp) auto
  show ?case
  proof (cases "n < end'")
    case True
    then have "filter (unwritten n) sps = sps" using Cons.prems(1) by (simp add: ordered_def sp unwritten_def)
    then have "length (unsentOf n sps) = length sps" by (simp add: unsentOf_def)
    with True Cons.prems(2) show ?thesis by (auto simp: sp unwritten_def Let_def)
  next
    case False
    let ?s = "upd_req r (\<lambda>q. q\<lparr>rq_onWire := True\<rparr>) s"
    have "ordered n sps" using Cons.prems(1) False by (simp add: ordered_def sp unwritten_def)
    moreover have "unsentOf n (sp # sps) = unsentOf n sps" using False by (simp add: sp unwritten_def)
    ultimately obtain s' where s': "cutTail c n sps ?s = Some s'"
      and steady: "\<forall>x. steady (sy_req ?s x) (sy_req s' x)"
      and conn: "sy_conn s' c = (sy_conn s c)\<lparr>cn_inflight :=
        take (length (cn_inflight (sy_conn s c)) - length (unsentOf n (sp # sps))) (cn_inflight (sy_conn s c))\<rparr>"
      using Cons.IH [of ?s] Cons.prems(2) by auto
    have "steady (sy_req s x) (sy_req s' x)" for x
      using steady_trans [OF _ spec [OF steady, of x], of "sy_req s x"] by (cases "x = r") simp_all
    with s' conn False show ?thesis by (simp add: sp)
  qed
qed

lemma flushed_matched:
  assumes own: "owned_once (at s)" and ma: "matched s" and sane: "sane (Flushed sps n e)"
    and stack: "sy_stacks s (Writer c) = Flushed sps n e # rest"
    and out: "flushed c sps n e s = (new, s')"
  shows "matched (spawn (Writer c) (new @ rest) s')"
proof -
  let ?k = "sy_conn s c"
  have moves: "moves (Writer c) (Flushed sps n e) s (new, s')"
    using flushed_moves [of "Writer c" sps n e s c] by (simp add: out)
  have sh: "shaped s" using ma by (simp add: matched_def)
  note rest = shapedD(1) [OF sh stack]
  have pipe: "pipe ?k (Flushed sps n e # rest) (sy_stacks s (Reader c))"
    using ma pipedD [of s c] stack by (simp add: matched_def)
  have ordered: "ordered n sps" using sh stack unfolding shaped_def by (metis list.set_intros(1))
  note special = matched_special [OF own ma stack moves, of c]
  let ?settle = "FlushSettle sps n e (cn_closed ?k) (cn_cause ?k) (cn_blamed ?k) (cn_served ?k) []"
  consider (fine) "e = None" "\<not> cn_closed ?k" | (torn) "cn_closed ?k" | (cut) "e \<noteq> None" "\<not> cn_closed ?k"
    by blast
  then show ?thesis
  proof cases
    case fine
    then have "new = []" "s' = markOnWire sps s" using out by (auto simp: flushed_def Let_def)
    moreover have "pipe ?k rest (sy_stacks s (Reader c))" using pipe fine sane rest by (simp add: pipe_def)
    ultimately show ?thesis by (intro special) simp_all
  next
    case torn
    then have "new = [?settle]" "s' = s" using out by (auto simp: flushed_def Let_def)
    then show ?thesis using torn by (intro special) (simp_all add: pipe_def)
  next
    case cut
    then obtain sent where sent: "cn_log ?k = cn_answered ?k @ sent"
      "cn_inflight ?k = sent @ unsentOf n sps" "list_ex delivers (sy_stacks s (Reader c)) \<longrightarrow> sent \<noteq> []"
      using pipe rest by (auto simp: pipe_def)
    then obtain s1 where s1: "cutTail c n sps s = Some s1" "\<forall>r. steady (sy_req s r) (sy_req s1 r)"
      "sy_conn s1 c = ?k\<lparr>cn_inflight := sent\<rparr>"
      using cutTail_exact [OF ordered, of s c] by auto
    then have new: "new = [?settle]" "s' = s1" using out cut by (auto simp: flushed_def Let_def)
    have "pipe (sy_conn s1 c) (new @ rest) (sy_stacks s (Reader c))"
      using sent rest by (auto simp: pipe_def s1 new)
    then show ?thesis
      using s1 cutTail_conn(1) [OF s1(1)] cutTail_frame [OF s1(1)] by (intro special) (simp_all add: new)
  qed
qed

lemma read_matched:
  assumes own: "owned_once (at s)" and ma: "matched s" and stack: "sy_stacks s (Reader c) = Read # rest"
    and honest: "\<not> answersUnasked cfg (Step (Reader c) inp) s"
    and out: "read_next cfg c inp s = (new, s')"
  shows "matched (spawn (Reader c) (new @ rest) s')"
proof -
  have moves: "moves (Reader c) Read s (new, s')"
    using read_next_moves [of "Reader c" s cfg c inp] by (simp add: out)
  obtain rd' where s': "s' = upd_conn c (\<lambda>k. k\<lparr>cn_reader := rd'\<rparr>) s"
    and new: "(\<exists>x. new = [Deliver x]) \<or> (\<exists>e. new = [Fail c e True])"
    using out by (auto simp: read_next_def Let_def split: prod.splits option.splits if_splits)
  from new show ?thesis
  proof
    assume "\<exists>e. new = [Fail c e True]"
    then have "tame Read s (new, s')" unfolding s' by (intro tame_conn) (auto simp: calm_def)
    then show ?thesis by (intro matched_tame [OF own ma stack _ _ moves]) simp_all
  next
    assume "\<exists>x. new = [Deliver x]"
    then obtain x where new: "new = [Deliver x]" by blast
    then have "length (cn_answered (sy_conn s c)) < length (cn_log (sy_conn s c))"
      using honest out stack by (auto simp: answersUnasked_def)
    moreover have "pipe (sy_conn s c) (sy_stacks s (Writer c)) (Read # rest)"
      using ma pipedD [of s c] stack by (simp add: matched_def)
    ultimately have "pipe (sy_conn s' c) (sy_stacks s (Writer c)) (new @ rest)"
      by (auto simp: pipe_def s' new)
    then show ?thesis
      by (intro matched_special [OF own ma stack moves, of c]) (simp_all add: s' new)
  qed
qed

lemma partial_head:
  assumes "answered s" and "r \<in> set (at s p)"
  shows "partialStream (sy_req s r)" and "\<not> (rq_done (sy_req s r) \<and> rq_err (sy_req s r) = None)"
proof -
  show part: "partialStream (sy_req s r)" using assms unfolding answered_def by blast
  have "settledWell (sy_req s r)" using assms unfolding answered_def by blast
  with not_both part show "\<not> (rq_done (sy_req s r) \<and> rq_err (sy_req s r) = None)"
    unfolding settledWell_def by blast
qed

text \<open>The response that completes a stream: its request leaves the connection, and every place.\<close>

lemma deliver_last:
  assumes own: "owned_once (at s)" and ma: "matched s" and placed: "placed s"
    and stack: "sy_stacks s (Reader c) = Deliver x # rest" and op: "\<not> cn_closed (sy_conn s c)"
    and inflight: "cn_inflight (sy_conn s c) = head # queue" and stop: "rq_stop (sy_req s head) x"
    and log: "cn_log (sy_conn s c) = cn_answered (sy_conn s c) @ head # sent"
    and tail: "queue = sent @ tailOf (sy_stacks s (Writer c))"
    and out: "deliver c x now s = (new, s')"
  shows "matched (spawn (Reader c) (new @ rest) s')"
proof -
  let ?s = "spawn (Reader c) (new @ rest) s'"
  have sh: "shaped s" and an: "answered s" and np: "\<not> sy_panicked s" using ma by (simp_all add: matched_def)
  note rest = shapedD [OF sh stack]
  note eff = deliver_completes [OF op inflight stop, where now = now, unfolded out fst_conv snd_conv]
  let ?fin = "cn_closing (sy_conn s c) \<and> queue = []"
  have frame: "sy_nextConn s' = sy_nextConn s" "sy_nextReq s' = sy_nextReq s" "sy_panicked s' = sy_panicked s"
    using out by (auto simp: deliver_def Let_def op inflight stop split: if_splits)
  have live: "at s (Live c) = head # sent" using op by (simp add: liveOf_def log)
  then have head_at: "head \<in> set (at s (Live c))" by simp
  note part = partial_head [OF an head_at]
  have head_lt: "head < sy_nextReq s" using placed head_at unfolding placed_def by blast
  have "shaped ?s"
    by (rule shaped_step [OF sh stack]) (use eff frame head_lt in \<open>auto split: if_splits\<close>)
  moreover have "piped ?s"
    unfolding piped_def
  proof
    fix y
    show "pipe (sy_conn ?s y) (sy_stacks ?s (Writer y)) (sy_stacks ?s (Reader y))"
    proof (cases "y = c")
      case True
      have "\<not> list_ex delivers (new @ rest)" using rest(3) by (simp add: eff(1))
      then show ?thesis
        using log tail by (simp add: True pipe_def eff)
    next
      case False
      with ma show ?thesis by (simp add: eff matched_def piped_def)
    qed
  qed
  moreover have "answered ?s"
    unfolding answered_def
  proof (intro conjI allI impI ballI)
    fix p r assume r: "r \<in> set (at ?s p)"
    have sub: "r \<in> set (at s p) \<and> r \<noteq> head"
    proof (cases "p = Live c")
      case True
      have "distinct (at s (Live c))" by (rule owned_once_distinct [OF own])
      with r True live show ?thesis by (auto simp: liveOf_def eff log split: if_splits)
    next
      case False
      have "r \<in> set (at s p)"
        using r False rest stack by (cases p) (auto simp: liveOf_def eff split: if_splits)
      moreover have "head \<notin> set (at s p)" using owned_onceD [OF own head_at, of p] False by blast
      ultimately show ?thesis by blast
    qed
    then have "partialStream (sy_req s r)" using an unfolding answered_def by blast
    with sub show "partialStream (sy_req ?s r)" by (simp add: eff)
  next
    fix g r assume "Complete r \<in> set (sy_stacks ?s g)"
    then have "r = head \<or> Complete r \<in> set (sy_stacks s g)"
      using stack by (auto simp: eff split: if_splits)
    then show "wholeStream (sy_req ?s r)"
    proof
      assume "r = head"
      with part(1) stop show ?thesis
        by (auto simp: eff partialStream_def wholeStream_def streamOf_def)
    next
      assume "Complete r \<in> set (sy_stacks s g)"
      then have "wholeStream (sy_req s r)" using an unfolding answered_def by blast
      moreover from this have "r \<noteq> head" using part(1) not_both by blast
      ultimately show ?thesis by (simp add: eff)
    qed
  next
    fix r
    have "settledWell (sy_req s r)" using an unfolding answered_def by blast
    then show "settledWell (sy_req ?s r)"
      using part(2) by (cases "r = head") (auto simp: eff settledWell_def payload_len_def)
  qed
  ultimately show ?thesis using np by (simp add: matched_def frame)
qed

lemma deliver_matched:
  assumes placed: "placed s" and ma: "matched s" and stack: "sy_stacks s (Reader c) = Deliver x # rest"
    and out: "deliver c x now s = (new, s')"
  shows "matched (spawn (Reader c) (new @ rest) s')"
proof -
  have own: "owned_once (at s)" using placed by (simp add: placed_def)
  have moves: "moves (Reader c) (Deliver x) s (new, s')"
    using deliver_moves [of "Reader c" x s c now] by (simp add: out)
  note tame = matched_tame [OF own ma stack _ _ moves]
  have pipe: "pipe (sy_conn s c) (sy_stacks s (Writer c)) (Deliver x # rest)"
    using ma pipedD [of s c] stack by (simp add: matched_def)
  show ?thesis
  proof (cases "cn_closed (sy_conn s c)")
    case True
    then show ?thesis using out by (intro tame) (auto simp: deliver_def)
  next
    case op: False
    then obtain head sent where log: "cn_log (sy_conn s c) = cn_answered (sy_conn s c) @ head # sent"
      and inflight: "cn_inflight (sy_conn s c) = head # sent @ tailOf (sy_stacks s (Writer c))"
      using pipe by (auto simp: pipe_def neq_Nil_conv)
    have head_at: "head \<in> set (at s (Live c))" using op by (simp add: liveOf_def log)
    have an: "answered s" using ma by (simp add: matched_def)
    show ?thesis
    proof (cases "rq_stop (sy_req s head) x")
      case True
      then show ?thesis using deliver_last [OF own ma placed stack op inflight _ log _ out] by simp
    next
      case False
      note part = partial_head [OF an head_at]
      have "steady (sy_req s head) ((sy_req s head)\<lparr>rq_responses := rq_responses (sy_req s head) @ [x]\<rparr>)"
        using part(2) not_both [OF _ ] part(1) False
        by (auto simp: steady_def settledWell_def partialStream_def payload_len_def dest: not_both)
      then show ?thesis
        using out False by (intro tame tame_reqs) (auto simp: deliver_waits [OF op inflight])
    qed
  qed
qed

section \<open>Every state reached with an honest server\<close>

lemma writerOf_Some: "writerOf g = Some c \<longleftrightarrow> g = Writer c"
  and readerOf_Some: "readerOf g = Some c \<longleftrightarrow> g = Reader c"
  by (cases g; auto)+

text \<open>The calls that leave the order alone, all at once.\<close>

lemma perform_tame:
  assumes ma: "matched s" and acc: "accounted s" and stack: "sy_stacks s g = a # rest"
    and kind: "\<not> (a = Claim \<or> (\<exists>b. a = Flush b) \<or> (\<exists>sps n e. a = Flushed sps n e) \<or> a = Read \<or> (\<exists>x. a = Deliver x))"
    and perf: "perform cfg g inp a s = Some out"
  shows "tame a s out"
proof -
  have an: "answered s" using ma by (simp add: matched_def)
  have sane: "sane a" using accountedD(4) [OF acc stack] by (simp add: ok_action_def)
  have part: "partialStream (sy_req s r)" if "r \<in> set (carried a)" for r
    using partial_head(1) [OF an, of r "Stack g"] that by (simp add: stack)
  show ?thesis
  proof (cases a)
    case (Complete r)
    have "Complete r \<in> set (sy_stacks s g)" by (simp add: stack Complete)
    then have "wholeStream (sy_req s r)" using an unfolding answered_def by blast
    then show ?thesis using perf Complete by (auto intro: complete_tame)
  next
    case Run
    then show ?thesis using perf stack by (auto simp: writerOf_Some intro!: run_tame)
  next
    case (Await r)
    then show ?thesis
      using perf by (auto simp: await_def join_tame giveUp_tame split: option.splits)
  next
    case (FlushSettle sps n e cl cause bl sv rq)
    then show ?thesis using perf sane part by (auto intro!: flushSettle_tame simp del: sane.simps)
  next
    case (Rehome rs cause rq)
    then show ?thesis using perf sane part by (auto intro!: rehome_tame)
  next
    case Unlock
    then show ?thesis using perf by (auto intro!: tame_reqs)
  qed (use perf kind part in \<open>auto simp: bind_eq_Some_conv enqueue_tame add_tame join_tame detach_tame
      close_tame drain_tame settleClosed_tame awaitWake_tame teardown_tame teardownSettle_tame
      expire_tame orphan_tame\<close>)
qed

lemma perform_matched:
  assumes placed: "placed s" and acc: "accounted s" and ma: "matched s"
    and stack: "sy_stacks s g = a # rest" and perf: "perform cfg g inp a s = Some (new, s')"
    and honest: "\<not> answersUnasked cfg (Step g inp) s"
  shows "matched (spawn g (new @ rest) s')"
proof -
  have own: "owned_once (at s)" using placed by (simp add: placed_def)
  have sane: "sane a" using accountedD(4) [OF acc stack] by (simp add: ok_action_def)
  consider (claim) "a = Claim" | (flush) b where "a = Flush b" | (flushed) sps n e where "a = Flushed sps n e"
    | (read) "a = Read" | (deliver) x where "a = Deliver x"
    | (tame) "\<not> (a = Claim \<or> (\<exists>b. a = Flush b) \<or> (\<exists>sps n e. a = Flushed sps n e) \<or> a = Read \<or> (\<exists>x. a = Deliver x))"
    by blast
  then show ?thesis
  proof cases
    case tame
    then have "inflightTail a = []" by (cases a) auto
    then show ?thesis
      by (rule matched_tame [OF own ma stack _ perform_tame [OF ma acc stack tame perf] perform_moves [OF perf]])
  next
    case claim
    with perf obtain c where g: "g = Writer c" and out: "claim c s = (new, s')" by (auto simp: writerOf_Some)
    show ?thesis using claim_matched [OF own ma stack [unfolded g claim] out] by (simp add: g)
  next
    case flush
    with perf obtain c where g: "g = Writer c" and out: "flush c b inp s = (new, s')" by (auto simp: writerOf_Some)
    show ?thesis using flush_matched [OF own ma stack [unfolded g flush] out] by (simp add: g)
  next
    case flushed
    with perf obtain c where g: "g = Writer c" and out: "flushed c sps n e s = (new, s')"
      by (auto simp: writerOf_Some)
    show ?thesis
      using flushed_matched [OF own ma sane [unfolded flushed] stack [unfolded g flushed] out] by (simp add: g)
  next
    case read
    with perf obtain c where g: "g = Reader c" and out: "read_next cfg c inp s = (new, s')"
      by (auto simp: readerOf_Some)
    show ?thesis using read_matched [OF own ma stack [unfolded g read] honest [unfolded g] out] by (simp add: g)
  next
    case deliver
    with perf obtain c where g: "g = Reader c" and out: "deliver c x (in_now inp) s = (new, s')"
      by (auto simp: readerOf_Some)
    show ?thesis using deliver_matched [OF placed ma stack [unfolded g deliver] out] by (simp add: g)
  qed
qed

lemma matched_begin:
  assumes placed: "placed s" and ma: "matched s"
  shows "matched (beginExchange cfg payload stop deadline now s)"
proof -
  let ?r = "sy_nextReq s"
  let ?new = "newRequest payload stop (exchangeDeadline cfg now deadline)"
  let ?s = "beginExchange cfg payload stop deadline now s"
  have fields: "sy_req ?s = (sy_req s)(?r := ?new)" "sy_stacks ?s = (sy_stacks s)(Caller ?r := [Enqueue ?r])"
    "sy_conn ?s = sy_conn s" "sy_nextConn ?s = sy_nextConn s" "sy_nextReq ?s = Suc ?r" "sy_panicked ?s = sy_panicked s"
    "at ?s = (at s)(Stack (Caller ?r) := [?r])"
    by (simp_all add: beginExchange_def Let_def)
  have new: "partialStream ?new" "settledWell ?new" by (simp_all add: newRequest_def stream_defs)
  have sh: "shaped s" and pi: "piped s" and an: "answered s" and np: "\<not> sy_panicked s"
    using ma by (simp_all add: matched_def)
  have "shaped ?s" using sh unfolding shaped_def fields by (auto simp: less_SucI)
  moreover have "piped ?s" using pi by (simp add: piped_def fields)
  moreover have "answered ?s"
    unfolding answered_def
  proof (intro conjI allI impI ballI)
    fix p r assume "r \<in> set (at ?s p)"
    then have "r = ?r \<or> r \<in> set (at s p)" by (auto simp: fields split: if_splits)
    then show "partialStream (sy_req ?s r)" using an new by (auto simp: fields answered_def)
  next
    fix g r assume "Complete r \<in> set (sy_stacks ?s g)"
    then have "Complete r \<in> set (sy_stacks s g)" by (auto simp: fields split: if_splits)
    moreover from this have "r < ?r" using sh unfolding shaped_def by blast
    ultimately show "wholeStream (sy_req ?s r)" using an unfolding answered_def fields by auto
  next
    fix r show "settledWell (sy_req ?s r)" using an new by (simp add: fields answered_def)
  qed
  ultimately show ?thesis using np by (simp add: matched_def fields)
qed

lemma matched_occur:
  assumes placed: "placed s" and acc: "accounted s" and ma: "matched s"
    and honest: "\<not> answersUnasked cfg e s"
  shows "matched (occur cfg e s)"
proof (cases e)
  case (Begin payload stop deadline now)
  then show ?thesis using matched_begin [OF placed ma] by simp
next
  case CloseClient
  have "at (spawn Closer [Close] s) p = at s p" if "sy_stacks s Closer = []" for p
    using that by (cases p) simp_all
  then show ?thesis
    using ma by (auto simp: CloseClient matched_def shaped_def piped_def answered_def)
next
  case (Step g inp)
  show ?thesis
  proof (cases "sy_stacks s g")
    case Nil
    then show ?thesis using ma by (simp add: Step step_def)
  next
    case stack: (Cons a rest)
    show ?thesis
    proof (cases "perform cfg g inp a s")
      case None
      then show ?thesis using ma by (simp add: Step step_def stack)
    next
      case (Some out)
      obtain new s' where out: "out = (new, s')" by fastforce
      have "\<not> sy_panicked s" using ma by (simp add: matched_def)
      then show ?thesis
        using perform_matched [OF placed acc ma stack Some [unfolded out] honest [unfolded Step]] Some
        by (simp add: Step step_def stack out)
    qed
  qed
qed

lemma matched_init: "matched initSys"
proof -
  have "at initSys p = []" for p by (cases p) (simp_all add: initSys_def freshConn_def liveOf_def)
  then show ?thesis
    by (simp add: matched_def shaped_def piped_def pipe_def answered_def initSys_def freshConn_def
        newRequest_def stream_defs)
qed

lemma honestly_matched: "honestly cfg s \<Longrightarrow> matched s"
proof (induction rule: honestly.induct)
  case honestly_init
  show ?case by (rule matched_init)
next
  case (honestly_step s e)
  then show ?case
    using reachable_invariants [OF honestly_reachable [OF honestly_step(1)]] by (auto intro: matched_occur)
qed

end
