(* ===== verification/Callers.thy ===== *)
theory Callers
  imports Matching_Steps
begin

text \<open>
  What no step changes: the command of a request and the rule that ends its stream, and the
  answer its caller got. The last because a caller passes its select once: the calls that
  answer it are on its own stack only, one at a time, and never again once it was answered.
\<close>

definition sameCommand :: "request \<Rightarrow> request \<Rightarrow> bool" where
  "sameCommand q q' \<longleftrightarrow> rq_payload q' = rq_payload q \<and> rq_stop q' = rq_stop q \<and>
     (rq_done q \<longrightarrow> rq_done q')"

definition sameAnswer :: "request \<Rightarrow> request \<Rightarrow> bool" where
  "sameAnswer q q' \<longleftrightarrow> sameCommand q q' \<and> rq_result q' = rq_result q"

lemma same_refl [simp]: "sameCommand q q" "sameAnswer q q"
  by (simp_all add: sameCommand_def sameAnswer_def)

lemma sameAnswer_trans: "sameAnswer q q' \<Longrightarrow> sameAnswer q' q'' \<Longrightarrow> sameAnswer q q''"
  by (simp add: sameCommand_def sameAnswer_def)

lemma sameAnswer_fields [simp]:
  "sameAnswer q (q\<lparr>rq_conn := x\<rparr>)" "sameAnswer q (q\<lparr>rq_onWire := b\<rparr>)"
  "sameAnswer q (q\<lparr>rq_state := st\<rparr>)" "sameAnswer q (q\<lparr>rq_sent := n\<rparr>)"
  "sameAnswer q (q\<lparr>rq_responses := rs\<rparr>)" "sameAnswer q (q\<lparr>rq_conn := x, rq_state := st\<rparr>)"
  by (simp_all add: sameCommand_def sameAnswer_def)

lemma complete_same [simp]: "sameAnswer (sy_req s x) (sy_req (complete r rs n e s) x)"
  by (simp add: complete_def sameCommand_def sameAnswer_def)

lemma completeWritten_same [simp]: "sameAnswer (sy_req s x) (sy_req (completeWritten r e s) x)"
  by (simp add: completeWritten_def)

lemma noteSent_same [simp]: "sameAnswer (sy_req s r) (sy_req (noteSent n sps s) r)"
proof (induction n sps s rule: noteSent.induct)
  case (2 n sp sps s)
  show ?case using sameAnswer_trans [OF _ 2, of "sy_req s r"] by (cases "r = fst sp") simp_all
qed simp

lemma markOnWire_same [simp]: "sameAnswer (sy_req s r) (sy_req (markOnWire sps s) r)"
proof (induction sps s rule: markOnWire.induct)
  case (2 sp sps s)
  show ?case using sameAnswer_trans [OF _ 2, of "sy_req s r"] by (cases "r = fst sp") simp_all
qed simp

lemma cutTail_same: "cutTail c n sps s = Some s' \<Longrightarrow> sameAnswer (sy_req s r) (sy_req s' r)"
proof (induction c n sps s rule: cutTail.induct)
  case (2 c n x start end' sps s)
  show ?case
  proof (cases "n < end'")
    case True
    with 2(2) show ?thesis by (auto simp: Let_def split: if_splits)
  next
    case False
    with 2 have "sameAnswer (sy_req (upd_req x (\<lambda>q. q\<lparr>rq_onWire := True\<rparr>) s) r) (sy_req s' r)" by simp
    then show ?thesis by (rule sameAnswer_trans [rotated]) simp
  qed
qed simp

lemma claimAll_same [simp]: "sameAnswer (sy_req s r) (sy_req (snd (claimAll c queued s)) r)"
  by (simp add: claimAll_req)

section \<open>The calls that answer a caller\<close>

fun answers :: "action \<Rightarrow> nat option" where
  "answers (Enqueue r) = Some r"
| "answers (Await r) = Some r"
| "answers (Join r) = Some r"
| "answers _ = None"

definition answering :: "nat \<Rightarrow> action list \<Rightarrow> nat" where
  "answering r as = length (filter (\<lambda>a. answers a = Some r) as)"

lemma answering_simps [simp]:
  "answering r [] = 0" "answering r (as @ bs) = answering r as + answering r bs"
  "answering r (a # as) = (if answers a = Some r then 1 else 0) + answering r as"
  by (simp_all add: answering_def)

lemma answering_none: "list_all (\<lambda>a. answers a = None) as \<Longrightarrow> answering r as = 0"
  by (induction as) simp_all

inductive leavesAnswers :: "sys \<Rightarrow> action list \<times> sys \<Rightarrow> bool" where
  leavesI: "leavesAnswers s (new, s')"
    if "\<forall>r. sameAnswer (sy_req s r) (sy_req s' r)" and "list_all (\<lambda>a. answers a = None) new"

lemma leaves_same [simp]:
  "sy_req s' = sy_req s \<Longrightarrow> list_all (\<lambda>a. answers a = None) new \<Longrightarrow> leavesAnswers s (new, s')"
  by (rule leavesI) simp_all

lemma rehome_leaves: "leavesAnswers s (rehome cfg now rs cause rq s)"
proof (cases rs)
  case (Cons r rest)
  obtain c s1 where pick: "pickLocked cfg now s = (c, s1)" by fastforce
  have "sy_req s1 = sy_req s" using pickLocked_frame(1) [of cfg now s] by (simp add: pick)
  then show ?thesis by (auto simp: Cons pick intro: leavesI)
qed simp

lemma settleClosed_leaves: "leavesAnswers s (settleClosed rs s)"
  by (cases rs) (auto intro: leavesI)

lemma teardownSettle_leaves: "leavesAnswers s (teardownSettle c rs e s)"
  by (cases rs) (auto simp: Let_def intro: leavesI)

lemma teardown_leaves: "leavesAnswers s (teardownLocked c e hs s)"
  by (simp add: teardownLocked_def Let_def)

lemma claim_leaves: "leavesAnswers s (claim c s)"
proof (cases "cn_closed (sy_conn s c)")
  case False
  let ?s0 = "upd_conn c (\<lambda>k. k\<lparr>cn_pending := []\<rparr>) s"
  obtain b s1 where claimed: "claimAll c (cn_pending (sy_conn s c)) ?s0 = (b, s1)" by fastforce
  have "sameAnswer (sy_req s r) (sy_req s1 r)" for r
    using claimAll_same [of ?s0 r c "cn_pending (sy_conn s c)"] by (simp add: claimed)
  with False show ?thesis by (auto simp: claim_def claimed Let_def intro!: leavesI)
qed (simp add: claim_def)

lemma flush_leaves: "leavesAnswers s (flush c b inp s)"
proof -
  have "sameAnswer (sy_req s r) (sy_req (noteSent n sps (upd_conn c f s)) r)" for r n sps f
    using noteSent_same [of "upd_conn c f s" r n sps] by simp
  then show ?thesis by (auto simp: flush_def Let_def split: prod.split intro!: leavesI)
qed

lemma flushed_leaves: "leavesAnswers s (flushed c sps n e s)"
  by (auto simp: flushed_def Let_def cutTail_same split: option.split intro!: leavesI)

lemma flushSettle_leaves: "leavesAnswers s (flushSettle c sps n e cl cause bl sv rq s)"
proof (cases sps)
  case Nil
  then show ?thesis by (simp split: option.split)
next
  case (Cons sp sps')
  obtain r start end' where sp: "sp = (r, start, end')" by (cases sp) auto
  show ?thesis unfolding Cons sp flushSettle_out by (auto intro!: leavesI)
qed

lemma read_next_leaves: "leavesAnswers s (read_next cfg c inp s)"
  by (simp add: read_next_def Let_def split: prod.split option.split)

lemma deliver_leaves: "leavesAnswers s (deliver c x now s)"
  unfolding deliver_def Let_def by (simp split: list.split) (auto intro!: leavesI)

lemma perform_leaves:
  "perform cfg g inp a s = Some out \<Longrightarrow> answers a = None \<Longrightarrow> leavesAnswers s out"
  by (cases a)
    (auto simp: add_def orphan_def expire_def detach_def close_pool_def drain_def run_def awaitWake_def
      Let_def bind_eq_Some_conv list_all_iff rehome_leaves settleClosed_leaves teardownSettle_leaves teardown_leaves
      claim_leaves flush_leaves flushed_leaves flushSettle_leaves read_next_leaves deliver_leaves
      split: if_splits option.splits intro!: leavesI)

text \<open>A call that answers a caller passes the duty on, or answers and is done.\<close>

lemma perform_answers:
  assumes "perform cfg g inp a s = Some (new, s')" and "answers a = Some r"
  shows "sameCommand (sy_req s x) (sy_req s' x)" and "x \<noteq> r \<Longrightarrow> rq_result (sy_req s' x) = rq_result (sy_req s x)"
    and "answering x new \<le> (if x = r then 1 else 0)"
    and "rq_result (sy_req s' r) = rq_result (sy_req s r) \<or> answering r new = 0"
proof -
  have pick: "pickLocked cfg now s = (c, s1) \<Longrightarrow> sy_req s1 = sy_req s" for now c s1
    using pickLocked_frame(1) [of cfg now s] by simp
  have "sameCommand (sy_req s x) (sy_req s' x) \<and>
      (x \<noteq> r \<longrightarrow> rq_result (sy_req s' x) = rq_result (sy_req s x)) \<and>
      answering x new \<le> (if x = r then 1 else 0) \<and>
      (rq_result (sy_req s' r) = rq_result (sy_req s r) \<or> answering r new = 0)"
  proof (cases a)
    case (Enqueue y)
    with assms show ?thesis
      by (auto simp: enqueue_def sameCommand_def dest!: pick split: if_splits prod.splits)
  next
    case (Await y)
    with assms show ?thesis
      by (cases "rq_state (sy_req s y)"; cases "in_ctx inp")
        (auto simp: await_def join_def giveUp_def Let_def sameCommand_def split: if_splits option.splits)
  next
    case (Join y)
    with assms show ?thesis by (auto simp: join_def sameCommand_def split: if_splits)
  qed (use assms in simp_all)
  then show "sameCommand (sy_req s x) (sy_req s' x)" and "x \<noteq> r \<Longrightarrow> rq_result (sy_req s' x) = rq_result (sy_req s x)"
    and "answering x new \<le> (if x = r then 1 else 0)"
    and "rq_result (sy_req s' r) = rq_result (sy_req s r) \<or> answering r new = 0"
    by (elim conjE, assumption | simp)+
qed

lemma pickLocked_stacks:
  "sy_stacks (snd (pickLocked cfg now s)) h = sy_stacks s h \<or> sy_stacks (snd (pickLocked cfg now s)) h = [Run]"
  by (auto simp: pickLocked_def newConn_def Let_def case_prod_beta)

lemma rehome_stacks:
  "sy_stacks (snd (rehome cfg now rs cause rq s)) h = sy_stacks s h \<or>
     sy_stacks (snd (rehome cfg now rs cause rq s)) h = [Run]"
  using pickLocked_stacks [of cfg now s h] by (cases rs) (auto simp: case_prod_beta)

lemma loop_stacks [simp]:
  "sy_stacks (snd (settleClosed rs s)) = sy_stacks s"
  "sy_stacks (snd (teardownSettle c rs e s)) = sy_stacks s"
  "sy_stacks (snd (flushSettle c sps n err cl cause bl sv rq s)) = sy_stacks s"
proof -
  show "sy_stacks (snd (settleClosed rs s)) = sy_stacks s" by (cases rs) simp_all
  show "sy_stacks (snd (teardownSettle c rs e s)) = sy_stacks s" by (cases rs) (simp_all add: Let_def)
  show "sy_stacks (snd (flushSettle c sps n err cl cause bl sv rq s)) = sy_stacks s"
  proof (cases sps)
    case (Cons sp sps')
    then show ?thesis by (cases sp) (simp add: Let_def)
  qed simp
qed

lemma perform_stacks:
  assumes "perform cfg g inp a s = Some (new, s')"
  shows "sy_stacks s' h = sy_stacks s h \<or> sy_stacks s' h = [Run] \<or> sy_stacks s' h = [Read]"
proof -
  show ?thesis
  proof (cases a)
    case (Enqueue r)
    then show ?thesis
      using assms pickLocked_stacks [of cfg "in_now inp" s h]
      by (auto simp: enqueue_def split: if_splits prod.splits)
  next
    case (Rehome rs cause rq)
    then show ?thesis using assms rehome_stacks [of cfg "in_now inp" rs cause rq s h] by auto
  next
    case (SettleClosed rs)
    then show ?thesis using assms loop_stacks(1) [of rs s] by simp
  next
    case (TeardownSettle c rs e)
    then show ?thesis using assms loop_stacks(2) [of c rs e s] by simp
  next
    case (FlushSettle sps n err cl cause bl sv rq)
    then obtain c where "flushSettle c sps n err cl cause bl sv rq s = (new, s')" using assms by auto
    then show ?thesis using loop_stacks(3) [of c sps n err cl cause bl sv rq s] by simp
  qed (use assms in \<open>auto simp: operation_defs Let_def case_prod_beta bind_eq_Some_conv
      dest: cutTail_frame split: if_splits option.splits list.splits requestState.splits\<close>)
qed

definition answersOnce :: "sys \<Rightarrow> bool" where
  "answersOnce s \<longleftrightarrow> (\<forall>g r. answering r (sy_stacks s g) \<le>
     (if g = Caller r \<and> rq_result (sy_req s r) = None then 1 else 0))"

lemma step_answers:
  assumes once: "answersOnce s" and stack: "sy_stacks s g = a # rest"
    and perf: "perform cfg g inp a s = Some (new, s')"
    and stacks: "\<And>h. sy_stacks s' h = sy_stacks s h \<or> sy_stacks s' h = [Run] \<or> sy_stacks s' h = [Read]"
  shows "sameCommand (sy_req s r) (sy_req s' r)"
    and "rq_result (sy_req s r) \<noteq> None \<Longrightarrow> rq_result (sy_req s' r) = rq_result (sy_req s r)"
    and "answering r (sy_stacks (spawn g (new @ rest) s') h) \<le>
      (if h = Caller r \<and> rq_result (sy_req s' r) = None then 1 else 0)"
proof -
  have mine: "answering r (a # rest) \<le> (if g = Caller r \<and> rq_result (sy_req s r) = None then 1 else 0)"
    using once stack unfolding answersOnce_def by metis
  have others: "answering r (sy_stacks s h) \<le> (if h = Caller r \<and> rq_result (sy_req s r) = None then 1 else 0)" for h
    using once unfolding answersOnce_def by blast
  have "sameCommand (sy_req s r) (sy_req s' r) \<and>
      (rq_result (sy_req s r) \<noteq> None \<longrightarrow> rq_result (sy_req s' r) = rq_result (sy_req s r)) \<and>
      (\<forall>h. answering r (sy_stacks (spawn g (new @ rest) s') h) \<le>
        (if h = Caller r \<and> rq_result (sy_req s' r) = None then 1 else 0))"
  proof (cases "answers a")
    case None
    then have "leavesAnswers s (new, s')" using perform_leaves [OF perf] by simp
    then have same: "sameAnswer (sy_req s r) (sy_req s' r)" and new: "answering r new = 0"
      by (auto elim!: leavesAnswers.cases intro: answering_none)
    have "answering r (sy_stacks (spawn g (new @ rest) s') h) \<le> answering r (sy_stacks s h)" for h
      using new stacks [of h] stack by auto
    with others have "answering r (sy_stacks (spawn g (new @ rest) s') h) \<le>
        (if h = Caller r \<and> rq_result (sy_req s r) = None then 1 else 0)" for h
      using order_trans by blast
    then show ?thesis using same by (simp add: sameAnswer_def del: spawn_simps)
  next
    case (Some y)
    note ans = perform_answers [OF perf Some]
    show ?thesis
    proof (cases "y = r")
      case True
      then have g: "g = Caller r" and none: "rq_result (sy_req s r) = None" and rest: "answering r rest = 0"
        using mine Some by (auto split: if_splits)
      have "answering r (sy_stacks s' h) = 0" if "h \<noteq> g" for h
        using others [of h] stacks [of h] that g by auto
      then show ?thesis
        using ans(1) [of r] ans(3) [of r] ans(4) rest g none True by auto
    next
      case False
      have "answering r (sy_stacks (spawn g (new @ rest) s') h) \<le> answering r (sy_stacks s h)" for h
        using ans(3) [of r] False stacks [of h] stack by auto
      with others have "answering r (sy_stacks (spawn g (new @ rest) s') h) \<le>
          (if h = Caller r \<and> rq_result (sy_req s r) = None then 1 else 0)" for h
        using order_trans by blast
      then show ?thesis using ans(1,2) [of r] False by (simp del: spawn_simps)
    qed
  qed
  then show "sameCommand (sy_req s r) (sy_req s' r)"
    and "rq_result (sy_req s r) \<noteq> None \<Longrightarrow> rq_result (sy_req s' r) = rq_result (sy_req s r)"
    and "answering r (sy_stacks (spawn g (new @ rest) s') h) \<le>
      (if h = Caller r \<and> rq_result (sy_req s' r) = None then 1 else 0)"
    by blast+
qed

section \<open>Every reachable state\<close>

definition commandKept :: "sys \<Rightarrow> sys \<Rightarrow> nat \<Rightarrow> bool" where
  "commandKept s s' r \<longleftrightarrow> sameCommand (sy_req s r) (sy_req s' r) \<and>
     (rq_result (sy_req s r) \<noteq> None \<longrightarrow> rq_result (sy_req s' r) = rq_result (sy_req s r))"

lemma commandKept_refl [simp]: "commandKept s s r"
  by (simp add: commandKept_def)

lemma commandKept_trans: "commandKept s s' r \<Longrightarrow> commandKept s' s'' r \<Longrightarrow> commandKept s s'' r"
  by (auto simp: commandKept_def sameCommand_def)

lemma occur_answers:
  assumes once: "answersOnce s"
  shows "answersOnce (occur cfg e s)" and "r < sy_nextReq s \<Longrightarrow> commandKept s (occur cfg e s) r"
    and "sy_nextReq s \<le> sy_nextReq (occur cfg e s)"
proof -
  have "answersOnce (occur cfg e s) \<and> (r < sy_nextReq s \<longrightarrow> commandKept s (occur cfg e s) r) \<and>
      sy_nextReq s \<le> sy_nextReq (occur cfg e s)"
  proof (cases e)
    case (Begin payload stop deadline now)
    let ?r = "sy_nextReq s"
    have bound: "answering x (sy_stacks s h) \<le> (if h = Caller x \<and> rq_result (sy_req s x) = None then 1 else 0)"
      for h x using once unfolding answersOnce_def by blast
    have "answersOnce (occur cfg e s)"
      unfolding answersOnce_def
    proof (intro allI)
      fix g x
      let ?s = "occur cfg e s"
      show "answering x (sy_stacks ?s g) \<le> (if g = Caller x \<and> rq_result (sy_req ?s x) = None then 1 else 0)"
      proof (cases "g = Caller ?r")
        case True
        then show ?thesis by (auto simp: Begin beginExchange_def Let_def newRequest_def)
      next
        case False
        then show ?thesis using bound [of x g] by (cases "x = ?r") (auto simp: Begin beginExchange_def Let_def)
      qed
    qed
    then show ?thesis by (simp add: Begin beginExchange_def Let_def commandKept_def)
  next
    case CloseClient
    then show ?thesis using once by (auto simp: answersOnce_def commandKept_def)
  next
    case (Step g inp)
    show ?thesis
    proof (cases "sy_panicked s \<or> sy_stacks s g = []")
      case True
      then show ?thesis using once by (auto simp: Step step_def split: list.split)
    next
      case False
      then obtain a rest where stack: "sy_stacks s g = a # rest" by (meson list.exhaust)
      show ?thesis
      proof (cases "perform cfg g inp a s")
        case None
        then show ?thesis using once by (simp add: Step step_def stack)
      next
        case (Some out)
        obtain new s' where out: "out = (new, s')" by fastforce
        note perf = Some [unfolded out]
        note ans = step_answers [OF once stack perf perform_stacks [OF perf]]
        have "occur cfg e s = spawn g (new @ rest) s'" using False Some by (simp add: Step step_def stack out)
        then show ?thesis
          using ans perform_nextReq [OF perf]
          by (auto simp: answersOnce_def commandKept_def simp del: spawn_simps(1))
      qed
    qed
  qed
  then show "answersOnce (occur cfg e s)" and "r < sy_nextReq s \<Longrightarrow> commandKept s (occur cfg e s) r"
    and "sy_nextReq s \<le> sy_nextReq (occur cfg e s)"
    by simp_all
qed

lemma reachable_answersOnce: "reachable cfg s \<Longrightarrow> answersOnce s"
proof (induction rule: reachable.induct)
  case reachable_init
  show ?case by (simp add: answersOnce_def initSys_def)
next
  case (reachable_step s e)
  then show ?case by (simp add: occur_answers)
qed

end
