(* ===== verification/Calls.thy ===== *)
theory Calls
  imports Callers
begin

text \<open>
  Calls return. The goroutine that holds the pool's mutex can always go on to release it,
  and a caller whose context has ended then passes its select: so an exchange returns when
  its context ends, whatever its connection and its server do.
\<close>

section \<open>Stacks that matter for progress\<close>

text \<open>What the holder of the pool's mutex has to do before it unlocks, in steps.\<close>

fun unlockSteps :: "action list \<Rightarrow> nat" where
  "unlockSteps (Add r c # as) = Suc (unlockSteps as)"
| "unlockSteps (Rehome rs cause requeue # as) = Suc (2 * length rs) + unlockSteps as"
| "unlockSteps _ = 1"

fun releases :: "action list \<Rightarrow> bool" where
  "releases (Add r c # as) = releases as"
| "releases (Rehome rs cause requeue # as) = releases as"
| "releases (Unlock # as) = True"
| "releases _ = False"

definition waitsFor :: "nat \<Rightarrow> request \<Rightarrow> action list \<Rightarrow> bool" where
  "waitsFor r q as \<longleftrightarrow> as = [Enqueue r] \<or> (\<exists>c. as = [Add r c, Unlock, Await r]) \<or>
     as = [Unlock, Await r] \<or> as = [Await r] \<or> as = [Join r] \<and> rq_done q"

definition progressing :: "sys \<Rightarrow> bool" where
  "progressing s \<longleftrightarrow>
     (\<forall>c. Run \<in> set (sy_stacks s (Writer c)) \<longrightarrow> sy_stacks s (Writer c) = [Run] \<and> sy_stacks s (Reader c) = []) \<and>
     (\<forall>c \<ge> sy_nextConn s. sy_stacks s (Writer c) = [] \<and> sy_stacks s (Reader c) = []) \<and>
     (\<forall>g. sy_holder s = Some g \<longrightarrow> releases (sy_stacks s g)) \<and>
     (\<forall>r < sy_nextReq s. rq_result (sy_req s r) = None \<longrightarrow> waitsFor r (sy_req s r) (sy_stacks s (Caller r))) \<and>
     (\<forall>r \<ge> sy_nextReq s. sy_stacks s (Caller r) = [])"

text \<open>What one call does to the other goroutines, the mutex and the number of connections.\<close>

inductive progresses :: "goroutine \<Rightarrow> action \<Rightarrow> sys \<Rightarrow> action list \<times> sys \<Rightarrow> bool" where
  progressesI: "progresses g a s (new, s')"
    if "\<forall>h. sy_stacks s' h = sy_stacks s h \<or>
        (\<exists>c. h = Writer c \<and> sy_nextConn s \<le> c \<and> c < sy_nextConn s' \<and> sy_stacks s' h = [Run]) \<or>
        (\<exists>c. h = Reader c \<and> g = Writer c \<and> a = Run)"
      and "Run \<notin> set new"
      and "sy_nextConn s \<le> sy_nextConn s'"
      and "sy_holder s' = sy_holder s \<or> sy_holder s' = None \<and> a = Unlock \<or>
        sy_holder s = None \<and> sy_holder s' = Some g \<and> releases new"

lemma progresses_same:
  "sy_stacks s' = sy_stacks s \<Longrightarrow> sy_nextConn s' = sy_nextConn s \<Longrightarrow> sy_holder s' = sy_holder s \<Longrightarrow>
     Run \<notin> set new \<Longrightarrow> progresses g a s (new, s')"
  by (rule progressesI) simp_all

lemma pickLocked_progress:
  assumes "pickLocked cfg now s = (c, s1)" and "sy_stacks s' = sy_stacks s1" "sy_nextConn s' = sy_nextConn s1"
    and "sy_holder s' = sy_holder s1 \<or> sy_holder s = None \<and> sy_holder s' = Some g \<and> releases new"
    and "Run \<notin> set new"
  shows "progresses g a s (new, s')"
proof -
  have s1: "s1 = snd (pickLocked cfg now s)" using assms(1) by simp
  have "sy_holder s1 = sy_holder s" by (simp add: s1)
  moreover have "sy_nextConn s \<le> sy_nextConn s1"
    by (simp add: s1 pickLocked_def newConn_def Let_def case_prod_beta)
  moreover have "sy_stacks s1 h = sy_stacks s h \<or>
      (\<exists>c. h = Writer c \<and> sy_nextConn s \<le> c \<and> c < sy_nextConn s1 \<and> sy_stacks s1 h = [Run])" for h
    by (auto simp: s1 pickLocked_def newConn_def Let_def case_prod_beta)
  ultimately show ?thesis using assms by (intro progressesI) auto
qed

lemma flushSettle_frame:
  "sy_nextConn (snd (flushSettle c sps n err cl cause bl sv rq s)) = sy_nextConn s \<and>
   sy_holder (snd (flushSettle c sps n err cl cause bl sv rq s)) = sy_holder s \<and>
   Run \<notin> set (fst (flushSettle c sps n err cl cause bl sv rq s))"
proof (cases sps)
  case (Cons sp sps')
  then show ?thesis by (cases sp) (simp add: Let_def)
qed (simp split: option.split)

lemma rehome_progress: "progresses g a s (rehome cfg now rs cause rq s)"
proof (cases rs)
  case (Cons r rest)
  obtain c s1 where pick: "pickLocked cfg now s = (c, s1)" by fastforce
  have "progresses g a s ([Add r c, Rehome rest cause rq], s1)"
    by (rule pickLocked_progress [OF pick]) simp_all
  then show ?thesis by (cases rq) (simp_all add: Cons pick progresses_same)
qed (simp add: progresses_same)

lemma enqueue_progress:
  assumes "enqueue cfg g now r s = Some out"
  shows "progresses g a s out"
proof (cases "sy_closed s")
  case True
  with assms show ?thesis by (auto simp: enqueue_def split: if_splits intro!: progresses_same)
next
  case False
  obtain c s1 where pick: "pickLocked cfg now s = (c, s1)" by fastforce
  have "sy_holder s = None" and "out = ([Add r c, Unlock, Await r], s1\<lparr>sy_holder := Some g\<rparr>)"
    using assms False by (auto simp: enqueue_def pick split: if_splits)
  then show ?thesis using pickLocked_progress [OF pick] by simp
qed

lemma perform_progress:
  assumes perf: "perform cfg g inp a s = Some out"
  shows "progresses g a s out"
proof (cases a)
  case (Enqueue r)
  then show ?thesis using perf enqueue_progress [of cfg g "in_now inp" r s out] by simp
next
  case (Rehome rs cause rq)
  then show ?thesis using perf rehome_progress [of g a s] by auto
next
  case (Detach k rs cause rq)
  then show ?thesis using perf by (auto simp: detach_def Let_def split: if_splits intro!: progressesI)
next
  case Unlock
  then show ?thesis using perf by (auto intro!: progressesI)
next
  case Run
  then obtain c where g: "g = Writer c" and out: "run c inp s = out" using perf by (auto simp: writerOf_Some)
  show ?thesis
    unfolding out [symmetric] Run g by (auto simp: run_def split: option.split intro!: progressesI)
next
  case (SettleClosed rs)
  then show ?thesis using perf by (cases rs) (auto intro!: progresses_same)
next
  case (TeardownSettle c rs e)
  then show ?thesis using perf by (cases rs) (auto simp: Let_def intro!: progresses_same)
next
  case (FlushSettle sps n err cl cause bl sv rq)
  then obtain c where out: "flushSettle c sps n err cl cause bl sv rq s = out" using perf by auto
  show ?thesis
    using flushSettle_frame [of c sps n err cl cause bl sv rq s] loop_stacks(3) [of c sps n err cl cause bl sv rq s]
    by (cases out) (simp add: out progresses_same)
qed (use perf in \<open>auto simp: operation_defs Let_def case_prod_beta bind_eq_Some_conv
      dest!: cutTail_frame split: if_splits option.splits list.splits requestState.splits intro!: progresses_same\<close>)

section \<open>Every reachable state\<close>

text \<open>The stack of a caller whose call has not returned, before and after a step of it.\<close>

lemma perform_waits:
  assumes waits: "waitsFor r (sy_req s r) (a # rest)" and ok: "ok_req (sy_req s r)"
    and none: "rq_result (sy_req s r) = None"
    and perf: "perform cfg g inp a s = Some (new, s')"
  shows "rq_result (sy_req s' r) \<noteq> None \<or> waitsFor r (sy_req s' r) (new @ rest)"
proof -
  have pick: "pickLocked cfg now s = (c, s1) \<Longrightarrow> sy_req s1 = sy_req s" for now c s1
    using pickLocked_frame(1) [of cfg now s] by simp
  from waits consider "a = Enqueue r" "rest = []" | c where "a = Add r c" "rest = [Unlock, Await r]"
    | "a = Unlock" "rest = [Await r]" | "a = Await r" "rest = []" | "a = Join r" "rest = []" "rq_done (sy_req s r)"
    by (auto simp: waitsFor_def)
  then show ?thesis
  proof cases
    case 1
    with perf none show ?thesis
      by (auto simp: enqueue_def waitsFor_def dest!: pick split: if_splits prod.splits)
  next
    case 4
    have "rq_done (sy_req s r)" if "rq_state (sy_req s r) = RequestDone" using ok none that by (simp add: ok_req_def)
    with 4 perf show ?thesis
      by (cases "rq_state (sy_req s r)"; cases "in_ctx inp")
        (auto simp: await_def join_def giveUp_def resultOf_def Let_def waitsFor_def split: if_splits option.splits)
  qed (use perf in \<open>auto simp: waitsFor_def join_def resultOf_def add_def split: if_splits\<close>)
qed

lemma releases_append: "releases as \<Longrightarrow> releases (as @ bs)"
  by (induction as rule: releases.induct) simp_all

lemma perform_releases:
  assumes "releases (a # rest)" and "a \<noteq> Unlock" and "perform cfg g inp a s = Some (new, s')"
  shows "releases (new @ rest)" and "unlockSteps (new @ rest) < unlockSteps (a # rest)"
proof -
  have "releases (new @ rest) \<and> unlockSteps (new @ rest) < unlockSteps (a # rest)"
  proof (cases a)
    case (Rehome rs cause rq)
    then show ?thesis
      using assms by (cases rs) (auto split: if_splits prod.splits)
  qed (use assms in simp_all)
  then show "releases (new @ rest)" and "unlockSteps (new @ rest) < unlockSteps (a # rest)" by simp_all
qed

lemma waitsFor_done: "waitsFor r q as \<Longrightarrow> (rq_done q \<Longrightarrow> rq_done q') \<Longrightarrow> waitsFor r q' as"
  by (auto simp: waitsFor_def)

lemma progressing_step:
  assumes pr: "progressing s" and acc: "accounted s" and once: "answersOnce s"
    and stack: "sy_stacks s g = a # rest" and perf: "perform cfg g inp a s = Some (new, s')"
  shows "progressing (spawn g (new @ rest) s')"
proof -
  let ?s = "spawn g (new @ rest) s'"
  have "progresses g a s (new, s')" by (rule perform_progress [OF perf])
  then have stacks: "\<And>h. sy_stacks s' h = sy_stacks s h \<or>
        (\<exists>c. h = Writer c \<and> sy_nextConn s \<le> c \<and> c < sy_nextConn s' \<and> sy_stacks s' h = [Run]) \<or>
        (\<exists>c. h = Reader c \<and> g = Writer c \<and> a = Run)"
    and new: "Run \<notin> set new" and conns: "sy_nextConn s \<le> sy_nextConn s'"
    and holder: "sy_holder s' = sy_holder s \<or> sy_holder s' = None \<and> a = Unlock \<or>
        sy_holder s = None \<and> sy_holder s' = Some g \<and> releases new"
    by (auto elim!: progresses.cases)
  have run: "Run \<in> set (sy_stacks s (Writer c)) \<Longrightarrow> sy_stacks s (Writer c) = [Run] \<and> sy_stacks s (Reader c) = []"
    and fresh: "sy_nextConn s \<le> c \<Longrightarrow> sy_stacks s (Writer c) = [] \<and> sy_stacks s (Reader c) = []"
    and held: "sy_holder s = Some h \<Longrightarrow> releases (sy_stacks s h)"
    and waits: "r < sy_nextReq s \<Longrightarrow> rq_result (sy_req s r) = None \<Longrightarrow> waitsFor r (sy_req s r) (sy_stacks s (Caller r))"
    and idle: "sy_nextReq s \<le> r \<Longrightarrow> sy_stacks s (Caller r) = []"
    for c h r using pr unfolding progressing_def by blast+
  have g_old: "g = Writer c \<or> g = Reader c \<Longrightarrow> c < sy_nextConn s" for c
    using fresh [of c] stack by (metis linorder_not_less list.distinct(1))
  have run_g: "g = Writer c \<and> a = Run \<Longrightarrow> sy_stacks s (Reader c) = [] \<and> rest = []" for c
    using run [of c] stack by auto
  have 1: "sy_stacks ?s (Writer c) = [Run] \<and> sy_stacks ?s (Reader c) = []"
    if R: "Run \<in> set (sy_stacks ?s (Writer c))" for c
  proof (cases "g = Writer c")
    case True
    then have "Run \<in> set rest" using R new by simp
    then show ?thesis using run [of c] stack True by auto
  next
    case False
    show ?thesis
    proof (cases "sy_stacks s' (Writer c) = sy_stacks s (Writer c)")
      case True
      then have old: "sy_stacks s (Writer c) = [Run]" "sy_stacks s (Reader c) = []" using run [of c] R False by auto
      then show ?thesis using True False stack stacks [of "Reader c"] by auto
    next
      case changed: False
      then have c: "sy_nextConn s \<le> c" "sy_stacks s' (Writer c) = [Run]" using stacks [of "Writer c"] by auto
      then have "g \<noteq> Reader c" using g_old [of c] by auto
      then show ?thesis using c False fresh [of c] stacks [of "Reader c"] by auto
    qed
  qed
  have 2: "sy_stacks ?s (Writer c) = [] \<and> sy_stacks ?s (Reader c) = []" if "sy_nextConn ?s \<le> c" for c
  proof -
    have c: "sy_nextConn s \<le> c" "\<not> c < sy_nextConn s'" using that conns by simp_all
    then show ?thesis using g_old [of c] fresh [of c] stacks [of "Writer c"] stacks [of "Reader c"] by auto
  qed
  have 3: "releases (sy_stacks ?s h)" if h: "sy_holder ?s = Some h" for h
  proof (cases "sy_holder s = Some h")
    case True
    show ?thesis
    proof (cases "h = g")
      case g: True
      have "a \<noteq> Unlock" using perf h by auto
      then show ?thesis
        using perform_releases(1) [OF _ _ perf, of rest] held [OF True] stack g by simp
    next
      case False
      have "sy_stacks s h \<noteq> []" using held [OF True] by auto
      then have "sy_stacks s' h = sy_stacks s h" using stacks [of h] fresh run_g by auto
      then show ?thesis using False held [OF True] by simp
    qed
  next
    case False
    then have "h = g" "releases new" using h holder by auto
    then show ?thesis by (simp add: releases_append)
  qed
  have 4: "waitsFor r (sy_req ?s r) (sy_stacks ?s (Caller r))"
    if "r < sy_nextReq ?s" "rq_result (sy_req ?s r) = None" for r
  proof -
    note same = step_answers [OF once stack perf perform_stacks [OF perf], of r]
    have r: "r < sy_nextReq s" "rq_result (sy_req s r) = None"
      using that perform_nextReq [OF perf] same(2) by (simp, cases "rq_result (sy_req s r)") auto
    show ?thesis
    proof (cases "g = Caller r")
      case True
      then show ?thesis
        using perform_waits [OF _ accountedD(1) [OF acc] r(2) perf, of rest] waits [OF r] stack that by auto
    next
      case False
      then have "sy_stacks ?s (Caller r) = sy_stacks s (Caller r)" using stacks [of "Caller r"] by auto
      then show ?thesis
        using waitsFor_done [OF waits [OF r], of "sy_req s' r"] same(1) by (simp add: sameCommand_def del: spawn_simps(1))
    qed
  qed
  have 5: "sy_stacks ?s (Caller r) = []" if "sy_nextReq ?s \<le> r" for r
    using that idle [of r] stack stacks [of "Caller r"] perform_nextReq [OF perf] by auto
  show ?thesis using 1 2 3 4 5 unfolding progressing_def by blast
qed

lemma progressing_occur:
  assumes pr: "progressing s" and acc: "accounted s" and once: "answersOnce s"
  shows "progressing (occur cfg e s)"
proof (cases e)
  case (Begin payload stop deadline now)
  let ?r = "sy_nextReq s"
  let ?s = "beginExchange cfg payload stop deadline now s"
  have fields: "sy_stacks ?s = (sy_stacks s)(Caller ?r := [Enqueue ?r])" "sy_nextReq ?s = Suc ?r"
    "sy_holder ?s = sy_holder s" "sy_nextConn ?s = sy_nextConn s"
    "x \<noteq> ?r \<Longrightarrow> sy_req ?s x = sy_req s x" for x
    by (simp_all add: beginExchange_def Let_def)
  have "sy_stacks s (Caller ?r) = []" using pr unfolding progressing_def by blast
  then have "sy_holder s \<noteq> Some (Caller ?r)" using pr unfolding progressing_def by force
  then show ?thesis
    using pr unfolding Begin occur.simps progressing_def fields
    by (auto simp: fields waitsFor_def less_Suc_eq)
next
  case CloseClient
  have "sy_stacks s Closer = [] \<Longrightarrow> sy_holder s \<noteq> Some Closer" using pr unfolding progressing_def by force
  then show ?thesis
    using pr unfolding CloseClient progressing_def by auto
next
  case (Step g inp)
  show ?thesis
  proof (cases "sy_panicked s \<or> sy_stacks s g = []")
    case True
    then show ?thesis using pr by (auto simp: Step step_def split: list.split)
  next
    case False
    then obtain a rest where stack: "sy_stacks s g = a # rest" by (meson list.exhaust)
    show ?thesis
    proof (cases "perform cfg g inp a s")
      case None
      then show ?thesis using pr by (simp add: Step step_def stack)
    next
      case (Some out)
      obtain new s' where out: "out = (new, s')" by fastforce
      show ?thesis
        using progressing_step [OF pr acc once stack Some [unfolded out]] False Some
        by (simp add: Step step_def stack out)
    qed
  qed
qed

lemma reachable_progressing: "reachable cfg s \<Longrightarrow> progressing s"
proof (induction rule: reachable.induct)
  case reachable_init
  show ?case by (simp add: progressing_def initSys_def)
next
  case (reachable_step s e)
  then show ?case
    using reachable_invariants [OF reachable_step(1)] reachable_answersOnce [OF reachable_step(1)]
    by (blast intro: progressing_occur)
qed

section \<open>A call whose context has ended returns\<close>

definition calmInput :: input where
  "calmInput = \<lparr>in_now = 0, in_dial = None, in_write = [], in_bytes = [], in_err = NetEOF, in_ctx = None\<rparr>"

definition endedInput :: "ctxEnd \<Rightarrow> input" where
  "endedInput e = calmInput\<lparr>in_ctx := Some e\<rparr>"

text \<open>The steps with which the holder of the mutex gets to release it, at most \<open>n\<close> of them.\<close>

fun releasing :: "('d, 'v) config \<Rightarrow> nat \<Rightarrow> sys \<Rightarrow> event list" where
  "releasing cfg 0 s = []"
| "releasing cfg (Suc n) s =
     (case sy_holder s of
        None \<Rightarrow> []
      | Some g \<Rightarrow> Step g calmInput # releasing cfg n (occur cfg (Step g calmInput) s))"

definition releaseFuel :: "sys \<Rightarrow> nat" where
  "releaseFuel s = (case sy_holder s of None \<Rightarrow> 0 | Some g \<Rightarrow> unlockSteps (sy_stacks s g))"

definition endCall :: "('d, 'v) config \<Rightarrow> nat \<Rightarrow> ctxEnd \<Rightarrow> sys \<Rightarrow> event list" where
  "endCall cfg r e s =
     releasing cfg (releaseFuel s) s @ replicate 5 (Step (Caller r) (endedInput e))"

lemma step_stack:
  assumes "\<not> sy_panicked s" and "sy_stacks s g = a # rest" and "perform cfg g inp a s = Some (new, s')"
  shows "occur cfg (Step g inp) s = spawn g (new @ rest) s'"
  using assms by (simp add: step_def)

lemma holder_step:
  fixes cfg :: "('d, 'v) config"
  assumes pr: "progressing s" and np: "\<not> sy_panicked s" and holder: "sy_holder s = Some g"
  defines "s' \<equiv> occur cfg (Step g calmInput) s"
  shows "\<not> sy_panicked s' \<and> (sy_holder s' = None \<or>
     sy_holder s' = Some g \<and> unlockSteps (sy_stacks s' g) < unlockSteps (sy_stacks s g))"
proof -
  have rel: "releases (sy_stacks s g)" using pr holder unfolding progressing_def by blast
  then obtain a rest where stack: "sy_stacks s g = a # rest" by (cases "sy_stacks s g") auto
  consider (unlock) "a = Unlock" | (add) r c where "a = Add r c" | (rehome) rs cause rq where "a = Rehome rs cause rq"
    using rel stack by (cases a) auto
  then show ?thesis
  proof cases
    case unlock
    then show ?thesis using np unfolding s'_def by (simp add: step_def stack)
  next
    case add
    have "perform cfg g calmInput a s = Some ([], add r c s)" by (simp add: add)
    from step_stack [OF np stack this] show ?thesis
      using np holder stack unfolding s'_def by (simp add: add add_def)
  next
    case rehome
    obtain new s1 where out: "rehome cfg (in_now calmInput) rs cause rq s = (new, s1)" by fastforce
    then have perf: "perform cfg g calmInput a s = Some (new, s1)" by (simp add: rehome)
    have "\<not> sy_panicked s1 \<and> sy_holder s1 = sy_holder s"
      using out np by (cases rs) (auto split: if_splits prod.splits dest!: snd_of)
    then show ?thesis
      using perform_releases(2) [OF _ _ perf, of rest] rel stack holder rehome
      unfolding s'_def step_stack [OF np stack perf] by simp
  qed
qed

lemma unlockSteps_pos: "0 < unlockSteps as"
  by (induction as rule: unlockSteps.induct) simp_all

lemma releasing_frees:
  assumes "reachable cfg s" and "\<not> sy_panicked s" and "releaseFuel s \<le> n"
  shows "sy_holder (occurs cfg (releasing cfg n s) s) = None \<and> \<not> sy_panicked (occurs cfg (releasing cfg n s) s)"
  using assms
proof (induction n arbitrary: s)
  case 0
  have "sy_holder s = None"
  proof (cases "sy_holder s")
    case (Some g)
    have "0 < unlockSteps (sy_stacks s g)" by (rule unlockSteps_pos)
    then show ?thesis using 0(3) Some by (simp add: releaseFuel_def)
  qed simp
  then show ?case using 0 by simp
next
  case (Suc n)
  show ?case
  proof (cases "sy_holder s")
    case None
    then show ?thesis using Suc.prems by simp
  next
    case (Some g)
    let ?s = "occur cfg (Step g calmInput) s"
    have pr: "progressing s" by (rule reachable_progressing [OF Suc.prems(1)])
    have "\<not> sy_panicked ?s" and "releaseFuel ?s \<le> n"
      using holder_step [OF pr Suc.prems(2) Some, of cfg] Suc.prems(3) Some by (auto simp: releaseFuel_def)
    with Suc.IH [of ?s] reachable_step [OF Suc.prems(1), of "Step g calmInput"] Some show ?thesis by simp
  qed
qed

text \<open>How far a caller is from its answer.\<close>

fun rank :: "action list \<Rightarrow> nat" where
  "rank (Enqueue r # as) = 5"
| "rank (Add r c # as) = 4"
| "rank (Unlock # as) = 3"
| "rank (Await r # as) = 2"
| "rank _ = 1"

definition nearly :: "nat \<Rightarrow> nat \<Rightarrow> sys \<Rightarrow> bool" where
  "nearly r k s \<longleftrightarrow> rq_result (sy_req s r) \<noteq> None \<or>
     rank (sy_stacks s (Caller r)) \<le> k \<and> (sy_stacks s (Caller r) = [Enqueue r] \<longrightarrow> sy_holder s = None)"

lemma caller_step:
  fixes e :: ctxEnd
  assumes reach: "reachable cfg s" and np: "\<not> sy_panicked s" and r: "r < sy_nextReq s" and near: "nearly r (Suc k) s"
  defines "s' \<equiv> occur cfg (Step (Caller r) (endedInput e)) s"
  shows "nearly r k s' \<and> (rq_result (sy_req s' r) = None \<longrightarrow> \<not> sy_panicked s')"
proof (cases "rq_result (sy_req s r)")
  case (Some out)
  then show ?thesis
    using occur_answers(2) [OF reachable_answersOnce [OF reach] r, of cfg "Step (Caller r) (endedInput e)"]
    by (simp add: nearly_def commandKept_def s'_def)
next
  case None
  have ctx: "in_ctx (endedInput e) = Some e" by (simp add: endedInput_def calmInput_def)
  have ok: "ok_req (sy_req s r)" using reachable_invariants [OF reach] by (auto intro: accountedD)
  have "waitsFor r (sy_req s r) (sy_stacks s (Caller r))"
    using reachable_progressing [OF reach] r None unfolding progressing_def by blast
  then consider (enq) "sy_stacks s (Caller r) = [Enqueue r]"
    | (add) c where "sy_stacks s (Caller r) = [Add r c, Unlock, Await r]"
    | (unlock) "sy_stacks s (Caller r) = [Unlock, Await r]" | (await) "sy_stacks s (Caller r) = [Await r]"
    | (join) "sy_stacks s (Caller r) = [Join r]" "rq_done (sy_req s r)"
    by (auto simp: waitsFor_def)
  then show ?thesis
  proof cases
    case enq
    then have holder: "sy_holder s = None" and k: "4 \<le> k" using near None by (auto simp: nearly_def)
    obtain c s1 where pick: "pickLocked cfg (in_now (endedInput e)) s = (c, s1)" by fastforce
    then have "\<not> sy_panicked s1"
      using np pickLocked_frame(5) [of cfg "in_now (endedInput e)" s] by simp
    then show ?thesis
      using np holder enq pick k unfolding s'_def by (auto simp: step_def enqueue_def nearly_def)
  next
    case add
    then show ?thesis using np near None unfolding s'_def by (auto simp: step_def nearly_def Transport.add_def)
  next
    case unlock
    then show ?thesis using np near None unfolding s'_def by (auto simp: step_def nearly_def)
  next
    case await
    then show ?thesis
      using np near None ctx unfolding s'_def
      by (cases "rq_state (sy_req s r)")
        (auto simp: step_def nearly_def await_def giveUp_def Let_def split: option.split)
  next
    case join
    then show ?thesis unfolding s'_def using np by (auto simp: step_def nearly_def join_def resultOf_def)
  qed
qed

lemma caller_steps:
  assumes "reachable cfg s" and "rq_result (sy_req s r) = None \<Longrightarrow> \<not> sy_panicked s" and "r < sy_nextReq s"
    and "nearly r k s"
  shows "nearly r 0 (occurs cfg (replicate k (Step (Caller r) (endedInput e))) s)"
  using assms
proof (induction k arbitrary: s)
  case (Suc k)
  let ?s = "occur cfg (Step (Caller r) (endedInput e)) s"
  note once = occur_answers [OF reachable_answersOnce [OF Suc.prems(1)], where cfg = cfg and e = "Step (Caller r) (endedInput e)"]
  have r: "r < sy_nextReq ?s" using once(3) Suc.prems(3) by (rule order.strict_trans2 [rotated])
  have "nearly r k ?s \<and> (rq_result (sy_req ?s r) = None \<longrightarrow> \<not> sy_panicked ?s)"
  proof (cases "rq_result (sy_req s r)")
    case None
    then show ?thesis using caller_step [OF Suc.prems(1) Suc.prems(2) Suc.prems(3,4)] by blast
  next
    case (Some out)
    then show ?thesis using once(2) [OF Suc.prems(3)] by (simp add: nearly_def commandKept_def)
  qed
  then show ?case using Suc.IH [of ?s] r reachable_step [OF Suc.prems(1), of "Step (Caller r) (endedInput e)"]
    by simp
qed simp

lemma rank_bounds: "1 \<le> rank as \<and> rank as \<le> 5"
  by (cases as rule: rank.cases) simp_all

lemma occurs_answers:
  assumes "reachable cfg s"
  shows "r < sy_nextReq s \<Longrightarrow> commandKept s (occurs cfg es s) r \<and> r < sy_nextReq (occurs cfg es s)"
  using assms
proof (induction es arbitrary: s)
  case (Cons e es)
  note once = occur_answers [OF reachable_answersOnce [OF Cons.prems(2)], where cfg = cfg and e = e]
  have "r < sy_nextReq (occur cfg e s)" using once(3) Cons.prems(1) by (rule order.strict_trans2 [rotated])
  then show ?case
    using Cons.IH [of "occur cfg e s"] once(2) [OF Cons.prems(1)] reachable_step [OF Cons.prems(2)]
    by (auto intro: commandKept_trans)
qed simp

lemma endCall_returns:
  assumes "reachable cfg s" and "\<not> sy_panicked s" and "r < sy_nextReq s"
  shows "rq_result (sy_req (occurs cfg (endCall cfg r e s) s) r) \<noteq> None"
proof -
  let ?s = "occurs cfg (releasing cfg (releaseFuel s) s) s"
  have free: "sy_holder ?s = None" "\<not> sy_panicked ?s" using releasing_frees [OF assms(1,2)] by simp_all
  have "nearly r 5 ?s" using rank_bounds free by (simp add: nearly_def)
  then have "nearly r 0 (occurs cfg (endCall cfg r e s) s)"
    using caller_steps [OF reachable_occurs [OF assms(1)] free(2), where r = r and k = 5 and e = e]
      occurs_answers [OF assms(1,3)] by (simp add: endCall_def)
  then show ?thesis
    using rank_bounds [of "sy_stacks (occurs cfg (endCall cfg r e s) s) (Caller r)"] by (simp add: nearly_def)
qed

end
