(* ===== verification/Exchange.thy ===== *)
theory Exchange
  imports Calls
begin

text \<open>
  \<open>serverPool.exchange\<close> as the client calls it. The pools of a client are what has happened to
  them: a history of events each, from the empty pool. A call begins a request, lets the
  events scheduled for it happen (the steps of every goroutine, other callers, a close) and,
  should they not settle it, ends the caller's context. It fulfils the contract the protocol
  layer was proved from, so what was shown of the client over any \<open>exchanger\<close> holds over
  this transport.
\<close>

section \<open>Pools behind a client\<close>

definition honestStep :: "('d, 'v) config \<Rightarrow> event \<Rightarrow> sys \<Rightarrow> sys" where
  "honestStep cfg e s = (if answersUnasked cfg e s then s else occur cfg e s)"

definition honestRun :: "('d, 'v) config \<Rightarrow> event list \<Rightarrow> sys \<Rightarrow> sys" where
  "honestRun cfg es s = fold (honestStep cfg) es s"

text \<open>
  Per server, its history; what is scheduled for the coming calls; and of every context
  whether it has already ended, its deadline, and how it ends when nothing else happens.
\<close>

record net =
  nt_history :: "nat \<Rightarrow> event list"
  nt_script :: "event list list"
  nt_ctxErr :: "ctx \<Rightarrow> ctxEnd option"
  nt_deadline :: "ctx \<Rightarrow> int option"
  nt_end :: "ctx \<Rightarrow> ctxEnd"
  nt_now :: int

definition poolOf :: "('d, 'v) config \<Rightarrow> net \<Rightarrow> nat \<Rightarrow> sys" where
  "poolOf cfg n i = honestRun cfg (nt_history n i) initSys"

definition serverExchange :: "('d, 'v) config \<Rightarrow> net exchange" where
  "serverExchange cfg ctx i payload stop n =
     (case nt_ctxErr n ctx of
        Some e \<Rightarrow> (([], 0, Some (ctxErr e)), n)
      | None \<Rightarrow>
          let s = poolOf cfg n i;
              r = sy_nextReq s;
              es = Begin payload stop (nt_deadline n ctx) (nt_now n) #
                     (case nt_script n of [] \<Rightarrow> [] | scheduled # _ \<Rightarrow> scheduled);
              s1 = honestRun cfg es s;
              fs = (if rq_result (sy_req s1 r) = None then endCall cfg r (nt_end n ctx) s1 else []);
              s2 = honestRun cfg fs s1
          in (the (rq_result (sy_req s2 r)),
              n\<lparr>nt_history := (nt_history n)(i := nt_history n i @ es @ fs), nt_script := tl (nt_script n)\<rparr>))"

text \<open>The environment of the protocol layer with this transport in it.\<close>

definition transportEnv :: "('d, 'v) config \<Rightarrow> net env" where
  "transportEnv cfg = \<lparr>env_exchange = serverExchange cfg,
     env_ctx_err = (\<lambda>ctx n. map_option ctxErr (nt_ctxErr n ctx)), env_now = nt_now\<rparr>"

text \<open>
  \<open>Client.Close\<close>: every pool is closed, once. Canceling the root context makes the contexts
  derived from it end and the dials fail, which are inputs of later steps.
\<close>

definition Client_Close :: "('d, 'v) Client \<Rightarrow> net \<Rightarrow> net" where
  "Client_Close c n = n\<lparr>nt_history := (\<lambda>i. if i < length (cl_servers c)
     then nt_history n i @ [CloseClient] else nt_history n i)\<rparr>"

section \<open>Runs\<close>

lemma honestRun_simps [simp]:
  "honestRun cfg [] s = s" "honestRun cfg (e # es) s = honestRun cfg es (honestStep cfg e s)"
  "honestRun cfg (es @ fs) s = honestRun cfg fs (honestRun cfg es s)"
  by (simp_all add: honestRun_def)

lemma honestly_honestStep: "honestly cfg s \<Longrightarrow> honestly cfg (honestStep cfg e s)"
  by (simp add: honestStep_def honestly_step)

lemma honestly_honestRun: "honestly cfg s \<Longrightarrow> honestly cfg (honestRun cfg es s)"
  by (induction es arbitrary: s) (simp_all add: honestly_honestStep)

lemma honestly_poolOf: "honestly cfg (poolOf cfg n i)"
  by (simp add: poolOf_def honestly_honestRun honestly_init)

lemma honestRun_kept:
  assumes "honestly cfg s" and "r < sy_nextReq s"
  shows "commandKept s (honestRun cfg es s) r \<and> r < sy_nextReq (honestRun cfg es s)"
  using assms
proof (induction es arbitrary: s)
  case (Cons e es)
  let ?s = "honestStep cfg e s"
  have once: "answersOnce s" by (rule reachable_answersOnce [OF honestly_reachable [OF Cons.prems(1)]])
  have "commandKept s ?s r" and "sy_nextReq s \<le> sy_nextReq ?s"
    using occur_answers(2,3) [OF once, where cfg = cfg and e = e] Cons.prems(2) by (auto simp: honestStep_def)
  with Cons.IH [OF honestly_honestStep [OF Cons.prems(1)]] Cons.prems(2) show ?case
    by (auto intro: commandKept_trans)
qed simp

text \<open>The end of a call is not touched by the server's honesty: no response is read in it.\<close>

lemma replicate_honest: "honestRun cfg (replicate k (Step (Caller r) inp)) s = occurs cfg (replicate k (Step (Caller r) inp)) s"
  by (induction k arbitrary: s) (simp_all add: honestStep_def answersUnasked_def)

lemma releasing_honest:
  "reachable cfg s \<Longrightarrow> honestRun cfg (releasing cfg n s) s = occurs cfg (releasing cfg n s) s"
proof (induction n arbitrary: s)
  case (Suc n)
  show ?case
  proof (cases "sy_holder s")
    case (Some g)
    have "releases (sy_stacks s g)"
      using reachable_progressing [OF Suc.prems] Some unfolding progressing_def by blast
    then have "\<not> answersUnasked cfg (Step g calmInput) s"
      by (cases g; cases "sy_stacks s g" rule: releases.cases) (auto simp: answersUnasked_def)
    with Suc.IH [OF reachable_step [OF Suc.prems, of "Step g calmInput"]] Some show ?thesis
      by (simp add: honestStep_def)
  qed simp
qed simp

lemma endCall_honest:
  "reachable cfg s \<Longrightarrow> honestRun cfg (endCall cfg r e s) s = occurs cfg (endCall cfg r e s) s"
  by (simp add: endCall_def replicate_honest releasing_honest)

section \<open>What an exchange gives back\<close>

text \<open>
  The request of the call stands in the pool with the caller's command, and its recorded
  result is what the call returned.
\<close>

lemma serverExchange_pool:
  assumes call: "serverExchange cfg ctx i payload stop n = (out, n')" and ctx: "nt_ctxErr n ctx = None"
  defines "r \<equiv> sy_nextReq (poolOf cfg n i)"
  shows "rq_result (sy_req (poolOf cfg n' i) r) = Some out"
    and "rq_payload (sy_req (poolOf cfg n' i) r) = payload" and "rq_stop (sy_req (poolOf cfg n' i) r) = stop"
    and "r < sy_nextReq (poolOf cfg n' i)"
proof -
  let ?s = "poolOf cfg n i"
  let ?b = "Begin payload stop (nt_deadline n ctx) (nt_now n)"
  let ?tl = "case nt_script n of [] \<Rightarrow> [] | scheduled # _ \<Rightarrow> scheduled"
  let ?sb = "honestStep cfg ?b ?s"
  let ?s1 = "honestRun cfg ?tl ?sb"
  let ?fs = "if rq_result (sy_req ?s1 r) = None then endCall cfg r (nt_end n ctx) ?s1 else []"
  let ?s2 = "honestRun cfg ?fs ?s1"
  have hb: "honestly cfg ?sb" and h1: "honestly cfg ?s1"
    by (simp_all add: honestly_honestStep honestly_honestRun honestly_poolOf)
  have begun: "sy_req ?sb r = newRequest payload stop (exchangeDeadline cfg (nt_now n) (nt_deadline n ctx))"
    "r < sy_nextReq ?sb"
    by (simp_all add: honestStep_def answersUnasked_def beginExchange_def Let_def r_def)
  have out: "out = the (rq_result (sy_req ?s2 r))" and n': "poolOf cfg n' i = ?s2"
    using call ctx by (auto simp: serverExchange_def Let_def poolOf_def r_def simp del: honestRun_simps(2))
      (simp_all add: poolOf_def r_def)
  have kept1: "commandKept ?sb ?s1 r" "r < sy_nextReq ?s1" using honestRun_kept [OF hb begun(2)] by blast+
  have kept2: "commandKept ?s1 ?s2 r" "r < sy_nextReq ?s2" using honestRun_kept [OF h1 kept1(2)] by blast+
  have np: "\<not> sy_panicked ?s1" using honestly_matched [OF h1] by (simp add: matched_def)
  have "rq_result (sy_req ?s2 r) \<noteq> None"
  proof (cases "rq_result (sy_req ?s1 r)")
    case None
    then show ?thesis
      using endCall_returns [OF honestly_reachable [OF h1] np kept1(2)]
      by (simp add: endCall_honest [OF honestly_reachable [OF h1]])
  next
    case (Some x)
    then show ?thesis using kept2(1) by (simp add: commandKept_def)
  qed
  then obtain x where "rq_result (sy_req ?s2 r) = Some x" by blast
  then show "rq_result (sy_req (poolOf cfg n' i) r) = Some out" unfolding n' out by (simp only: option.sel)
  have "commandKept ?sb ?s2 r" using kept1(1) kept2(1) by (rule commandKept_trans)
  then show "rq_payload (sy_req (poolOf cfg n' i) r) = payload" and "rq_stop (sy_req (poolOf cfg n' i) r) = stop"
    unfolding n' commandKept_def sameCommand_def begun(1) by (simp_all add: newRequest_def)
  show "r < sy_nextReq (poolOf cfg n' i)" using kept2(2) by (simp only: n')
qed

text \<open>
  The contract of \<open>exchanger\<close>: the pool promises what the protocol layer relies on, whatever
  its goroutines, its callers and the network do, as long as the server answers only what
  it was sent.
\<close>

lemma serverExchange_recorded:
  assumes call: "serverExchange cfg ctx i payload stop n = ((rs, written, err), n')"
  shows "written \<le> length payload" and "plainOpt err" and "list_all deliverable rs"
    and "err = None \<Longrightarrow> streamOf stop rs \<and> written = length payload"
proof -
  have "written \<le> length payload \<and> plainOpt err \<and> list_all deliverable rs \<and>
    (err = None \<longrightarrow> streamOf stop rs \<and> written = length payload)"
  proof (cases "nt_ctxErr n ctx")
    case None
    let ?p = "poolOf cfg n' i" and ?r = "sy_nextReq (poolOf cfg n i)"
    note pool = serverExchange_pool [OF call None]
    have h: "honestly cfg ?p" by (rule honestly_poolOf)
    have "ok_req (sy_req ?p ?r)"
      using reachable_invariants [OF honestly_reachable [OF h]] accountedD(1) by blast
    moreover have "settledWell (sy_req ?p ?r)"
      using honestly_matched [OF h] unfolding matched_def answered_def by blast
    ultimately show ?thesis
      using pool(1-3) unfolding ok_req_def settledWell_def ok_result_def payload_len_def by auto
  next
    case (Some e)
    with call show ?thesis by (auto simp: serverExchange_def)
  qed
  then show "written \<le> length payload" and "plainOpt err" and "list_all deliverable rs"
    and "err = None \<Longrightarrow> streamOf stop rs \<and> written = length payload"
    by blast+
qed

text \<open>The request of a failed call, in every later state of its pool.\<close>

lemma serverExchange_later:
  assumes call: "serverExchange cfg ctx i payload stop n = ((rs, written, err), n')" and ctx: "nt_ctxErr n ctx = None"
  defines "r \<equiv> sy_nextReq (poolOf cfg n i)" and "later es \<equiv> honestRun cfg es (poolOf cfg n' i)"
  shows "rq_payload (sy_req (later es) r) = payload \<and> rq_result (sy_req (later es) r) = Some (rs, written, err) \<and>
    rq_sent (sy_req (later es) r) \<le> written"
proof -
  note pool = serverExchange_pool [OF call ctx, folded r_def]
  have h: "honestly cfg (later es)" by (simp add: later_def honestly_honestRun honestly_poolOf)
  have "commandKept (poolOf cfg n' i) (later es) r"
    unfolding later_def using honestRun_kept [OF honestly_poolOf pool(4)] by blast
  with pool(1,2) have kept: "rq_payload (sy_req (later es) r) = payload"
      "rq_result (sy_req (later es) r) = Some (rs, written, err)"
    by (simp_all add: commandKept_def sameCommand_def)
  have "ok_req (sy_req (later es) r)"
    using reachable_invariants [OF honestly_reachable [OF h]] accountedD(1) by blast
  then show ?thesis using kept by (simp add: ok_req_def ok_result_def)
qed

interpretation transport: exchanger "serverExchange cfg" for cfg :: "('d, 'v) config"
proof
  fix ctx i payload stop n n' rs written
  assume call: "serverExchange cfg ctx i payload stop n = ((rs, written, None), n')"
  from serverExchange_recorded(4) [OF call refl]
  show "rs \<noteq> [] \<and> stop (last rs) \<and> list_all (\<lambda>r. \<not> stop r) (butlast rs) \<and> written = length payload"
    by (simp add: streamOf_def)
next
  fix ctx i payload stop n n' rs written err
  assume call: "serverExchange cfg ctx i payload stop n = ((rs, written, err), n')"
  show "written \<le> length payload" and "list_all deliverable rs"
    by (fact serverExchange_recorded [OF call])+
next
  fix ctx i payload stop n n' rs written e
  assume call: "serverExchange cfg ctx i payload stop n = ((rs, written, Some e), n')"
  show "plainError e" using serverExchange_recorded(2) [OF call] by simp
qed

end
