(* ===== verification/Pool.thy ===== *)
theory Pool
  imports Calls
begin

text \<open>
  The pool itself: which connection a request is given, how many connections there are, what
  holding the mutex means, and what closing the pool does to the calls that come after.
\<close>

section \<open>Picking a connection\<close>

definition load :: "muxConn \<Rightarrow> nat" where
  "load k = length (cn_pending k) + length (cn_inflight k)"

definition reusable :: "('d, 'v) config \<Rightarrow> int \<Rightarrow> muxConn \<Rightarrow> bool" where
  "reusable cfg now k \<longleftrightarrow> \<not> cn_closed k \<and>
     \<not> (load k = 0 \<and> cfg_idleTimeout cfg > 0 \<and> now - cn_lastActive k > cfg_idleTimeout cfg)"

text \<open>The reference: the first connection that no other undercuts.\<close>

definition leastLoaded :: "('a \<Rightarrow> nat) \<Rightarrow> 'a list \<Rightarrow> 'a option" where
  "leastLoaded f cs = List.find (\<lambda>c. \<forall>d \<in> set cs. f c \<le> f d) cs"

definition lighter :: "('a \<Rightarrow> nat) \<Rightarrow> ('a \<times> nat) option \<Rightarrow> 'a \<Rightarrow> ('a \<times> nat) option" where
  "lighter f best c = (case best of None \<Rightarrow> Some (c, f c)
     | Some (b, bestLoad) \<Rightarrow> if f c < bestLoad then Some (c, f c) else best)"

lemma leastLoaded_None: "leastLoaded f cs = None \<longleftrightarrow> cs = []"
proof (cases "cs = []")
  case False
  then have "Min (f ` set cs) \<in> f ` set cs" by (intro Min_in) simp_all
  then obtain c where "c \<in> set cs" "Min (f ` set cs) = f c" by blast
  then have "\<forall>d \<in> set cs. f c \<le> f d" by (metis List.finite_set Min_le finite_imageI imageI)
  with \<open>c \<in> set cs\<close> False show ?thesis by (auto simp: leastLoaded_def find_None_iff)
qed (simp add: leastLoaded_def)

lemma find_append: "List.find P (xs @ ys) = (case List.find P xs of None \<Rightarrow> List.find P ys | Some x \<Rightarrow> Some x)"
  by (induction xs) simp_all

lemma find_weaker:
  "List.find P xs = Some x \<Longrightarrow> (\<And>y. y \<in> set xs \<Longrightarrow> Q y \<longleftrightarrow> P y) \<Longrightarrow> List.find Q xs = Some x"
  by (induction xs) (auto split: if_splits)

lemma leastLoaded_snoc:
  "map_option (\<lambda>c. (c, f c)) (leastLoaded f (cs @ [c])) =
     lighter f (map_option (\<lambda>c. (c, f c)) (leastLoaded f cs)) c"
proof (cases "leastLoaded f cs")
  case None
  then show ?thesis by (simp add: leastLoaded_None lighter_def) (simp add: leastLoaded_def)
next
  case (Some b)
  then have b: "b \<in> set cs" "\<forall>d \<in> set cs. f b \<le> f d" by (auto simp: leastLoaded_def find_Some_iff)
  show ?thesis
  proof (cases "f c < f b")
    case True
    then have "\<forall>d \<in> set cs. \<not> f d \<le> f c" using b by (auto dest: bspec)
    then have "List.find (\<lambda>c'. \<forall>d \<in> set (cs @ [c]). f c' \<le> f d) cs = None" by (auto simp: find_None_iff)
    moreover have "\<forall>d \<in> set cs. f c \<le> f d" using True b by (meson less_or_eq_imp_le order.trans)
    ultimately show ?thesis using True Some by (simp add: leastLoaded_def find_append lighter_def)
  next
    case False
    have "(\<forall>d \<in> set (cs @ [c]). f y \<le> f d) \<longleftrightarrow> (\<forall>d \<in> set cs. f y \<le> f d)" if "y \<in> set cs" for y
      using False b(1) by (auto dest: bspec [of _ _ b])
    then have "leastLoaded f (cs @ [c]) = Some b"
      using Some find_weaker [of "\<lambda>c. \<forall>d \<in> set cs. f c \<le> f d" cs b] by (simp add: leastLoaded_def find_append)
    then show ?thesis using False Some by (simp add: lighter_def)
  qed
qed

lemma lighter_fold: "foldl (lighter f) None cs = map_option (\<lambda>c. (c, f c)) (leastLoaded f cs)"
  by (induction cs rule: rev_induct) (simp_all add: leastLoaded_snoc, simp add: leastLoaded_def)

lemma load_retire [simp]: "load (retire k) = load k"
  by (simp add: load_def retire_def)

lemma reusable_retire [simp]: "\<not> reusable cfg now (retire k)"
  by (simp add: reusable_def retire_def)

lemma pickScan_lists:
  "fst (pickScan cfg now cs (kept, best) s) =
     (kept @ filter (\<lambda>c. reusable cfg now (sy_conn s c)) cs,
      foldl (lighter (\<lambda>c. load (sy_conn s c))) best (filter (\<lambda>c. reusable cfg now (sy_conn s c)) cs))"
proof (induction cs arbitrary: kept best s)
  case (Cons c cs)
  let ?k = "sy_conn s c"
  have again: "filter (\<lambda>d. reusable cfg now (if d = c then retire ?k else sy_conn s d)) cs =
      filter (\<lambda>d. reusable cfg now (sy_conn s d)) cs" if "\<not> reusable cfg now ?k"
    using that by (intro filter_cong) auto
  have loads: "(\<lambda>d. load (if d = c then retire ?k else sy_conn s d)) = (\<lambda>d. load (sy_conn s d))"
    by (auto simp: fun_eq_iff)
  consider (closed) "cn_closed ?k" | (idle) "\<not> cn_closed ?k" "\<not> reusable cfg now ?k" | (live) "reusable cfg now ?k"
    by blast
  then show ?case
  proof cases
    case closed
    then show ?thesis by (simp add: Cons status_def reusable_def)
  next
    case idle
    then have "load ?k = 0 \<and> cfg_idleTimeout cfg > 0 \<and> now - cn_lastActive ?k > cfg_idleTimeout cfg"
      by (simp add: reusable_def)
    with idle show ?thesis by (simp add: Cons status_def load_def [symmetric] again loads)
  next
    case live
    then have "\<not> cn_closed ?k"
      and "(load ?k = 0 \<and> cfg_idleTimeout cfg > 0 \<and> now - cn_lastActive ?k > cfg_idleTimeout cfg) = False"
      unfolding reusable_def by blast+
    with live show ?thesis
      by (simp only: pickScan.simps status_def prod.case load_def [symmetric] if_False Cons filter.simps if_True
          foldl.simps lighter_def append_assoc append.simps)
  qed
qed simp

lemma pickScan_conns:
  "sy_conn (snd (pickScan cfg now cs acc s)) d =
     (if d \<in> set cs \<and> \<not> cn_closed (sy_conn s d) \<and> \<not> reusable cfg now (sy_conn s d)
      then retire (sy_conn s d) else sy_conn s d)"
proof (induction cs arbitrary: acc s)
  case (Cons c cs)
  let ?k = "sy_conn s c"
  obtain kept best where acc: "acc = (kept, best)" by fastforce
  consider (closed) "cn_closed ?k"
    | (idle) "\<not> cn_closed ?k" "load ?k = 0 \<and> cfg_idleTimeout cfg > 0 \<and> now - cn_lastActive ?k > cfg_idleTimeout cfg"
    | (live) "\<not> cn_closed ?k"
      "(load ?k = 0 \<and> cfg_idleTimeout cfg > 0 \<and> now - cn_lastActive ?k > cfg_idleTimeout cfg) = False"
    by blast
  then show ?case
  proof cases
    case closed
    then show ?thesis using Cons [of "(kept, best)" s] by (cases "d = c") (simp_all add: acc status_def)
  next
    case idle
    then have gone: "\<not> reusable cfg now ?k" by (simp add: reusable_def)
    have "cn_closed (retire ?k)" by (simp add: retire_def)
    with idle gone Cons [of "(kept, best)" "upd_conn c retire s"] show ?thesis
      by (cases "d = c") (simp_all add: acc status_def load_def [symmetric])
  next
    case live
    then have kept: "reusable cfg now ?k" by (simp add: reusable_def)
    show ?thesis
      unfolding acc pickScan.simps status_def prod.case load_def [symmetric] live(2) if_False if_not_P [OF live(1)] Cons
      using live(1) kept by (cases "d = c") simp_all
  qed
qed simp

definition reusables :: "('d, 'v) config \<Rightarrow> int \<Rightarrow> sys \<Rightarrow> nat list" where
  "reusables cfg now s = filter (\<lambda>c. reusable cfg now (sy_conn s c)) (sy_conns s)"

definition loadOf :: "sys \<Rightarrow> nat \<Rightarrow> nat" where
  "loadOf s c = load (sy_conn s c)"

text \<open>
  Whether a new connection is dialed: when there is none to reuse, or when all of them have
  commands outstanding and the cap allows one more.
\<close>

definition dials :: "('d, 'v) config \<Rightarrow> int \<Rightarrow> sys \<Rightarrow> bool" where
  "dials cfg now s \<longleftrightarrow> (\<forall>c \<in> set (reusables cfg now s). 0 < loadOf s c) \<and>
     (reusables cfg now s = [] \<or> int (length (reusables cfg now s)) < cfg_maxConns cfg)"

lemma leastLoaded_positive:
  "leastLoaded f cs = Some b \<Longrightarrow> (\<forall>c \<in> set cs. 0 < f c) \<longleftrightarrow> 0 < f b"
  by (auto simp: leastLoaded_def find_Some_iff intro: order.strict_trans2)

lemma pickLocked_picks:
  "pickLocked cfg now s =
     (let s' = snd (pickScan cfg now (sy_conns s) ([], None) s) in
      if dials cfg now s
      then (sy_nextConn s, snd (newConn now s')\<lparr>sy_conns := reusables cfg now s @ [sy_nextConn s]\<rparr>)
      else (the (leastLoaded (loadOf s) (reusables cfg now s)), s'\<lparr>sy_conns := reusables cfg now s\<rparr>))"
proof -
  let ?live = "reusables cfg now s"
  let ?best = "map_option (\<lambda>c. (c, loadOf s c)) (leastLoaded (loadOf s) ?live)"
  have scan: "fst (pickScan cfg now (sy_conns s) ([], None) s) = (?live, ?best)"
    unfolding pickScan_lists by (simp add: lighter_fold loadOf_def [abs_def] reusables_def)
  obtain s' where s': "pickScan cfg now (sy_conns s) ([], None) s = ((?live, ?best), s')"
    using scan by (metis prod.collapse)
  have next_conn: "sy_nextConn s' = sy_nextConn s"
    using pickScan_frame(3) [of cfg now "sy_conns s" "([], None)" s] by (simp add: s')
  have dial: "dials cfg now s \<longleftrightarrow> (case ?best of None \<Rightarrow> True
      | Some (_, bestLoad) \<Rightarrow> bestLoad > 0 \<and> int (length ?live) < cfg_maxConns cfg)"
  proof (cases "leastLoaded (loadOf s) ?live")
    case None
    then show ?thesis using leastLoaded_None [of "loadOf s" ?live] by (simp add: dials_def)
  next
    case (Some b)
    then have "?live \<noteq> []" using leastLoaded_None [of "loadOf s" ?live] by auto
    then show ?thesis using leastLoaded_positive [OF Some] by (simp add: dials_def Some)
  qed
  show ?thesis
  proof (cases "dials cfg now s")
    case True
    then show ?thesis using dial by (simp add: pickLocked_def s' Let_def newConn_def next_conn)
  next
    case False
    then obtain b where best: "leastLoaded (loadOf s) ?live = Some b" using dial by fastforce
    with False dial have zero: "loadOf s b = 0 \<or> \<not> int (length ?live) < cfg_maxConns cfg" by simp
    with best False show ?thesis by (elim disjE) (simp_all add: pickLocked_def s' Let_def)
  qed
qed

section \<open>The mutex\<close>

text \<open>
  The calls made with the mutex held. At any time only its holder has such calls on its
  stack: first the rest of its critical section, then the unlocking, then calls outside.
\<close>

definition inside :: "action \<Rightarrow> bool" where
  "inside a \<longleftrightarrow> a = Unlock \<or> (\<exists>r c. a = Add r c) \<or> (\<exists>rs cause requeue. a = Rehome rs cause requeue)"

primrec critical :: "action list \<Rightarrow> bool" where
  "critical [] = False"
| "critical (a # as) = (if a = Unlock then list_all (\<lambda>a. \<not> inside a) as else inside a \<and> critical as)"

definition mutex :: "sys \<Rightarrow> bool" where
  "mutex s \<longleftrightarrow> (\<forall>g. if sy_holder s = Some g then critical (sy_stacks s g)
     else list_all (\<lambda>a. \<not> inside a) (sy_stacks s g))"

lemma inside_simps [simp]:
  "inside Unlock" "inside (Add r c)" "inside (Rehome rs cause rq)" "\<not> inside (Enqueue r)" "\<not> inside (Await r)"
  "\<not> inside (Join r)" "\<not> inside (Detach k rs cause rq)" "\<not> inside Close" "\<not> inside (Drain c)"
  "\<not> inside (SettleClosed rs)" "\<not> inside Run" "\<not> inside Wake" "\<not> inside Claim" "\<not> inside (Flush b)"
  "\<not> inside (Flushed sps n e)" "\<not> inside (FlushSettle sps n e cl cause bl sv rs)" "\<not> inside (Fail c err hs)"
  "\<not> inside (TeardownSettle c rs err)" "\<not> inside Read" "\<not> inside (Deliver x)" "\<not> inside (Complete r)"
  "\<not> inside (Expire c r)" "\<not> inside (Orphan c)"
  by (simp_all add: inside_def)

lemma inside_Drain [simp]: "list_all (\<lambda>a. \<not> inside a) (map Drain cs)"
  by (simp add: list_all_iff)

inductive guards :: "goroutine \<Rightarrow> action \<Rightarrow> sys \<Rightarrow> action list \<times> sys \<Rightarrow> bool" where
  unlocking: "sy_holder s' = None \<Longrightarrow> guards g Unlock s ([], s')"
| within: "inside a \<Longrightarrow> a \<noteq> Unlock \<Longrightarrow> sy_holder s' = sy_holder s \<Longrightarrow>
    list_all (\<lambda>a. inside a \<and> a \<noteq> Unlock) new \<Longrightarrow> guards g a s (new, s')"
| locking: "\<not> inside a \<Longrightarrow> sy_holder s = None \<Longrightarrow> sy_holder s' = Some g \<Longrightarrow> critical new \<Longrightarrow> guards g a s (new, s')"
| outside: "\<not> inside a \<Longrightarrow> sy_holder s' = sy_holder s \<Longrightarrow> list_all (\<lambda>a. \<not> inside a) new \<Longrightarrow>
    guards g a s (new, s')"

lemma rehome_guards: "guards g (Rehome rs cause rq) s (rehome cfg now rs cause rq s)"
  by (cases rs) (auto simp: case_prod_beta intro!: within)

lemma settles_guard:
  "guards g (SettleClosed rs) s (settleClosed rs s)" "guards g (TeardownSettle c rs e) s (teardownSettle c rs e s)"
  by (cases rs; auto simp: Let_def intro!: outside)+

lemma flushSettle_guards:
  "guards g (FlushSettle sps n err cl cause bl sv rq) s (flushSettle c sps n err cl cause bl sv rq s)"
proof (cases sps)
  case (Cons sp sps')
  then show ?thesis by (cases sp) (auto simp: Let_def intro!: outside)
qed (auto split: option.split intro!: outside)

lemma claim_guards: "guards g Claim s (claim c s)"
  by (cases "cn_closed (sy_conn s c)") (auto simp: claim_def case_prod_beta Let_def intro!: outside)

lemma enqueue_guards: "enqueue cfg g now r s = Some out \<Longrightarrow> guards g (Enqueue r) s out"
proof (cases "sy_closed s")
  case True
  then show "enqueue cfg g now r s = Some out \<Longrightarrow> guards g (Enqueue r) s out"
    by (auto simp: enqueue_def split: if_splits intro!: outside)
next
  case False
  then show "enqueue cfg g now r s = Some out \<Longrightarrow> guards g (Enqueue r) s out"
    by (auto simp: enqueue_def case_prod_beta split: if_splits intro!: locking)
qed

lemma detach_guards: "detach g c rs cause rq s = Some out \<Longrightarrow> guards g (Detach c rs cause rq) s out"
  by (auto simp: detach_def Let_def split: if_splits intro!: locking)

lemma add_guards: "guards g (Add r c) s ([], add r c s)"
  by (rule within) (simp_all add: add_def)

lemma deliver_guards: "guards g (Deliver x) s (deliver c x now s)"
  by (cases "cn_inflight (sy_conn s c)") (auto simp: deliver_def Let_def intro!: outside)

lemma read_next_guards: "guards g Read s (read_next cfg c inp s)"
  by (auto simp: read_next_def Let_def split: prod.split option.split intro!: outside)

lemma flushed_guards: "guards g (Flushed sps n e) s (flushed c sps n e s)"
  by (auto simp: flushed_def Let_def split: option.split dest: cutTail_frame intro!: outside)

lemma giveUp_guards: "guards g (Await r) s (giveUp r e s)"
  by (cases "rq_state (sy_req s r)") (auto simp: giveUp_def Let_def split: option.split intro!: outside)

lemmas operation_guards = rehome_guards settles_guard flushSettle_guards claim_guards enqueue_guards detach_guards add_guards
  deliver_guards read_next_guards flushed_guards giveUp_guards

lemma perform_guards:
  assumes perf: "perform cfg g inp a s = Some out"
  shows "guards g a s out"
proof (cases a)
  case (Add r c)
  then show ?thesis using perf add_guards [of g r c s] by simp
next
  case Unlock
  then show ?thesis using perf by (auto intro: unlocking)
qed (use perf in \<open>auto simp: await_def join_def close_pool_def awaitWake_def drain_def run_def flush_def
      teardownLocked_def expire_def orphan_def Let_def case_prod_beta bind_eq_Some_conv operation_guards
      split: if_splits option.splits intro!: outside\<close>)

lemma critical_append:
  "list_all (\<lambda>a. inside a \<and> a \<noteq> Unlock) as \<Longrightarrow> critical bs \<Longrightarrow> critical (as @ bs)"
  "critical as \<Longrightarrow> list_all (\<lambda>a. \<not> inside a) bs \<Longrightarrow> critical (as @ bs)"
  by (induction as) auto

lemma perform_other_stacks:
  assumes pr: "progressing s" and stack: "sy_stacks s g = a # rest" and perf: "perform cfg g inp a s = Some (new, s')"
  shows "sy_stacks s' h = sy_stacks s h \<or> sy_stacks s h = [] \<and> (sy_stacks s' h = [Run] \<or> sy_stacks s' h = [Read])"
proof (cases "sy_stacks s' h = sy_stacks s h")
  case False
  have fresh: "sy_nextConn s \<le> c \<Longrightarrow> sy_stacks s (Writer c) = []"
    and run: "Run \<in> set (sy_stacks s (Writer c)) \<Longrightarrow> sy_stacks s (Reader c) = []" for c
    using pr unfolding progressing_def by blast+
  have "(\<exists>c. h = Writer c \<and> sy_nextConn s \<le> c) \<or> (\<exists>c. h = Reader c \<and> g = Writer c \<and> a = Run)"
    using perform_progress [OF perf] False by (cases rule: progresses.cases) blast
  then have "sy_stacks s h = []" using fresh run stack by fastforce
  then show ?thesis using perform_stacks [OF perf, of h] False by blast
qed simp

lemma mutex_step:
  assumes pr: "progressing s" and mu: "mutex s" and stack: "sy_stacks s g = a # rest"
    and perf: "perform cfg g inp a s = Some (new, s')"
  shows "mutex (spawn g (new @ rest) s')"
proof -
  let ?out = "\<lambda>as. list_all (\<lambda>a. \<not> inside a) as"
  have held: "if sy_holder s = Some h then critical (sy_stacks s h) else ?out (sy_stacks s h)" for h
    using mu unfolding mutex_def by blast
  have mine: "if sy_holder s = Some g then critical (a # rest) else ?out (a # rest)"
    using held [of g] stack by metis
  have guard: "(if sy_holder s' = Some g then critical (new @ rest) else ?out (new @ rest)) \<and>
      (\<forall>h. h \<noteq> g \<longrightarrow> sy_holder s' = Some h \<longleftrightarrow> sy_holder s = Some h)"
    using perform_guards [OF perf] mine
    by (cases rule: guards.cases) (auto simp: critical_append split: if_splits)
  have "if sy_holder s' = Some h then critical (sy_stacks s' h) else ?out (sy_stacks s' h)" if "h \<noteq> g" for h
    using perform_other_stacks [OF pr stack perf, of h] held [of h] guard that by auto
  then show ?thesis using guard unfolding mutex_def by auto
qed

lemma Step_cases:
  obtains (idle) "occur cfg (Step g inp) s = s"
  | (steps) a rest new s' where "\<not> sy_panicked s" "sy_stacks s g = a # rest" "perform cfg g inp a s = Some (new, s')"
      "occur cfg (Step g inp) s = spawn g (new @ rest) s'"
proof (cases "sy_panicked s \<or> sy_stacks s g = []")
  case True
  then show ?thesis using idle by (auto simp: step_def split: list.split)
next
  case False
  then obtain a rest where stack: "sy_stacks s g = a # rest" by (meson list.exhaust)
  show ?thesis
  proof (cases "perform cfg g inp a s")
    case None
    then show ?thesis using idle by (simp add: step_def stack)
  next
    case (Some out)
    then show ?thesis using steps [OF _ stack] False by (cases out) (simp add: step_def stack)
  qed
qed

lemma mutex_idle: "mutex s \<Longrightarrow> sy_stacks s g = [] \<Longrightarrow> sy_holder s \<noteq> Some g"
  by (auto simp: mutex_def dest: spec [of _ g])

lemma reachable_mutex: "reachable cfg s \<Longrightarrow> mutex s"
proof (induction rule: reachable.induct)
  case reachable_init
  show ?case by (simp add: mutex_def initSys_def)
next
  case (reachable_step s e)
  have pr: "progressing s" by (rule reachable_progressing [OF reachable_step(1)])
  show ?case
  proof (cases e)
    case (Begin payload stop deadline now)
    have "sy_stacks s (Caller (sy_nextReq s)) = []" using pr unfolding progressing_def by blast
    then have "sy_holder s \<noteq> Some (Caller (sy_nextReq s))" by (rule mutex_idle [OF reachable_step(2)])
    then show ?thesis using reachable_step(2) by (auto simp: Begin mutex_def beginExchange_def Let_def)
  next
    case CloseClient
    have "sy_stacks s Closer = [] \<Longrightarrow> sy_holder s \<noteq> Some Closer"
      by (rule mutex_idle [OF reachable_step(2)])
    then show ?thesis using reachable_step(2) by (auto simp: CloseClient mutex_def)
  next
    case (Step g inp)
    show ?thesis
      by (cases rule: Step_cases [of cfg g inp s])
        (use mutex_step [OF pr reachable_step(2)] reachable_step(2) Step in \<open>metis\<close>)+
  qed
qed

section \<open>The connections of a pool\<close>

definition requeues :: "action \<Rightarrow> bool" where
  "requeues a \<longleftrightarrow> (\<exists>rs cause. a = Rehome rs cause True)"

definition pooled :: "('d, 'v) config \<Rightarrow> sys \<Rightarrow> bool" where
  "pooled cfg s \<longleftrightarrow> int (length (sy_conns s)) \<le> max 1 (cfg_maxConns cfg) \<and> distinct (sy_conns s) \<and>
     (\<forall>c \<in> set (sy_conns s). c < sy_nextConn s) \<and>
     (sy_closed s \<longrightarrow> sy_conns s = [] \<and> (\<forall>g. list_all (\<lambda>a. \<not> requeues a) (sy_stacks s g)))"

text \<open>What one call does to them: keep some, or pick in an open pool.\<close>

inductive pools :: "('d, 'v) config \<Rightarrow> action \<Rightarrow> sys \<Rightarrow> action list \<times> sys \<Rightarrow> bool" for cfg where
  keeping: "sy_conns s' = sy_conns s \<or> (\<exists>c. sy_conns s' = remove1 c (sy_conns s)) \<Longrightarrow> sy_closed s' = sy_closed s \<Longrightarrow>
    sy_closed s \<longrightarrow> requeues a \<or> list_all (\<lambda>a. \<not> requeues a) new \<Longrightarrow> sy_nextConn s' = sy_nextConn s \<Longrightarrow> pools cfg a s (new, s')"
| picking: "\<not> sy_closed s \<or> requeues a \<Longrightarrow> sy_conns s' = sy_conns (snd (pickLocked cfg now s)) \<Longrightarrow>
    sy_nextConn s' = sy_nextConn (snd (pickLocked cfg now s)) \<Longrightarrow> sy_closed s' = sy_closed s \<Longrightarrow> pools cfg a s (new, s')"
| closing: "sy_holder s = None \<Longrightarrow> sy_conns s' = [] \<Longrightarrow> sy_closed s' \<Longrightarrow> sy_nextConn s' = sy_nextConn s \<Longrightarrow>
    sy_stacks s' = sy_stacks s \<Longrightarrow> pools cfg Close s (map Drain cs, s')"

lemma requeues_simps [simp]:
  "\<not> requeues Unlock" "\<not> requeues (Add r c)" "requeues (Rehome rs cause rq) = rq" "\<not> requeues (Enqueue r)"
  "\<not> requeues (Await r)" "\<not> requeues (Join r)" "\<not> requeues (Detach k rs cause rq)" "\<not> requeues Close"
  "\<not> requeues (Drain c)" "\<not> requeues (SettleClosed rs)" "\<not> requeues Run" "\<not> requeues Wake" "\<not> requeues Claim"
  "\<not> requeues (Flush b)" "\<not> requeues (Flushed sps n e)" "\<not> requeues (FlushSettle sps n e cl cause bl sv rs)"
  "\<not> requeues (Fail c err hs)" "\<not> requeues (TeardownSettle c rs err)" "\<not> requeues Read"
  "\<not> requeues (Deliver x)" "\<not> requeues (Complete r)" "\<not> requeues (Expire c r)" "\<not> requeues (Orphan c)"
  by (simp_all add: requeues_def)

lemma rehome_pools: "pools cfg (Rehome rs cause rq) s (rehome cfg now rs cause rq s)"
proof (cases rs)
  case (Cons r rest)
  show ?thesis
  proof (cases "rq \<and> rq_state (sy_req s r) = RequestQueued")
    case True
    then show ?thesis
      by (simp add: Cons case_prod_beta) (rule picking [where now = now], simp_all)
  next
    case False
    then show ?thesis by (auto simp: Cons intro!: keeping)
  qed
qed (auto intro!: keeping)

lemma enqueue_pools: "enqueue cfg g now r s = Some out \<Longrightarrow> pools cfg (Enqueue r) s out"
proof (cases "sy_closed s")
  case True
  then show "enqueue cfg g now r s = Some out \<Longrightarrow> pools cfg (Enqueue r) s out"
    by (auto simp: enqueue_def split: if_splits intro!: keeping)
next
  case False
  then show "enqueue cfg g now r s = Some out \<Longrightarrow> pools cfg (Enqueue r) s out"
    by (auto simp: enqueue_def case_prod_beta split: if_splits intro!: picking [where now = now])
qed

lemma close_pools:
  assumes "close_pool s = Some out"
  shows "pools cfg Close s out"
proof (cases "sy_closed s")
  case True
  then show ?thesis using assms by (auto simp: close_pool_def split: if_splits intro!: keeping)
next
  case False
  then show ?thesis using assms by (auto simp: close_pool_def split: if_splits intro!: closing)
qed

lemma loops_pool:
  "pools cfg (SettleClosed rs) s (settleClosed rs s)" "pools cfg (TeardownSettle c rs e) s (teardownSettle c rs e s)"
  by (cases rs; auto simp: Let_def intro!: keeping)+

lemma flushSettle_pools:
  "pools cfg (FlushSettle sps n err cl cause bl sv rq) s (flushSettle c sps n err cl cause bl sv rq s)"
proof (cases sps)
  case (Cons sp sps')
  then show ?thesis by (cases sp) (auto simp: Let_def intro!: keeping)
qed (auto split: option.split intro!: keeping)

lemma claim_pools: "pools cfg Claim s (claim c s)"
  by (cases "cn_closed (sy_conn s c)") (auto simp: claim_def case_prod_beta Let_def intro!: keeping)

lemma deliver_pools: "pools cfg (Deliver x) s (deliver c x now s)"
  by (cases "cn_inflight (sy_conn s c)") (auto simp: deliver_def Let_def intro!: keeping)

lemma read_next_pools: "pools cfg Read s (read_next cfg c inp s)"
  by (auto simp: read_next_def Let_def split: prod.split option.split intro!: keeping)

lemma flushed_pools: "pools cfg (Flushed sps n e) s (flushed c sps n e s)"
  by (auto simp: flushed_def Let_def split: option.split dest: cutTail_frame intro!: keeping)

lemma giveUp_pools: "pools cfg (Await r) s (giveUp r e s)"
  by (cases "rq_state (sy_req s r)") (auto simp: giveUp_def Let_def split: option.split intro!: keeping)

lemma detach_pools: "detach g c rs cause rq s = Some out \<Longrightarrow> pools cfg (Detach c rs cause rq) s out"
  by (auto simp: detach_def Let_def split: if_splits option.splits intro!: keeping)

lemmas operation_pools = rehome_pools enqueue_pools close_pools loops_pool flushSettle_pools claim_pools
  deliver_pools read_next_pools flushed_pools giveUp_pools detach_pools

lemma perform_pools: "perform cfg g inp a s = Some out \<Longrightarrow> pools cfg a s out"
  by (cases a)
    (auto simp: await_def join_def awaitWake_def drain_def run_def flush_def add_def
      teardownLocked_def expire_def orphan_def Let_def case_prod_beta bind_eq_Some_conv operation_pools
      split: if_splits option.splits intro!: keeping)

lemma pickLocked_bounds:
  assumes "int (length (sy_conns s)) \<le> max 1 (cfg_maxConns cfg)" and "distinct (sy_conns s)"
    and "\<forall>c \<in> set (sy_conns s). c < sy_nextConn s"
  shows "int (length (sy_conns (snd (pickLocked cfg now s)))) \<le> max 1 (cfg_maxConns cfg) \<and>
    distinct (sy_conns (snd (pickLocked cfg now s))) \<and>
    (\<forall>c \<in> set (sy_conns (snd (pickLocked cfg now s))). c < sy_nextConn (snd (pickLocked cfg now s)))"
proof (cases "dials cfg now s")
  case True
  have "sy_conns (snd (pickLocked cfg now s)) = reusables cfg now s @ [sy_nextConn s]"
    and "sy_nextConn (snd (pickLocked cfg now s)) = Suc (sy_nextConn s)"
    using True by (simp_all add: pickLocked_picks Let_def newConn_def)
  then show ?thesis using assms True by (auto simp: dials_def reusables_def)
next
  case False
  have "sy_conns (snd (pickLocked cfg now s)) = reusables cfg now s"
    and "sy_nextConn (snd (pickLocked cfg now s)) = sy_nextConn s"
    using False by (simp_all add: pickLocked_picks Let_def)
  moreover have "length (reusables cfg now s) \<le> length (sy_conns s)" "distinct (reusables cfg now s)"
    and "set (reusables cfg now s) \<subseteq> set (sy_conns s)"
    using assms(2) by (auto simp: reusables_def)
  ultimately show ?thesis using assms by fastforce
qed

lemma pooled_step:
  assumes pr: "progressing s" and mu: "mutex s" and po: "pooled cfg s"
    and stack: "sy_stacks s g = a # rest" and perf: "perform cfg g inp a s = Some (new, s')"
  shows "pooled cfg (spawn g (new @ rest) s')"
proof -
  let ?calm = "\<lambda>as. list_all (\<lambda>a. \<not> requeues a) as"
  have len: "int (length (sy_conns s)) \<le> max 1 (cfg_maxConns cfg)" and dist: "distinct (sy_conns s)"
    and less: "\<forall>c \<in> set (sy_conns s). c < sy_nextConn s"
    and closed: "sy_closed s \<Longrightarrow> sy_conns s = []" "sy_closed s \<Longrightarrow> ?calm (sy_stacks s h)" for h
    using po unfolding pooled_def by blast+
  have others: "sy_stacks s' h = sy_stacks s h \<or> ?calm (sy_stacks s' h)" for h
    using perform_stacks [OF perf, of h] by auto
  have quiet: "?calm (sy_stacks (spawn g (new @ rest) s') h)" if "sy_closed s" "?calm new" for h
    using others [of h] closed(2) [OF that(1), of h] closed(2) [OF that(1), of g] stack that(2) by auto
  from perform_pools [OF perf] show ?thesis
  proof (cases rule: pools.cases)
    case keeping
    have "length (sy_conns s') \<le> length (sy_conns s)" "set (sy_conns s') \<subseteq> set (sy_conns s)"
      using keeping(1) by (auto simp: length_remove1 dest: set_remove1_subset [THEN subsetD])
    moreover have "\<not> requeues a" if "sy_closed s" using closed(2) [OF that, of g] stack by simp
    ultimately show ?thesis
      using keeping len dist less closed(1) quiet unfolding pooled_def spawn_simps
      by (auto simp del: spawn_simps)
  next
    case (picking now)
    then have "\<not> sy_closed s" using closed(2) [of g] stack by auto
    then show ?thesis
      using picking pickLocked_bounds [OF len dist less, of now] by (simp add: pooled_def)
  next
    case (closing cs)
    have "?calm (sy_stacks s h)" for h
    proof -
      have "list_all (\<lambda>a. \<not> inside a) (sy_stacks s h)" using mu closing(3) unfolding mutex_def by simp
      then show ?thesis by (auto simp: list_all_iff inside_def requeues_def)
    qed
    moreover from this [of g] have "?calm (new @ rest)" by (auto simp: closing stack list_all_iff)
    ultimately show ?thesis using closing by (simp add: pooled_def)
  qed
qed

lemma reachable_pooled: "reachable cfg s \<Longrightarrow> pooled cfg s"
proof (induction rule: reachable.induct)
  case reachable_init
  show ?case by (simp add: pooled_def initSys_def)
next
  case (reachable_step s e)
  show ?case
  proof (cases e)
    case (Step g inp)
    show ?thesis
      by (cases rule: Step_cases [of cfg g inp s])
        (use pooled_step [OF reachable_progressing [OF reachable_step(1)] reachable_mutex [OF reachable_step(1)]
            reachable_step(2)] reachable_step(2) Step in \<open>metis\<close>)+
  qed (use reachable_step(2) in \<open>auto simp: pooled_def beginExchange_def Let_def\<close>)
qed

section \<open>A closed pool\<close>

text \<open>A call that found the pool closed: it has not enqueued its request yet, or it was refused.\<close>

definition refused :: "nat \<Rightarrow> sys \<Rightarrow> bool" where
  "refused r s \<longleftrightarrow> sy_closed s \<and> r < sy_nextReq s \<and>
     (rq_result (sy_req s r) = None \<and> sy_stacks s (Caller r) = [Enqueue r] \<or>
      rq_result (sy_req s r) = Some ([], 0, Some ErrClosed))"

lemma perform_keeps_closed: "perform cfg g inp a s = Some (new, s') \<Longrightarrow> sy_closed s \<Longrightarrow> sy_closed s'"
  using perform_pools [of cfg g inp a s "(new, s')"] by (auto elim: pools.cases)

lemma closed_occurs: "sy_closed s \<Longrightarrow> sy_closed (occurs cfg es s)"
proof (induction es arbitrary: s)
  case (Cons e es)
  have "sy_closed (occur cfg e s)"
  proof (cases e)
    case (Step g inp)
    show ?thesis
      by (cases rule: Step_cases [of cfg g inp s]) (use Cons.prems Step in \<open>auto dest: perform_keeps_closed\<close>)
  qed (use Cons.prems in \<open>simp_all add: beginExchange_def Let_def\<close>)
  then show ?case using Cons.IH by simp
qed simp

lemma refused_step:
  assumes reach: "reachable cfg s" and ref: "refused r s"
    and stack: "sy_stacks s g = a # rest" and perf: "perform cfg g inp a s = Some (new, s')"
  shows "refused r (spawn g (new @ rest) s')"
proof -
  let ?s = "spawn g (new @ rest) s'"
  note answers = step_answers [OF reachable_answersOnce [OF reach] stack perf perform_stacks [OF perf]]
  have closed: "sy_closed s" "sy_closed s'" and r: "r < sy_nextReq s'"
    using ref perform_keeps_closed [OF perf] perform_nextReq [OF perf] by (simp_all add: refused_def)
  show ?thesis
  proof (cases "rq_result (sy_req s r)")
    case (Some out)
    then show ?thesis using ref answers(2) [of r] closed r by (simp add: refused_def)
  next
    case None
    then have waiting: "sy_stacks s (Caller r) = [Enqueue r]" using ref by (simp add: refused_def)
    show ?thesis
    proof (cases "g = Caller r")
      case True
      then have "a = Enqueue r" using stack waiting by simp
      then show ?thesis
        using perf closed r by (auto simp: refused_def enqueue_def split: if_splits)
    next
      case False
      then have "sy_stacks ?s (Caller r) = [Enqueue r]"
        using perform_other_stacks [OF reachable_progressing [OF reach] stack perf, of "Caller r"] waiting by auto
      moreover from this have "rq_result (sy_req s' r) = None"
        using answers(3) [of r "Caller r"] by (auto split: if_splits)
      ultimately show ?thesis using closed r by (simp add: refused_def del: spawn_simps(1))
    qed
  qed
qed

lemma refused_occur:
  assumes reach: "reachable cfg s" and ref: "refused r s"
  shows "refused r (occur cfg e s)"
proof (cases e)
  case (Step g inp)
  show ?thesis
    by (cases rule: Step_cases [of cfg g inp s]) (use refused_step [OF reach ref] ref Step in \<open>metis\<close>)+
qed (use ref in \<open>auto simp: refused_def beginExchange_def Let_def\<close>)

lemma refused_occurs: "reachable cfg s \<Longrightarrow> refused r s \<Longrightarrow> refused r (occurs cfg es s)"
proof (induction es arbitrary: s)
  case (Cons e es)
  show ?case
    using Cons.IH [OF reachable_step [OF Cons.prems(1)] refused_occur [OF Cons.prems]] by simp
qed simp

lemma refused_unsent:
  assumes "reachable cfg s" and ref: "refused r s"
  shows "rq_sent (sy_req s r) = 0"
proof -
  have acc: "accounted s" using reachable_invariants [OF assms(1)] by blast
  show ?thesis
  proof (cases "rq_result (sy_req s r)")
    case None
    then have "sy_stacks s (Caller r) = [Enqueue r]" using ref by (simp add: refused_def)
    from accountedD(4) [OF acc this] show ?thesis by (simp add: ok_queued_def)
  next
    case (Some out)
    then show ?thesis using ref accountedD(1) [OF acc, of r] by (simp add: refused_def ok_req_def ok_result_def)
  qed
qed

end
