(* ===== verification/Framing.thy ===== *)
theory Framing
  imports Pool
begin

text \<open>
  What a socket sees. Many callers share a connection, and its writer puts their commands
  behind one another in one buffer that a socket may take in pieces: the bytes a socket took
  are whole commands, one behind the other and never interleaved, and at most one command cut
  off behind them, after which that socket is given nothing any more.
\<close>

section \<open>A flush\<close>

definition commandBytes :: "sys \<Rightarrow> nat list \<Rightarrow> bytes" where
  "commandBytes s rs = concat (map (\<lambda>r. rq_payload (sy_req s r)) rs)"

lemma commandBytes_append [simp]: "commandBytes s (xs @ ys) = commandBytes s xs @ commandBytes s ys"
  by (simp add: commandBytes_def)

lemma flushBuffer_bytes: "flushBuffer s b = commandBytes s b"
  by (simp add: flushBuffer_def commandBytes_def)

definition cutOff :: "sys \<Rightarrow> bytes \<Rightarrow> bool" where
  "cutOff s rest \<longleftrightarrow> (\<exists>r < sy_nextReq s. strict_prefix rest (rq_payload (sy_req s r)))"

lemma spans_take:
  assumes "start \<le> n" and "\<And>r. r \<in> set b \<Longrightarrow> r < sy_nextReq s"
  shows "\<exists>rest. take (n - start) (commandBytes s b) =
      commandBytes s (map fst (filter (\<lambda>sp. \<not> unwritten n sp) (spans s start b))) @ rest \<and>
      (rest = [] \<or> cutOff s rest \<and> n - start < length (commandBytes s b))"
  using assms
proof (induction s start b rule: spans.induct)
  case (2 s start r b)
  let ?p = "rq_payload (sy_req s r)"
  let ?last = "start + length ?p"
  have cons: "commandBytes s (r # b) = ?p @ commandBytes s b" by (simp add: commandBytes_def)
  show ?case
  proof (cases "n < ?last")
    case True
    have "unwritten n sp" if "sp \<in> set (spans s start (r # b))" for sp
      using that True spans_mem [of "fst sp" "fst (snd sp)" "snd (snd sp)" s ?last b]
      by (auto simp: unwritten_def payloadLen_def split: prod.splits)
    then have none: "filter (\<lambda>sp. \<not> unwritten n sp) (spans s start (r # b)) = []"
      by (auto simp: filter_empty_conv simp del: spans.simps)
    have short: "n - start < length ?p" using True 2(2) by linarith
    then have "take (n - start) ?p \<noteq> ?p" by (metis length_take min.strict_order_iff min.commute)
    then have "strict_prefix (take (n - start) ?p) ?p" by (simp add: strict_prefix_def take_is_prefix)
    then have "cutOff s (take (n - start) ?p)" using 2(3) [of r] by (auto simp: cutOff_def)
    then show ?thesis
      using short unfolding none cons
      by (intro exI [of _ "take (n - start) ?p"]) (simp add: commandBytes_def)
  next
    case False
    then have le: "start + payloadLen s r \<le> n" by (simp add: payloadLen_def)
    from 2(1) [OF le 2(3)] obtain rest where rest: "take (n - ?last) (commandBytes s b) =
        commandBytes s (map fst (filter (\<lambda>sp. \<not> unwritten n sp) (spans s ?last b))) @ rest"
      "rest = [] \<or> cutOff s rest \<and> n - ?last < length (commandBytes s b)"
      by (auto simp: payloadLen_def)
    have "take (n - start) (commandBytes s (r # b)) = ?p @ take (n - ?last) (commandBytes s b)"
      using False by (simp add: cons)
    moreover have "filter (\<lambda>sp. \<not> unwritten n sp) (spans s start (r # b)) =
        (r, start, ?last) # filter (\<lambda>sp. \<not> unwritten n sp) (spans s ?last b)"
      using False by (simp add: unwritten_def payloadLen_def)
    moreover have "n - start < length (commandBytes s (r # b))" if "n - ?last < length (commandBytes s b)"
      using that False unfolding cons by simp
    ultimately show ?thesis
      using rest by (intro exI [of _ rest]) (auto simp: commandBytes_def)
  qed
qed (simp add: commandBytes_def)

section \<open>The invariant\<close>

fun flushes :: "action \<Rightarrow> bool" where
  "flushes (Flush b) = True"
| "flushes _ = False"

text \<open>A writer that met an error: it will close its connection before it claims again.\<close>

fun failing :: "nat \<Rightarrow> action \<Rightarrow> bool" where
  "failing c (Flushed sps n e) \<longleftrightarrow> e \<noteq> None"
| "failing c (FlushSettle sps n e closed cause blamed served requeue) \<longleftrightarrow> e \<noteq> None"
| "failing c (Fail d e headSaw) \<longleftrightarrow> d = c"
| "failing c _ = False"

definition spoiled :: "sys \<Rightarrow> nat \<Rightarrow> bool" where
  "spoiled s c \<longleftrightarrow> sy_panicked s \<or> \<not> list_ex flushes (sy_stacks s (Writer c)) \<and>
     (cn_closed (sy_conn s c) \<or> sy_stacks s (Writer c) \<noteq> [] \<and> failing c (hd (sy_stacks s (Writer c))))"

definition framedConn :: "sys \<Rightarrow> nat \<Rightarrow> bool" where
  "framedConn s c \<longleftrightarrow> (\<forall>r \<in> set (cn_log (sy_conn s c)). r < sy_nextReq s) \<and>
     (\<exists>rest. cn_wire (sy_conn s c) = commandBytes s (cn_log (sy_conn s c)) @ rest \<and>
        (rest = [] \<or> cutOff s rest \<and> spoiled s c))"

definition framed :: "sys \<Rightarrow> bool" where
  "framed s \<longleftrightarrow> (\<forall>g. list_all (\<lambda>a. \<not> flushes a) (tl (sy_stacks s g))) \<and> (\<forall>c. framedConn s c)"

text \<open>What a call other than a flush of the connection leaves of it.\<close>

definition sameWire :: "muxConn \<Rightarrow> muxConn \<Rightarrow> bool" where
  "sameWire k k' \<longleftrightarrow> cn_wire k' = [] \<and> cn_log k' = [] \<or>
     cn_wire k' = cn_wire k \<and> cn_log k' = cn_log k \<and> (cn_closed k \<longrightarrow> cn_closed k')"

lemma sameWire_refl [simp]: "sameWire k k"
  by (simp add: sameWire_def)

lemma sameWire_retire [simp]: "sameWire k (retire k)"
  and sameWire_wake [simp]: "sameWire k (k\<lparr>cn_wake := b\<rparr>)"
  by (auto simp: sameWire_def retire_def)

lemma pickLocked_wire [simp]: "sameWire (sy_conn s c) (sy_conn (snd (pickLocked cfg now s)) c)"
proof -
  have "sameWire (sy_conn s c) (sy_conn (snd (pickScan cfg now cs acc s)) c)" for cs acc
    by (simp add: pickScan_conns)
  then show ?thesis by (auto simp: pickLocked_picks Let_def newConn_def sameWire_def freshConn_def)
qed

lemma claim_wire [simp]: "sameWire (sy_conn s x) (sy_conn (snd (claim c s)) x)"
  by (cases "cn_closed (sy_conn s c)") (auto simp: claim_def case_prod_beta Let_def sameWire_def)

lemma flushed_wire [simp]: "sameWire (sy_conn s x) (sy_conn (snd (flushed c sps n e s)) x)"
proof -
  have "sameWire (sy_conn s x) (sy_conn s' x)" if "cutTail c n sps s = Some s'" for s'
    using cutTail_conn(1) [OF that, of x] cutTail_conn(2) [OF that] by (cases "x = c") (auto simp: sameWire_def)
  then show ?thesis by (auto simp: flushed_def Let_def split: option.split)
qed

lemma deliver_wire [simp]: "sameWire (sy_conn s x) (sy_conn (snd (deliver c r now s)) x)"
  by (cases "cn_inflight (sy_conn s c)") (auto simp: deliver_def Let_def sameWire_def)

lemma read_next_wire [simp]: "sameWire (sy_conn s x) (sy_conn (snd (read_next cfg c inp s)) x)"
  by (auto simp: read_next_def Let_def sameWire_def split: prod.split option.split)

lemma teardown_wire [simp]: "sameWire (sy_conn s x) (sy_conn (snd (teardownLocked c e hs s)) x)"
  by (auto simp: teardownLocked_def Let_def sameWire_def)

lemma drain_wire [simp]: "sameWire (sy_conn s x) (sy_conn (snd (drain c s)) x)"
  by (simp add: drain_def Let_def sameWire_def)

lemma run_wire [simp]: "sameWire (sy_conn s x) (sy_conn (snd (run c inp s)) x)"
  by (simp add: run_def sameWire_def split: option.split)

lemma add_wire [simp]: "sameWire (sy_conn s x) (sy_conn (add r c s) x)"
  by (simp add: add_def sameWire_def)

lemma loops_wire [simp]:
  "sy_conn (snd (settleClosed rs s)) = sy_conn s" "sy_conn (snd (teardownSettle c rs e s)) = sy_conn s"
  "sy_conn (snd (flushSettle c sps n err cl cause bl sv rq s)) = sy_conn s"
proof -
  show "sy_conn (snd (flushSettle c sps n err cl cause bl sv rq s)) = sy_conn s"
  proof (cases sps)
    case (Cons sp sps')
    then show ?thesis by (cases sp) (simp add: Let_def)
  qed simp
qed (cases rs; simp add: Let_def)+

lemma rehome_wire [simp]: "sameWire (sy_conn s c) (sy_conn (snd (rehome cfg now rs cause rq s)) c)"
  by (cases rs) (simp_all add: case_prod_beta)

lemma giveUp_wire [simp]: "sy_conn (snd (giveUp r e s)) = sy_conn s"
  by (cases "rq_state (sy_req s r)") (simp_all add: giveUp_def Let_def)

lemma arm_wire [simp]: "sameWire (sy_conn s x) (sy_conn (armReadDeadlineLocked c s) x)"
  by (simp add: sameWire_def)

lemma perform_wire:
  assumes perf: "perform cfg g inp a s = Some out" and "\<not> (g = Writer x \<and> flushes a)"
  shows "sameWire (sy_conn s x) (sy_conn (snd out) x)"
proof (cases a)
  case (Flush b)
  then show ?thesis using assms by (cases g) (auto simp: flush_def Let_def case_prod_beta)
qed (use perf in \<open>auto simp: enqueue_def detach_def close_pool_def awaitWake_def join_def await_def expire_def orphan_def
      Let_def case_prod_beta bind_eq_Some_conv split: if_splits option.splits\<close>)

text \<open>Only claiming makes a flush, and only on an open connection.\<close>

lemma pending_flushes:
  "list_all (\<lambda>a. \<not> flushes a) (fst (settleClosed rs s))" "list_all (\<lambda>a. \<not> flushes a) (fst (teardownSettle c rs e s))"
  "list_all (\<lambda>a. \<not> flushes a) (fst (rehome cfg now rs cause rq s))"
  "list_all (\<lambda>a. \<not> flushes a) (fst (flushSettle c sps n err cl cause bl sv rq' s))"
proof -
  show "list_all (\<lambda>a. \<not> flushes a) (fst (flushSettle c sps n err cl cause bl sv rq' s))"
  proof (cases sps)
    case (Cons sp sps')
    then show ?thesis by (cases sp) (simp add: Let_def)
  qed (simp split: option.split)
qed (cases rs; simp add: Let_def case_prod_beta)+

lemma perform_flushes:
  assumes perf: "perform cfg g inp a s = Some (new, s')"
  shows "list_all (\<lambda>a. \<not> flushes a) (tl new)"
    and "g = Writer c \<Longrightarrow> list_ex flushes new \<Longrightarrow> a = Claim \<and> \<not> cn_closed (sy_conn s c)"
proof -
  have "list_all (\<lambda>a. \<not> flushes a) new \<or> a = Claim \<and> list_all (\<lambda>a. \<not> flushes a) (tl new) \<and>
      (\<forall>c. g = Writer c \<longrightarrow> \<not> cn_closed (sy_conn s c))"
  proof (cases a)
    case (FlushSettle sps n err cl cause bl sv rq)
    then show ?thesis using perf pending_flushes(4) by (auto, metis fst_conv)
  next
    case (SettleClosed rs)
    then show ?thesis using perf pending_flushes(1) [of rs s] by simp
  next
    case (TeardownSettle c rs e)
    then show ?thesis using perf pending_flushes(2) [of c rs e s] by simp
  next
    case (Rehome rs cause rq)
    then show ?thesis using perf pending_flushes(3) [of cfg "in_now inp" rs cause rq s] by simp
  next
    case Claim
    then show ?thesis
      using perf by (auto simp: claim_def Let_def case_prod_beta writerOf_Some split: if_splits)
  qed (use perf in \<open>auto simp: enqueue_def detach_def close_pool_def awaitWake_def join_def await_def giveUp_def
      expire_def orphan_def teardownLocked_def drain_def run_def flush_def flushed_def deliver_def read_next_def
      Let_def case_prod_beta bind_eq_Some_conv list_all_iff
      split: if_splits option.splits list.splits requestState.splits\<close>)
  then show "list_all (\<lambda>a. \<not> flushes a) (tl new)"
    and "g = Writer c \<Longrightarrow> list_ex flushes new \<Longrightarrow> a = Claim \<and> \<not> cn_closed (sy_conn s c)"
    by (cases new; auto simp: list_all_iff list_ex_iff)+
qed

text \<open>A failing writer closes its connection.\<close>

lemma perform_failing:
  assumes perf: "perform cfg (Writer c) inp a s = Some (new, s')" and "failing c a"
  shows "sy_panicked s' \<or> cn_closed (sy_conn s' c) \<or> new \<noteq> [] \<and> failing c (hd new)"
proof (cases a)
  case (FlushSettle sps n err cl cause bl sv rq)
  show ?thesis
  proof (cases sps)
    case (Cons sp sps')
    then show ?thesis using assms FlushSettle by (cases sp) (auto simp: Let_def split: if_splits)
  qed (use assms FlushSettle in auto)
next
  case (Flushed sps n e)
  then show ?thesis using assms by (auto simp: flushed_def Let_def split: if_splits option.splits)
next
  case (Fail d e hs)
  then show ?thesis using assms by (auto simp: teardownLocked_def Let_def split: if_splits)
qed (use assms in simp_all)

lemma spoiled_step:
  assumes pr: "progressing s" and spoiled: "spoiled s c" and run: "\<not> sy_panicked s"
    and stack: "sy_stacks s g = a # rest" and perf: "perform cfg g inp a s = Some (new, s')"
    and closed: "cn_closed (sy_conn s c) \<longrightarrow> cn_closed (sy_conn s' c)"
  shows "spoiled (spawn g (new @ rest) s') c"
proof (cases "g = Writer c")
  case True
  then have quiet: "\<not> list_ex flushes (a # rest)" and bad: "cn_closed (sy_conn s c) \<or> failing c a"
    using spoiled run stack by (simp_all add: spoiled_def)
  have "a \<noteq> Claim \<or> cn_closed (sy_conn s c)" using bad by auto
  then have "\<not> list_ex flushes (new @ rest)" using perform_flushes(2) [OF perf True] quiet by auto
  moreover have "sy_panicked s' \<or> cn_closed (sy_conn s' c) \<or> new \<noteq> [] \<and> failing c (hd new)"
    using bad closed perform_failing [OF perf [unfolded True]] by blast
  ultimately show ?thesis by (auto simp: spoiled_def True)
next
  case False
  have "\<not> list_ex flushes (sy_stacks s (Writer c))"
    and bad: "cn_closed (sy_conn s c) \<or> sy_stacks s (Writer c) \<noteq> [] \<and> failing c (hd (sy_stacks s (Writer c)))"
    using spoiled run by (auto simp: spoiled_def)
  then show ?thesis
    using perform_other_stacks [OF pr stack perf, of "Writer c"] closed False by (auto simp: spoiled_def)
qed

lemma flush_framed:
  assumes pl: "placed s" and fr: "framedConn s c" and run: "\<not> sy_panicked s"
    and stack: "sy_stacks s (Writer c) = Flush b # rest" and quiet: "list_all (\<lambda>a. \<not> flushes a) rest"
    and perf: "perform cfg (Writer c) inp (Flush b) s = Some (new, s')"
    and same: "\<And>r. rq_payload (sy_req s' r) = rq_payload (sy_req s r)" "sy_nextReq s' = sy_nextReq s"
  shows "framedConn (spawn (Writer c) (new @ rest) s') c"
proof -
  obtain n e where w: "fst (writeAll scriptedWriter (in_write inp) (flushBuffer s b) 0) = (n, e)" by fastforce
  have whole: "e = None \<Longrightarrow> length (flushBuffer s b) \<le> n"
    using writeAll_outcome [OF _ w] scriptedWriter_plain by fastforce
  let ?whole = "map fst (filter (\<lambda>sp. \<not> unwritten n sp) (spans s 0 b))"
  have b: "r < sy_nextReq s" if "r \<in> set b" for r
  proof -
    have "r \<in> set (at s (Stack (Writer c)))" using that by (simp add: stack)
    then show ?thesis using pl unfolding placed_def by blast
  qed
  have bytes: "commandBytes (spawn g as s') = commandBytes s" for g as
    by (rule ext) (simp add: commandBytes_def same)
  have cut: "cutOff (spawn g as s') = cutOff s" for g as
    by (rule ext) (simp add: cutOff_def same)
  have log: "\<forall>r \<in> set (cn_log (sy_conn s c)). r < sy_nextReq s"
    and wire: "cn_wire (sy_conn s c) = commandBytes s (cn_log (sy_conn s c))"
    using fr run stack by (auto simp: framedConn_def spoiled_def)
  obtain tl where tl: "take n (flushBuffer s b) = commandBytes s ?whole @ tl"
      "tl = [] \<or> cutOff s tl \<and> n < length (commandBytes s b)"
    using spans_take [of 0 n b s, OF le0 b] by (auto simp: flushBuffer_bytes)
  have fields: "new = [Flushed (spans s 0 b) n e]" "cn_log (sy_conn s' c) = cn_log (sy_conn s c) @ ?whole"
    "cn_wire (sy_conn s' c) = cn_wire (sy_conn s c) @ take n (flushBuffer s b)"
    using perf by (auto simp: flush_def Let_def w)
  have "r < sy_nextReq s" if "r \<in> set ?whole" for r
    using that b spans_fst [of s 0 b] by (metis (no_types, lifting) filter_is_subset image_mono in_mono list.set_map)
  moreover have "spoiled (spawn (Writer c) (new @ rest) s') c" if "tl \<noteq> []"
  proof -
    have "e \<noteq> None" using that tl(2) whole by (auto simp: flushBuffer_bytes)
    then show ?thesis using quiet by (auto simp: spoiled_def fields(1) list_all_iff list_ex_iff)
  qed
  ultimately show ?thesis
    using log tl wire unfolding framedConn_def bytes cut spawn_simps fields(2,3) same
    by (intro conjI exI [of _ tl]) auto
qed

lemma framed_step:
  assumes reach: "reachable cfg s" and fr: "framed s" and run: "\<not> sy_panicked s"
    and stack: "sy_stacks s g = a # rest" and perf: "perform cfg g inp a s = Some (new, s')"
  shows "framed (spawn g (new @ rest) s')"
proof -
  let ?s = "spawn g (new @ rest) s'"
  have pr: "progressing s" by (rule reachable_progressing [OF reach])
  have quiet: "list_all (\<lambda>a. \<not> flushes a) (tl (sy_stacks s h))" for h using fr unfolding framed_def by blast
  have rest: "list_all (\<lambda>a. \<not> flushes a) rest" using quiet [of g] stack by simp
  have tails: "list_all (\<lambda>a. \<not> flushes a) (tl (sy_stacks ?s h))" for h
  proof (cases "h = g")
    case True
    then show ?thesis
      using perform_flushes(1) [OF perf] rest by (cases new) (simp_all add: list_all_tl)
  next
    case False
    then show ?thesis using perform_other_stacks [OF pr stack perf, of h] quiet [of h] by auto
  qed
  have same: "rq_payload (sy_req s' r) = rq_payload (sy_req s r)" "sy_nextReq s' = sy_nextReq s" for r
    using step_answers(1) [OF reachable_answersOnce [OF reach] stack perf perform_stacks [OF perf], of r]
      perform_nextReq [OF perf] by (simp_all add: sameCommand_def)
  have "framedConn ?s c" for c
  proof (cases "g = Writer c \<and> flushes a")
    case True
    then obtain b where "a = Flush b" by (cases a) auto
    then show ?thesis
      using flush_framed [of s c b rest cfg inp new s'] reachable_invariants [OF reach] fr run stack rest perf same True
      by (simp add: framed_def)
  next
    case False
    have bytes: "commandBytes ?s = commandBytes s" by (rule ext) (simp add: commandBytes_def same)
    have cut: "cutOff ?s = cutOff s" by (rule ext) (simp add: cutOff_def same)
    have wire: "sameWire (sy_conn s c) (sy_conn s' c)" using perform_wire [OF perf False] by simp
    have conn: "framedConn s c" using fr unfolding framed_def by blast
    show ?thesis
    proof (cases "cn_wire (sy_conn s' c) = [] \<and> cn_log (sy_conn s' c) = []")
      case True
      then show ?thesis by (simp add: framedConn_def commandBytes_def)
    next
      case kept: False
      then show ?thesis
        using wire conn spoiled_step [OF pr _ run stack perf, of c]
        unfolding framedConn_def bytes cut spawn_simps sameWire_def same by metis
    qed
  qed
  with tails show ?thesis unfolding framed_def by blast
qed

lemma reachable_framed: "reachable cfg s \<Longrightarrow> framed s"
proof (induction rule: reachable.induct)
  case reachable_init
  show ?case by (simp add: framed_def framedConn_def initSys_def freshConn_def commandBytes_def)
next
  case (reachable_step s e)
  show ?case
  proof (cases e)
    case (Begin payload stop deadline now)
    let ?s = "beginExchange cfg payload stop deadline now s"
    have old: "framed s" by (rule reachable_step(2))
    have fields: "sy_nextReq ?s = Suc (sy_nextReq s)" "sy_conn ?s = sy_conn s" "sy_panicked ?s = sy_panicked s"
      "sy_stacks ?s = (sy_stacks s)(Caller (sy_nextReq s) := [Enqueue (sy_nextReq s)])"
      "r < sy_nextReq s \<Longrightarrow> sy_req ?s r = sy_req s r" for r
      by (simp_all add: beginExchange_def Let_def)
    have "commandBytes ?s rs = commandBytes s rs" if "\<forall>r \<in> set rs. r < sy_nextReq s" for rs
      using that by (simp add: commandBytes_def fields cong: map_cong)
    moreover have "cutOff ?s tl" if "cutOff s tl" for tl
      using that fields by (auto simp: cutOff_def intro: less_SucI)
    ultimately have "framedConn ?s c" if "framedConn s c" for c
      using that unfolding framedConn_def spoiled_def fields by (fastforce intro: less_SucI)
    then show ?thesis using old unfolding Begin occur.simps framed_def by (auto simp: fields)
  next
    case CloseClient
    then show ?thesis
      using reachable_step(2) by (auto simp: framed_def framedConn_def spoiled_def commandBytes_def cutOff_def)
  next
    case (Step g inp)
    show ?thesis
      by (cases rule: Step_cases [of cfg g inp s])
        (use framed_step [OF reachable_step(1,2)] reachable_step(2) Step in \<open>metis\<close>)+
  qed
qed

end
