(* ===== verification/Transport_Properties.thy ===== *)
theory Transport_Properties
  imports Exchange Framing
begin

text \<open>
  The properties of the transport: what a pool promises to the calls made through it, and
  what holds of a command from its caller to the socket. Each rests on the invariants of the
  theories before; the concrete runs that apply them stand beside them.
\<close>

section \<open>Concrete runs\<close>

definition ticks :: "goroutine \<Rightarrow> nat \<Rightarrow> event list" where
  "ticks g k = replicate k (Step g calmInput)"

text \<open>A call up to the point where its connection's writer is about to write, and beyond.\<close>

definition demoQueued :: "event list" where
  "demoQueued = Begin ''mn'' (\<lambda>_. True) None 0 # ticks (Caller 0) 3 @ ticks (Writer 0) 3"

definition demoWritten :: "event list" where
  "demoWritten = demoQueued @ ticks (Writer 0) 1"

definition demoTimedOut :: "event list" where
  "demoTimedOut = demoWritten @ [Step (Caller 0) (endedInput CtxEndDeadline)]"

definition demoCut :: "event list" where
  "demoCut = demoQueued @ [Step (Writer 0) (calmInput\<lparr>in_write := [(1, Some NetTimeout)]\<rparr>)]"

definition demoCutShort :: "event list" where
  "demoCutShort = ticks (Caller 0) 3 @ ticks (Writer 0) 3 @
     Step (Writer 0) (calmInput\<lparr>in_write := [(5, Some NetTimeout)]\<rparr>) # ticks (Writer 0) 2"

text \<open>The outside world of one call, with what is scheduled during it.\<close>

definition demoNet :: "event list \<Rightarrow> net" where
  "demoNet scheduled = \<lparr>nt_history = (\<lambda>_. []), nt_script = [scheduled], nt_ctxErr = (\<lambda>_. None),
     nt_deadline = (\<lambda>_. None), nt_end = (\<lambda>_. CtxEndDeadline), nt_now = 0\<rparr>"

definition shortWorld :: "net world" where
  "shortWorld = \<lparr>w_net = demoNet demoCutShort, w_reports = [], w_tasks = []\<rparr>"

lemma reachable_run: "reachable cfg (occurs cfg es initSys)"
  by (rule reachable_occurs [OF reachable_init])

lemma honestly_run: "honestly cfg (honestRun cfg es initSys)"
  by (rule honestly_honestRun [OF honestly_init])

section \<open>Calls\<close>

text \<open>
  C2: the transport keeps the contract the client is built on. Whatever the goroutines, the
  other callers and the network do, as long as the server answers only what it was sent, a
  call without an error returns a whole response stream and wrote all of its payload; a
  failed one reports no more bytes than it has, an error that is neither ambiguous nor a
  usage error, and only responses the wire reader accepts.
\<close>

theorem transport_exchanger:
  "exchanger (serverExchange cfg)"
  by (rule transport.exchanger_axioms)

text \<open>
  C1: a mutation that fails without being called ambiguous did not happen, nor will it. If
  a side-effecting command run over this transport fails with an error that is neither
  ambiguous nor an error line of the server, then its context had ended before anything was
  done, or the server answered it with a response whose flags do not parse, or no socket has
  taken the whole of its command, and none ever will, whatever happens to the pool later.
\<close>

theorem failed_write_never_whole:
  assumes adm: "admit c command = Inr (data, i)" and effect: "commandHasSideEffect command"
    and run: "executeMeta (transportEnv (cl_config c)) c ctx command w = (Inl e, w')"
    and certain: "\<not> as_ambiguous e" and local: "\<not> as_server e"
  shows "w' = w \<or>
    (let q = sy_req (honestRun (cl_config c) later (poolOf (cl_config c) (w_net w') i))
               (sy_nextReq (poolOf (cl_config c) (w_net w) i))
     in rq_payload q = data \<and>
        (rq_sent q < length data \<or>
         (\<exists>reply. rq_result q = Some ([reply], length data, None) \<and> raw_parseErr reply = Some e)))"
proof (cases "nt_ctxErr (w_net w) ctx")
  case (Some ended)
  then show ?thesis
    using run by (auto simp: executeMeta_def adm exchange_w_def transportEnv_def serverExchange_def)
next
  case None
  let ?cfg = "cl_config c"
  obtain rs written err n' where call: "serverExchange ?cfg ctx i data (\<lambda>_. True) (w_net w) = ((rs, written, err), n')"
    by (metis prod.exhaust)
  have out: "settle command data (rs, written, err) = Inl e" and w': "w_net w' = n'"
    using run by (auto simp: executeMeta_def adm exchange_w_def transportEnv_def call)
  note later = serverExchange_later [OF call None, of later]
  have bound: "written \<le> length data" by (rule transport.written_bound [OF call])
  show ?thesis
  proof (cases err)
    case (Some cause)
    then have "written \<noteq> length data"
      using out effect certain local by (auto simp: settle_def split: if_splits)
    with later bound show ?thesis by (simp add: w' Let_def)
  next
    case err: None
    obtain reply where rs: "rs = [reply]" using transport.single_response [OF call [unfolded err]] by blast
    have "written = length data" using transport.completes [OF call [unfolded err]] by blast
    moreover have "raw_parseErr reply = Some e" using out by (simp add: settle_def rs err split: option.splits)
    ultimately show ?thesis using later by (auto simp: w' rs err Let_def)
  qed
qed

theorem failed_write_never_whole_witness:
  "rq_sent (sy_req (poolOf demoConfig (w_net (snd (executeMeta (transportEnv demoConfig) demoClient RootCtx demoStore
     shortWorld))) 1) 0) < 24"
proof -
  let ?run = "executeMeta (transportEnv demoConfig) demoClient RootCtx demoStore shortWorld"
  let ?data = "''ms YSBi 2 F0 T60 b'' @ CRLF @ ''hi'' @ CRLF"
  have cfg: "cl_config demoClient = demoConfig" by (simp add: demoClient_def)
  have err: "fst ?run = Inl OsDeadlineExceeded"
    and answer: "map_option (\<lambda>out. fst (snd out) = 5 \<and> snd (snd out) = Some OsDeadlineExceeded)
      (rq_result (sy_req (poolOf demoConfig (w_net (snd ?run)) 1) 0)) = Some True"
    by code_simp+
  have adm: "admit demoClient demoStore = Inr (?data, 1)" by code_simp
  have eff: "commandHasSideEffect demoStore" by (simp add: demoStore_def commandHasSideEffect_def)
  have plain: "\<not> as_ambiguous OsDeadlineExceeded" "\<not> as_server OsDeadlineExceeded"
    by (simp_all add: as_ambiguous_def as_server_def)
  have run: "executeMeta (transportEnv (cl_config demoClient)) demoClient RootCtx demoStore shortWorld =
      (Inl OsDeadlineExceeded, snd ?run)" using err by (simp add: cfg prod_eq_iff)
  have start: "sy_nextReq (poolOf demoConfig (w_net shortWorld) 1) = 0" by code_simp
  have "snd ?run \<noteq> shortWorld"
  proof
    assume "snd ?run = shortWorld"
    then have "rq_result (sy_req (poolOf demoConfig (w_net (snd ?run)) 1) 0) = None"
      by (simp add: shortWorld_def demoNet_def poolOf_def initSys_def newRequest_def)
    then show False using answer by simp
  qed
  moreover have "length ?data = 24" by code_simp
  ultimately show ?thesis
    using failed_write_never_whole [OF adm eff run plain, of "[]"] answer
    unfolding cfg start Let_def honestRun_simps(1) by (elim disjE conjE exE) (simp_all only:, auto)
qed

text \<open>
  C3: the bytes a call reports are a bound on what happened. In every state a pool can get
  into, a call that returned reports at least as many bytes as all sockets together have
  taken of its command, and at most the command's length: so a command is never sent twice,
  and one reported as not written was not.
\<close>

theorem written_accounted:
  assumes "reachable cfg s" and "rq_result (sy_req s r) = Some (rs, written, err)"
  shows "rq_sent (sy_req s r) \<le> written \<and> written \<le> length (rq_payload (sy_req s r))"
proof -
  have "ok_req (sy_req s r)" using reachable_invariants [OF assms(1)] accountedD(1) by blast
  then show ?thesis using assms(2) by (simp add: ok_req_def ok_result_def payload_len_def)
qed

theorem written_accounted_witness:
  "rq_sent (sy_req (occurs demoConfig demoTimedOut initSys) 0) \<le> 2 \<and>
   2 \<le> length (rq_payload (sy_req (occurs demoConfig demoTimedOut initSys) 0))"
proof -
  have "rq_result (sy_req (occurs demoConfig demoTimedOut initSys) 0) = Some ([], 2, Some CtxDeadlineExceeded)"
    by code_simp
  from written_accounted [OF reachable_run this] show ?thesis by simp
qed

text \<open>
  C4: responses go to the commands they answer. With a server that answers only what it was
  sent, no slice expression of the writer panics; on every open connection the commands in
  flight are exactly the ones the socket took and the server has not answered, in the order
  in which they were sent, followed by what the writer is writing; and a call that returned
  without an error has its own stream, whole and ended where its rule ends it.
\<close>

theorem pipeline_order:
  assumes "honestly cfg s"
  shows "\<not> sy_panicked s \<and>
    (\<not> cn_closed (sy_conn s c) \<longrightarrow> (\<exists>sent. cn_log (sy_conn s c) = cn_answered (sy_conn s c) @ sent \<and>
       cn_inflight (sy_conn s c) = sent @ tailOf (sy_stacks s (Writer c)))) \<and>
    (rq_result (sy_req s r) = Some (rs, written, None) \<longrightarrow>
       streamOf (rq_stop (sy_req s r)) rs \<and> written = length (rq_payload (sy_req s r)))"
proof -
  have ma: "matched s" by (rule honestly_matched [OF assms])
  then have "pipe (sy_conn s c) (sy_stacks s (Writer c)) (sy_stacks s (Reader c))" and "settledWell (sy_req s r)"
    unfolding matched_def piped_def answered_def by blast+
  then show ?thesis using ma by (auto simp: matched_def pipe_def settledWell_def payload_len_def)
qed

theorem pipeline_order_witness:
  "\<exists>sent. cn_log (sy_conn (honestRun demoConfig demoWritten initSys) 0) = sent \<and>
     cn_inflight (sy_conn (honestRun demoConfig demoWritten initSys) 0) = sent \<and> sent = [0]"
proof -
  let ?s = "honestRun demoConfig demoWritten initSys"
  have "\<not> cn_closed (sy_conn ?s 0)" "cn_answered (sy_conn ?s 0) = []" "cn_log (sy_conn ?s 0) = [0]"
    "tailOf (sy_stacks ?s (Writer 0)) = []"
    by code_simp+
  then show ?thesis using pipeline_order [OF honestly_run, of demoConfig demoWritten 0 0] by auto
qed



section \<open>Sockets\<close>

text \<open>
  C6: commands never interleave on a socket. In every state a pool can get into, the bytes
  a connection's socket took are the whole commands of its log, one behind the other, and
  possibly one command cut off behind them; a cut-off command means that the connection is
  closed or that its writer is on its way to close it without writing again.
\<close>

theorem wire_framing:
  assumes "reachable cfg s"
  shows "\<exists>rest. cn_wire (sy_conn s c) =
      concat (map (\<lambda>r. rq_payload (sy_req s r)) (cn_log (sy_conn s c))) @ rest \<and>
    (rest = [] \<or> (\<exists>r < sy_nextReq s. strict_prefix rest (rq_payload (sy_req s r))) \<and> spoiled s c)"
proof -
  have "framedConn s c" using reachable_framed [OF assms] unfolding framed_def by blast
  then show ?thesis by (simp add: framedConn_def commandBytes_def cutOff_def)
qed

theorem wire_framing_witness:
  "cn_wire (sy_conn (occurs demoConfig demoCut initSys) 0) = ''m'' \<and>
   spoiled (occurs demoConfig demoCut initSys) 0"
proof -
  have "cn_wire (sy_conn (occurs demoConfig demoCut initSys) 0) = ''m''"
    and "cn_log (sy_conn (occurs demoConfig demoCut initSys) 0) = []"
    by code_simp+
  with wire_framing [OF reachable_run, of demoConfig demoCut 0] show ?thesis by auto
qed

section \<open>The pool\<close>

text \<open>
  C38: a pool keeps at most the configured number of connections (and one where the
  configuration allows none), all different; and a closed pool keeps none, and dials none
  again.
\<close>

theorem pool_bound:
  assumes "reachable cfg s"
  shows "int (length (sy_conns s)) \<le> max 1 (cfg_maxConns cfg) \<and> distinct (sy_conns s) \<and>
    (sy_closed s \<longrightarrow> sy_conns (occurs cfg es s) = [])"
proof -
  have "sy_closed s \<Longrightarrow> sy_closed (occurs cfg es s)" by (rule closed_occurs)
  moreover have "pooled cfg (occurs cfg es s)" by (rule reachable_pooled [OF reachable_occurs [OF assms]])
  ultimately show ?thesis using reachable_pooled [OF assms] by (auto simp: pooled_def)
qed

definition demoClosed :: "event list" where
  "demoClosed = demoQueued @ CloseClient # ticks Closer 2"

theorem pool_bound_witness:
  "sy_conns (occurs demoConfig demoClosed initSys) = [] \<and>
   length (sy_conns (occurs demoConfig demoQueued initSys)) \<le> 1"
proof -
  have "sy_closed (occurs demoConfig demoClosed initSys)" by code_simp
  then have "sy_conns (occurs demoConfig demoClosed initSys) = []"
    using pool_bound [OF reachable_run, of demoConfig demoClosed "[]"] by simp
  moreover have "cfg_maxConns demoConfig = 1" by code_simp
  ultimately show ?thesis using pool_bound [OF reachable_run, of demoConfig demoQueued "[]"] by simp
qed

text \<open>
  C39: a closed pool takes no more work. A call that begins after the pool was closed fails
  with \<open>ErrClosed\<close> and zero bytes, whatever else happens, and no socket ever takes a byte
  of its command.
\<close>

theorem closed_refuses:
  assumes "reachable cfg s" and "sy_closed s"
  shows "let q = sy_req (occurs cfg (Begin payload stop deadline now # es) s) (sy_nextReq s)
    in rq_sent q = 0 \<and> (rq_result q = None \<or> rq_result q = Some ([], 0, Some ErrClosed))"
proof -
  let ?s = "occur cfg (Begin payload stop deadline now) s"
  have reach: "reachable cfg ?s" by (rule reachable_step [OF assms(1)])
  have "refused (sy_nextReq s) ?s"
    using assms(2) by (simp add: refused_def beginExchange_def Let_def newRequest_def)
  then have "refused (sy_nextReq s) (occurs cfg es ?s)" by (rule refused_occurs [OF reach])
  with refused_unsent [OF reachable_occurs [OF reach] this] show ?thesis
    by (auto simp: refused_def Let_def)
qed

theorem closed_refuses_witness:
  "rq_sent (sy_req (occurs demoConfig (demoClosed @ Begin ''mn'' (\<lambda>_. True) None 0 # ticks (Caller 1) 1) initSys) 1) = 0"
proof -
  have "sy_closed (occurs demoConfig demoClosed initSys)" "sy_nextReq (occurs demoConfig demoClosed initSys) = 1"
    by code_simp+
  with closed_refuses [OF reachable_run, of demoConfig demoClosed "''mn''" "\<lambda>_. True" None 0 "ticks (Caller 1) 1"]
  show ?thesis by (simp add: Let_def)
qed

text \<open>
  C40: the choice of a connection. A request is given the first of the least loaded among
  the open connections that have not idled for too long, unless there is none, or all of
  them have commands outstanding and the cap allows another one: then it is given a newly
  dialed one. The connections passed over are forgotten, the idle ones among them closed.
\<close>

theorem pick_least_loaded:
  "case pickLocked cfg now s of (c, s') \<Rightarrow>
     (if dials cfg now s
      then c = sy_nextConn s \<and> sy_conns s' = reusables cfg now s @ [c] \<and> sy_stacks s' (Writer c) = [Run]
      else leastLoaded (loadOf s) (reusables cfg now s) = Some c \<and> sy_conns s' = reusables cfg now s \<and>
        sy_stacks s' = sy_stacks s) \<and>
     sy_conn s' = (\<lambda>d. if dials cfg now s \<and> d = c then freshConn now
       else if d \<in> set (sy_conns s) \<and> \<not> cn_closed (sy_conn s d) \<and> \<not> reusable cfg now (sy_conn s d)
         then retire (sy_conn s d) else sy_conn s d)"
proof (cases "dials cfg now s")
  case True
  then show ?thesis by (simp add: pickLocked_picks Let_def newConn_def pickScan_conns fun_eq_iff)
next
  case False
  then have "reusables cfg now s \<noteq> []" by (auto simp: dials_def)
  then obtain c where "leastLoaded (loadOf s) (reusables cfg now s) = Some c"
    using leastLoaded_None [of "loadOf s" "reusables cfg now s"] by fastforce
  with False show ?thesis by (simp add: pickLocked_picks Let_def pickScan_conns fun_eq_iff)
qed

end
