(* ===== verification/Transport_Runs.thy ===== *)
theory Transport_Runs
  imports Transport_Properties
begin

text \<open>
  Three schedules of the transport that end where its authors did not mean to go. Each is a
  run of the model, evaluated step by step; in the first and the last the server is honest.
\<close>

definition tinyConfig :: "(unit, bytes) config" where
  "tinyConfig = demoConfig\<lparr>cfg_maxItemSize := 0\<rparr>"

text \<open>
  A connection is picked for a request and torn down before the request is added to it: the
  request is queued on a connection whose goroutines are gone. Nobody will settle it or move
  it to another connection; only its caller's context can end the call.
\<close>

definition closedWhilePicked :: "event list" where
  "closedWhilePicked = demoWritten @ ticks (Writer 0) 1 @
    Begin ''mn'' (\<lambda>_. True) None 0 # ticks (Caller 1) 1 @ ticks (Reader 0) 4 @
    ticks (Caller 1) 2 @ ticks (Reader 0) 3 @ ticks (Caller 0) 1 @ ticks (Writer 0) 3"

theorem request_stranded:
  "let s = occurs tinyConfig closedWhilePicked initSys in
     rq_state (sy_req s 1) = RequestQueued \<and> cn_pending (sy_conn s 0) = [1] \<and> cn_closed (sy_conn s 0) \<and>
     sy_stacks s (Writer 0) = [] \<and> sy_stacks s (Reader 0) = [] \<and> sy_conns s = []"
  by code_simp

text \<open>
  A server answers while the command is still being written, and the write then fails: the
  list of commands in flight is already shorter than the tail the writer cuts off it.
\<close>

definition unaskedReply :: "event list" where
  "unaskedReply = demoQueued @ Step (Reader 0) (calmInput\<lparr>in_bytes := ''MN'' @ CRLF\<rparr>) # ticks (Reader 0) 1 @
    Step (Writer 0) (calmInput\<lparr>in_write := [(0, Some NetTimeout)]\<rparr>) # ticks (Writer 0) 1"

theorem unasked_reply_panics:
  "sy_panicked (occurs tinyConfig unaskedReply initSys)"
  by code_simp

text \<open>
  A closing pool, and a server that answers a command between the return of the write and the
  writer's next critical section: the reader closes the connection without a cause, and the
  writer settles the answered command as lost with an error whose text dereferences nil.
\<close>

definition closedAfterReply :: "event list" where
  "closedAfterReply = demoWritten @ CloseClient # ticks Closer 3 @
    Step (Reader 0) (calmInput\<lparr>in_bytes := ''MN'' @ CRLF\<rparr>) # ticks (Reader 0) 1 @ ticks (Writer 0) 2 @ ticks (Caller 0) 1"

theorem answered_but_lost:
  "case rq_result (sy_req (occurs tinyConfig closedAfterReply initSys) 0) of
     Some (rs, n, err) \<Rightarrow> length rs = 1 \<and> n = 2 \<and> err = Some (ConnectionLostError None)
   | None \<Rightarrow> False"
  by code_simp

end
