(* ===== verification/Fetch.thy ===== *)
theory Fetch
  imports Verbs "HOL-Library.AList"
begin

text \<open>
  Reading through the cache: \<open>Fetch\<close> and \<open>FetchMany\<close> of \<open>fetch.go\<close>. A client's goroutines
  share two maps, the loader runs in flight and the keys being refreshed, so this is one
  state and steps of goroutines over it: a step is one exchange, one critical section of the
  mutex, one run of a caller's loader or one passing of a select. What a loader returned and
  which ready case a select takes are the input of the step.
\<close>

section \<open>Plans\<close>

definition fetchLeaseTTL :: duration where
  "fetchLeaseTTL = 30 * time_Second"

definition fetchWaitBackoff :: "duration list" where
  "fetchWaitBackoff = map (\<lambda>ms. ms * 1000000) [25, 50, 100, 200, 400]"

record fetchPlan =
  fp_expiration :: expiration
  fp_window :: duration
  fp_read :: MetaGetOptions

fun applyFetchOptions :: "FetchOption option list \<Rightarrow> callPolicy \<Rightarrow> callPolicy result" where
  "applyFetchOptions [] p = Inr p"
| "applyFetchOptions (None # opts) p = Inl ErrNilOption"
| "applyFetchOptions (Some opt # opts) p = applyFetchOptions opts (applyFetch opt p)"

definition fetchRead_options :: "int \<Rightarrow> duration option \<Rightarrow> MetaGetOptions" where
  "fetchRead_options now ahead = zero_MetaGetOptions\<lparr>mg_ReturnCAS := True,
     mg_VivifyTTL := Some (ExpiresIn now fetchLeaseTTL), mg_RefreshBefore := map_option (ExpiresIn now) ahead\<rparr>"

definition planFetch ::
    "('d, 'v) Client \<Rightarrow> int \<Rightarrow> duration \<Rightarrow> FetchOption option list \<Rightarrow> fetchPlan result" where
  "planFetch c now ttl opts =
     and_then (applyFetchOptions opts (configPolicy (cl_config c))) (\<lambda>policy.
     and_then (resolveTTL now ttl) (\<lambda>expiration.
       case cp_refreshAhead policy of
         None \<Rightarrow> Inr \<lparr>fp_expiration = expiration, fp_window = fetchLeaseTTL, fp_read = fetchRead_options now None\<rparr>
       | Some ahead \<Rightarrow>
           if ahead \<le> 0 then Inl (errorf ''memcache: RefreshAhead must be positive'' [])
           else if ttl > 0 \<and> ahead \<ge> ttl
             then Inl (errorf ''memcache: RefreshAhead (%v) must be shorter than the TTL (%v)'' [FInt ahead, FInt ttl])
           else Inr \<lparr>fp_expiration = expiration, fp_window = ahead, fp_read = fetchRead_options now (Some ahead)\<rparr>))"

section \<open>What a read says\<close>

text \<open>
  The switch of \<open>fetch\<close>, which \<open>fetchMany\<close> repeats for every key: serve the value, perhaps
  with a refresh lease won; compute under a lease; compute without one; or another caller
  holds the lease.
\<close>

datatype verdict = Serve "64 word option" | LeadWith "64 word" | ComputeLocally | HeldElsewhere

definition classify :: "GetResult \<Rightarrow> verdict" where
  "classify r =
     (let cas = md_CAS (gr_Metadata r) in
      if gr_Status r = GetHit \<and> gr_Value r \<noteq> [] then Serve (if gr_Lease r = LeaseGranted then cas else None)
      else if gr_Status r = GetMiss \<and> gr_Lease r = LeaseGranted \<and> cas \<noteq> None then LeadWith (the cas)
      else if gr_Status r = GetHit \<and> gr_Lease r \<noteq> LeaseBusy
        then (case cas of Some t \<Rightarrow> LeadWith t | None \<Rightarrow> ComputeLocally)
      else if gr_Status r = GetMiss then ComputeLocally
      else HeldElsewhere)"

section \<open>Leases\<close>

definition releaseLease :: "'n env \<Rightarrow> ('d, 'v) Client \<Rightarrow> bytes \<Rightarrow> 64 word \<Rightarrow> 'n world \<Rightarrow> 'n world" where
  "releaseLease env c key cas w =
     (let (err, w') = (case buildDelete key (zero_MetaDeleteOptions\<lparr>mdo_CompareCAS := Some cas\<rparr>) of
            Inl e \<Rightarrow> (Some e, w)
          | Inr command \<Rightarrow>
              (case executeMeta env c RootCtx command w of
                 (Inl e, w1) \<Rightarrow> (Some e, w1)
               | (Inr wire, w1) \<Rightarrow> (snd (deleteStatus (raw_Code wire)), w1)))
      in reportError c (map_option (wrapf ''memcache: fetch releasing the lease for %q: %w'' [FStr key]) err) w')"

definition writeBack ::
    "'n env \<Rightarrow> ('d, 'v) Client \<Rightarrow> bytes \<Rightarrow> bytes \<Rightarrow> 64 word \<Rightarrow> expiration \<Rightarrow> 'n world \<Rightarrow> 'n world" where
  "writeBack env c key val cas ttl w =
     (let (err, w') = (case buildSet key val (zero_MetaSetOptions\<lparr>ms_TTL := ttl, ms_CompareCAS := Some cas\<rparr>) of
            Inl e \<Rightarrow> (Some e, w)
          | Inr command \<Rightarrow>
              (case executeMeta env c RootCtx command w of
                 (Inl e, w1) \<Rightarrow> (Some e, w1)
               | (Inr wire, w1) \<Rightarrow>
                   (case storeStatus (raw_Code wire) ModeSet of
                      (status, Some e) \<Rightarrow> (Some e, w1)
                    | (status, None) \<Rightarrow>
                        (if status \<noteq> MutationApplied
                         then Some (errorf ''memcache: fetch write-back of %q abandoned: the entry changed during recomputation''
                           [FStr key]) else None, w1))))
      in reportError c (map_option (wrapf ''memcache: fetch write-back of %q: %w'' [FStr key]) err) w')"

section \<open>Values\<close>

text \<open>
  A byte slice may be nil, which is \<open>None\<close>; a loader's answer is encoded before it is
  stored or shared. A map a loader returned is an association list in the order in which
  the code happens to range over it.
\<close>

type_synonym slice = "bytes option"
type_synonym outcome = "slice \<times> goerr option"

definition sliceBytes :: "slice \<Rightarrow> bytes" where
  "sliceBytes v = (case v of None \<Rightarrow> [] | Some b \<Rightarrow> b)"

definition encodeLoaded :: "('d, 'v) Client \<Rightarrow> 'v goval result \<Rightarrow> outcome" where
  "encodeLoaded c loaded =
     (case and_then loaded (encode c) of Inl e \<Rightarrow> (None, Some e) | Inr b \<Rightarrow> (Some b, None))"

fun encodeAll :: "('d, 'v) Client \<Rightarrow> (bytes \<times> 'v goval) list \<Rightarrow> (bytes \<times> slice) list result" where
  "encodeAll c [] = Inr []"
| "encodeAll c ((key, v) # rest) =
     and_then (encode c v) (\<lambda>data. and_then (encodeAll c rest) (\<lambda>encoded. Inr ((key, Some data) # encoded)))"

definition encodeLoadedMany ::
    "('d, 'v) Client \<Rightarrow> (bytes \<times> 'v goval) list result \<Rightarrow> (bytes \<times> slice) list \<times> goerr option" where
  "encodeLoadedMany c loaded =
     (case and_then loaded (encodeAll c) of Inl e \<Rightarrow> ([], Some e) | Inr encoded \<Rightarrow> (encoded, None))"

text \<open>\<open>loaded[key]\<close>, nil for a key that is not in the map.\<close>

definition slotOf :: "(bytes \<times> slice) list \<Rightarrow> bytes \<Rightarrow> slice" where
  "slotOf loaded key = (case map_of loaded key of None \<Rightarrow> None | Some v \<Rightarrow> v)"

fun uniqueLoop :: "bytes list \<Rightarrow> bytes list \<Rightarrow> bytes list" where
  "uniqueLoop seen [] = []"
| "uniqueLoop seen (key # keys) =
     (if List.member seen key then uniqueLoop seen keys else key # uniqueLoop (key # seen) keys)"

definition uniqueKeys :: "bytes list \<Rightarrow> bytes list" where
  "uniqueKeys keys = uniqueLoop [] keys"

section \<open>The state\<close>

text \<open>
  A flight is one run of a loader that several callers share. A lease is a key with the CAS
  token of the read that won it. A goroutine is what it does next: \<open>AwaitFlight\<close> is a select
  on a flight and the caller's context, \<open>FetchWait\<close> one on a timer and the context; the names
  otherwise follow the functions of the code. A call of \<open>fetchMany\<close> is at a stage of its own,
  with what it has found so far and the keys it still has to compute. Ghosts are the key of a
  flight, and the key an answer is for and where it came from.
\<close>

record flight =
  fl_key :: bytes
  fl_done :: bool
  fl_value :: slice
  fl_err :: "goerr option"

type_synonym lease = "bytes \<times> 64 word"

record fetchCall =
  fc_ctx :: ctx
  fc_key :: bytes
  fc_plan :: fetchPlan
  fc_command :: MetaCommand

record manyCall =
  fm_ctx :: ctx
  fm_keys :: "bytes list"
  fm_plan :: fetchPlan

record tally =
  ta_found :: "(bytes \<times> bytes) list"
  ta_lead :: "lease list"
  ta_refresh :: "lease list"
  ta_local :: "bytes list"

datatype stage =
    ReadKeys "bytes list" nat
  | JoinKeys "bytes list" "bytes list" nat
  | AwaitKey bytes nat "bytes list" "bytes list" nat
  | WaitKeys "bytes list" nat
  | SpawnRefreshMany
  | RunFlights
  | LoadMany "(bytes \<times> nat) list" "(bytes \<times> nat) list"
  | PublishMany "(bytes \<times> nat) list" "(bytes \<times> nat) list" "(bytes \<times> slice) list" "goerr option"
  | CloseFlights "(bytes \<times> nat) list" "(bytes \<times> nat) list" "(bytes \<times> slice) list" "goerr option"
  | Collect "(bytes \<times> nat) list" "(bytes \<times> slice) list" "goerr option"
  | SettleLeads "lease list" "(bytes \<times> slice) list" "goerr option"

datatype source = FromCall | FromRead | FromCache | FromContext | FromFlight nat

datatype job =
    FetchRead fetchCall nat
  | FetchJoin fetchCall nat
  | FetchWait fetchCall nat
  | SpawnRefresh fetchCall "64 word" bytes
  | RunFlight fetchCall "64 word option"
  | AwaitFlight fetchCall nat
  | LoadOne fetchCall "64 word option" nat
  | LeadSettle fetchCall "64 word" nat outcome
  | Publish bytes nat outcome
  | CloseFlight bytes nat outcome
  | Answer bytes "slice result" source
  | RefreshLoad lease expiration
  | RefreshWrite lease bytes expiration
  | RefreshEnd "bytes list"
  | Many manyCall tally stage
  | AnswerMany "bytes list" "(bytes \<times> bytes) list result"
  | RefreshManyLoad "lease list" expiration
  | RefreshManyWrite "lease list" "(bytes \<times> slice) list" "bytes list" expiration

text \<open>
  The client's shared state. A goroutine that has not begun, or has ended, has no job. The
  last three components are ghosts: the leases that reads won, the ones that were repaid, by a
  conditional write or a conditional delete, and what the loader of each flight came to.
\<close>

record 'n fetchSys =
  fs_world :: "'n world"
  fs_flights :: "bytes \<rightharpoonup> nat"
  fs_flight :: "nat \<Rightarrow> flight"
  fs_nextFlight :: nat
  fs_refreshing :: "bytes list"
  fs_job :: "nat \<Rightarrow> job option"
  fs_next :: nat
  fs_granted :: "lease list"
  fs_repaid :: "lease list"
  fs_outcomes :: "(nat \<times> bytes \<times> outcome) list"

definition newFlight :: "bytes \<Rightarrow> flight" where
  "newFlight key = \<lparr>fl_key = key, fl_done = False, fl_value = None, fl_err = None\<rparr>"

definition initFetch :: "'n world \<Rightarrow> 'n fetchSys" where
  "initFetch w = \<lparr>fs_world = w, fs_flights = Map.empty, fs_flight = (\<lambda>_. newFlight []), fs_nextFlight = 0,
     fs_refreshing = [], fs_job = (\<lambda>_. None), fs_next = 0, fs_granted = [], fs_repaid = [], fs_outcomes = []\<rparr>"

text \<open>
  \<open>fi_ctx\<close> says that a select takes the case of the ended context; the loader's answer is the
  caller's, before it is encoded.
\<close>

record 'v fetchInput =
  fi_ctx :: bool
  fi_loaded :: "'v goval result"
  fi_loadedMany :: "(bytes \<times> 'v goval) list result"

text \<open>What a step leads to: the goroutine's next job, the jobs of goroutines it starts, the state.\<close>

type_synonym 'n advance = "(job option \<times> job list \<times> 'n fetchSys) option"

definition goOn :: "job \<Rightarrow> 'n fetchSys \<Rightarrow> 'n advance" where
  "goOn j s = Some (Some j, [], s)"

definition ctxEnded :: "'n env \<Rightarrow> ctx \<Rightarrow> 'n fetchSys \<Rightarrow> goerr option" where
  "ctxEnded env ctx s = env_ctx_err env ctx (w_net (fs_world s))"

section \<open>Fetch\<close>

definition grant :: "lease list \<Rightarrow> 'n fetchSys \<Rightarrow> 'n fetchSys" where
  "grant ls s = s\<lparr>fs_granted := fs_granted s @ ls\<rparr>"

definition repay :: "lease \<Rightarrow> 'n world \<Rightarrow> 'n fetchSys \<Rightarrow> 'n fetchSys" where
  "repay l w s = s\<lparr>fs_world := w, fs_repaid := fs_repaid s @ [l]\<rparr>"

text \<open>The caller gave up: \<open>ctxErr != nil && errors.Is(err, ctxErr)\<close>.\<close>

definition gaveUp :: "'n env \<Rightarrow> ctx \<Rightarrow> goerr \<Rightarrow> 'n world \<Rightarrow> bool" where
  "gaveUp env ctx e w = (case env_ctx_err env ctx (w_net w) of None \<Rightarrow> False | Some ce \<Rightarrow> errors_is e ce)"

definition fetchRead ::
    "'n env \<Rightarrow> ('d, 'v) Client \<Rightarrow> fetchCall \<Rightarrow> nat \<Rightarrow> 'n fetchSys \<Rightarrow> 'n advance" where
  "fetchRead env c call attempt s =
     (case readWire env c (fc_ctx call) (fc_key call) (fp_read (fc_plan call)) (fc_command call) (fs_world s) of
        (Inl e, w) \<Rightarrow>
          if gaveUp env (fc_ctx call) e w then goOn (Answer (fc_key call) (Inl e) FromContext) (s\<lparr>fs_world := w\<rparr>)
          else if cfg_degrade (cl_config c)
            then goOn (RunFlight call None) (s\<lparr>fs_world := reportError c (Some e) w\<rparr>)
          else goOn (Answer (fc_key call) (Inl e) FromRead) (s\<lparr>fs_world := w\<rparr>)
      | (Inr result, w) \<Rightarrow>
          (let s' = s\<lparr>fs_world := w\<rparr> in
           case classify result of
             Serve None \<Rightarrow> goOn (Answer (fc_key call) (Inr (Some (gr_Value result))) FromCache) s'
           | Serve (Some cas) \<Rightarrow> goOn (SpawnRefresh call cas (gr_Value result)) (grant [(fc_key call, cas)] s')
           | LeadWith cas \<Rightarrow> goOn (RunFlight call (Some cas)) (grant [(fc_key call, cas)] s')
           | ComputeLocally \<Rightarrow> goOn (RunFlight call None) s'
           | HeldElsewhere \<Rightarrow> goOn (FetchJoin call attempt) s'))"

text \<open>\<open>joinFlight\<close>'s look at the map, and what \<open>fetch\<close> does when there is no flight to join.\<close>

definition fetchJoin :: "fetchCall \<Rightarrow> nat \<Rightarrow> 'n fetchSys \<Rightarrow> 'n advance" where
  "fetchJoin call attempt s =
     (case fs_flights s (fc_key call) of
        Some f \<Rightarrow> goOn (AwaitFlight call f) s
      | None \<Rightarrow> if attempt \<ge> length fetchWaitBackoff then goOn (RunFlight call None) s
                else goOn (FetchWait call attempt) s)"

definition fetchWait :: "'n env \<Rightarrow> bool \<Rightarrow> fetchCall \<Rightarrow> nat \<Rightarrow> 'n fetchSys \<Rightarrow> 'n advance" where
  "fetchWait env ctxFirst call attempt s =
     (if ctxFirst then (case ctxEnded env (fc_ctx call) s of
        None \<Rightarrow> None | Some ce \<Rightarrow> goOn (Answer (fc_key call) (Inl ce) FromContext) s)
      else goOn (FetchRead call (Suc attempt)) s)"

definition answerOf :: "outcome \<Rightarrow> slice result" where
  "answerOf out = (case snd out of Some e \<Rightarrow> Inl e | None \<Rightarrow> Inr (fst out))"

definition awaitFlight :: "'n env \<Rightarrow> bool \<Rightarrow> fetchCall \<Rightarrow> nat \<Rightarrow> 'n fetchSys \<Rightarrow> 'n advance" where
  "awaitFlight env ctxFirst call f s =
     (let key = fc_key call; flight = fs_flight s f in
      if ctxFirst then (case ctxEnded env (fc_ctx call) s of
          None \<Rightarrow> None | Some ce \<Rightarrow> goOn (Answer key (Inl ce) FromContext) s)
      else if fl_done flight then goOn (Answer key (answerOf (fl_value flight, fl_err flight)) (FromFlight f)) s
      else None)"

text \<open>\<open>runFlight\<close>: register a flight, or wait for the one there is.\<close>

definition runFlight :: "fetchCall \<Rightarrow> 64 word option \<Rightarrow> 'n fetchSys \<Rightarrow> 'n advance" where
  "runFlight call cas s =
     (case fs_flights s (fc_key call) of
        Some f \<Rightarrow> goOn (AwaitFlight call f) s
      | None \<Rightarrow>
          let f = fs_nextFlight s
          in goOn (LoadOne call cas f)
               (s\<lparr>fs_flights := (fs_flights s)(fc_key call \<mapsto> f), fs_nextFlight := Suc f,
                  fs_flight := (fs_flight s)(f := newFlight (fc_key call))\<rparr>))"

text \<open>The load of \<open>leadLoad\<close> ends with repaying the lease, that of \<open>localCompute\<close> does not.\<close>

definition loadOne :: "outcome \<Rightarrow> fetchCall \<Rightarrow> 64 word option \<Rightarrow> nat \<Rightarrow> 'n fetchSys \<Rightarrow> 'n advance" where
  "loadOne out call cas f s =
     goOn (case cas of None \<Rightarrow> Publish (fc_key call) f out | Some t \<Rightarrow> LeadSettle call t f out)
       (s\<lparr>fs_outcomes := fs_outcomes s @ [(f, fc_key call, out)]\<rparr>)"

abbreviation emptyValue :: "bytes \<Rightarrow> goerr" where
  "emptyValue key \<equiv> errorf ''memcache: fetch loader for %q returned an empty value, which cannot be cached'' [FStr key]"

definition leadSettle ::
    "'n env \<Rightarrow> ('d, 'v) Client \<Rightarrow> fetchCall \<Rightarrow> 64 word \<Rightarrow> nat \<Rightarrow> outcome \<Rightarrow> 'n fetchSys \<Rightarrow> 'n advance" where
  "leadSettle env c call cas f out s =
     (let key = fc_key call;
          w = (case out of
                 (val, Some e) \<Rightarrow> releaseLease env c key cas (fs_world s)
               | (val, None) \<Rightarrow>
                   if sliceBytes val = []
                   then releaseLease env c key cas (reportError c (Some (emptyValue key)) (fs_world s))
                   else writeBack env c key (sliceBytes val) cas (fp_expiration (fc_plan call)) (fs_world s))
      in goOn (Publish key f out) (repay (key, cas) w s))"

definition publish :: "bytes \<Rightarrow> nat \<Rightarrow> outcome \<Rightarrow> 'n fetchSys \<Rightarrow> 'n advance" where
  "publish key f out s =
     goOn (CloseFlight key f out)
       (s\<lparr>fs_flight := (fs_flight s)(f := (fs_flight s f)\<lparr>fl_value := fst out, fl_err := snd out\<rparr>),
          fs_flights := (fs_flights s)(key := None)\<rparr>)"

definition closeFlights :: "nat list \<Rightarrow> 'n fetchSys \<Rightarrow> 'n fetchSys" where
  "closeFlights fs s = s\<lparr>fs_flight := (\<lambda>f. if List.member fs f then (fs_flight s f)\<lparr>fl_done := True\<rparr> else fs_flight s f)\<rparr>"

section \<open>Background refresh\<close>

definition spawnRefresh ::
    "'n env \<Rightarrow> fetchCall \<Rightarrow> 64 word \<Rightarrow> bytes \<Rightarrow> 'n fetchSys \<Rightarrow> 'n advance" where
  "spawnRefresh env call cas val s =
     (if List.member (fs_refreshing s) (fc_key call) \<or> ctxEnded env RootCtx s \<noteq> None
      then goOn (Answer (fc_key call) (Inr (Some val)) FromCache) s
      else Some (Some (Answer (fc_key call) (Inr (Some val)) FromCache),
                 [RefreshLoad (fc_key call, cas) (fp_expiration (fc_plan call))],
                 s\<lparr>fs_refreshing := fc_key call # fs_refreshing s\<rparr>))"

definition refreshLoad ::
    "('d, 'v) Client \<Rightarrow> outcome \<Rightarrow> lease \<Rightarrow> expiration \<Rightarrow> 'n fetchSys \<Rightarrow> 'n advance" where
  "refreshLoad c out l ttl s =
     (let key = fst l in
      case out of
        (val, Some e) \<Rightarrow>
          goOn (RefreshEnd [key]) (s\<lparr>fs_world := reportError c
            (Some (wrapf ''memcache: fetch background refresh of %q: %w'' [FStr key] e)) (fs_world s)\<rparr>)
      | (val, None) \<Rightarrow>
          if sliceBytes val = []
          then goOn (RefreshEnd [key]) (s\<lparr>fs_world := reportError c (Some (emptyValue key)) (fs_world s)\<rparr>)
          else goOn (RefreshWrite l (sliceBytes val) ttl) s)"

definition refreshWrite ::
    "'n env \<Rightarrow> ('d, 'v) Client \<Rightarrow> lease \<Rightarrow> bytes \<Rightarrow> expiration \<Rightarrow> 'n fetchSys \<Rightarrow> 'n advance" where
  "refreshWrite env c l val ttl s =
     goOn (RefreshEnd [fst l]) (repay l (writeBack env c (fst l) val (snd l) ttl (fs_world s)) s)"

definition refreshEnd :: "bytes list \<Rightarrow> 'n fetchSys \<Rightarrow> 'n advance" where
  "refreshEnd keys s =
     Some (None, [], s\<lparr>fs_refreshing := filter (\<lambda>k. \<not> List.member keys k) (fs_refreshing s)\<rparr>)"

section \<open>FetchMany\<close>

text \<open>
  The loop over the results of a batch: the leases won, the values found, the keys to compute
  without a lease, and the ones held elsewhere; or the error that ends the call. \<open>nilResult\<close>
  marks the dereference of a nil \<open>Get\<close>, which a batch of reads never returns.
\<close>

abbreviation nilResult :: goerr where
  "nilResult \<equiv> EnvError ''nil pointer dereference''"

fun triage ::
    "'n env \<Rightarrow> ('d, 'v) Client \<Rightarrow> ctx \<Rightarrow> (bytes \<times> OperationResult) list \<Rightarrow> tally \<Rightarrow> bytes list \<Rightarrow> 'n world \<Rightarrow>
       (tally \<times> bytes list \<times> goerr option) \<times> 'n world" where
  "triage env c ctx [] ta busy w = ((ta, busy, None), w)"
| "triage env c ctx ((key, result) # rest) ta busy w =
     (case or_Err result of
        Some e \<Rightarrow>
          if gaveUp env ctx e w then ((ta, busy, Some e), w)
          else if cfg_degrade (cl_config c)
            then triage env c ctx rest (ta\<lparr>ta_local := ta_local ta @ [key]\<rparr>) busy (reportError c (Some e) w)
          else ((ta, busy, Some e), w)
      | None \<Rightarrow>
          (case or_Get result of
             None \<Rightarrow> ((ta, busy, Some nilResult), w)
           | Some r \<Rightarrow>
               (case classify r of
                  Serve won \<Rightarrow>
                    triage env c ctx rest
                      (ta\<lparr>ta_found := AList.update key (gr_Value r) (ta_found ta),
                         ta_refresh := ta_refresh ta @ (case won of None \<Rightarrow> [] | Some cas \<Rightarrow> [(key, cas)])\<rparr>) busy w
                | LeadWith cas \<Rightarrow> triage env c ctx rest (ta\<lparr>ta_lead := ta_lead ta @ [(key, cas)]\<rparr>) busy w
                | ComputeLocally \<Rightarrow> triage env c ctx rest (ta\<lparr>ta_local := ta_local ta @ [key]\<rparr>) busy w
                | HeldElsewhere \<Rightarrow> triage env c ctx rest ta (busy @ [key]) w)))"

definition won :: "tally \<Rightarrow> tally \<Rightarrow> lease list" where
  "won ta ta' = drop (length (ta_lead ta)) (ta_lead ta') @ drop (length (ta_refresh ta)) (ta_refresh ta')"

definition readKeys ::
    "'n env \<Rightarrow> ('d, 'v) Client \<Rightarrow> manyCall \<Rightarrow> tally \<Rightarrow> bytes list \<Rightarrow> nat \<Rightarrow> 'n fetchSys \<Rightarrow> 'n advance" where
  "readKeys env c call ta pending attempt s =
     (case batch env c (fm_ctx call) (map (\<lambda>key. Struct (GetOperation key (fp_read (fm_plan call)))) pending)
             (fs_world s) of
        (Inl e, w) \<Rightarrow> goOn (AnswerMany (fm_keys call) (Inl e)) (s\<lparr>fs_world := w\<rparr>)
      | (Inr results, w) \<Rightarrow>
          (case triage env c (fm_ctx call) (zip pending results) ta [] w of
             ((ta', busy, err), w') \<Rightarrow>
               (let s' = grant (won ta ta') (s\<lparr>fs_world := w'\<rparr>) in
                case err of
                  Some e \<Rightarrow> goOn (AnswerMany (fm_keys call) (Inl e)) s'
                | None \<Rightarrow> if busy = [] then goOn (Many call ta' SpawnRefreshMany) s'
                          else goOn (Many call ta' (JoinKeys busy [] attempt)) s')))"

definition joinKeys ::
    "manyCall \<Rightarrow> tally \<Rightarrow> bytes list \<Rightarrow> bytes list \<Rightarrow> nat \<Rightarrow> 'n fetchSys \<Rightarrow> 'n advance" where
  "joinKeys call ta busy remaining attempt s =
     (case busy of
        key # rest \<Rightarrow>
          (case fs_flights s key of
             None \<Rightarrow> goOn (Many call ta (JoinKeys rest (remaining @ [key]) attempt)) s
           | Some f \<Rightarrow> goOn (Many call ta (AwaitKey key f rest remaining attempt)) s)
      | [] \<Rightarrow>
          if remaining = [] then goOn (Many call ta SpawnRefreshMany) s
          else if attempt \<ge> length fetchWaitBackoff
            then goOn (Many call (ta\<lparr>ta_local := ta_local ta @ remaining\<rparr>) SpawnRefreshMany) s
          else goOn (Many call ta (WaitKeys remaining attempt)) s)"

definition awaitKey ::
    "'n env \<Rightarrow> bool \<Rightarrow> manyCall \<Rightarrow> tally \<Rightarrow> bytes \<Rightarrow> nat \<Rightarrow> bytes list \<Rightarrow> bytes list \<Rightarrow> nat \<Rightarrow> 'n fetchSys \<Rightarrow> 'n advance" where
  "awaitKey env ctxFirst call ta key f busy remaining attempt s =
     (if ctxFirst
      then (case ctxEnded env (fm_ctx call) s of None \<Rightarrow> None | Some ce \<Rightarrow> goOn (AnswerMany (fm_keys call) (Inl ce)) s)
      else if \<not> fl_done (fs_flight s f) then None
      else (case fl_err (fs_flight s f) of
          Some e \<Rightarrow> goOn (AnswerMany (fm_keys call) (Inl e)) s
        | None \<Rightarrow>
            let val = sliceBytes (fl_value (fs_flight s f));
                ta' = (if val = [] then ta else ta\<lparr>ta_found := AList.update key val (ta_found ta)\<rparr>)
            in goOn (Many call ta' (JoinKeys busy remaining attempt)) s))"

definition waitKeys ::
    "'n env \<Rightarrow> bool \<Rightarrow> manyCall \<Rightarrow> tally \<Rightarrow> bytes list \<Rightarrow> nat \<Rightarrow> 'n fetchSys \<Rightarrow> 'n advance" where
  "waitKeys env ctxFirst call ta remaining attempt s =
     (if ctxFirst
      then (case ctxEnded env (fm_ctx call) s of None \<Rightarrow> None | Some ce \<Rightarrow> goOn (AnswerMany (fm_keys call) (Inl ce)) s)
      else goOn (Many call ta (ReadKeys remaining (Suc attempt))) s)"

text \<open>\<open>spawnRefreshMany\<close>: the leases whose key no refresh is active for.\<close>

fun mineOf :: "bytes list \<Rightarrow> lease list \<Rightarrow> lease list" where
  "mineOf active [] = []"
| "mineOf active (holder # holders) =
     (if List.member active (fst holder) then mineOf active holders
      else holder # mineOf (fst holder # active) holders)"

definition afterRefresh :: "manyCall \<Rightarrow> tally \<Rightarrow> job" where
  "afterRefresh call ta =
     (if ta_lead ta = [] \<and> ta_local ta = [] then AnswerMany (fm_keys call) (Inr (ta_found ta)) else Many call ta RunFlights)"

definition spawnRefreshMany :: "'n env \<Rightarrow> manyCall \<Rightarrow> tally \<Rightarrow> 'n fetchSys \<Rightarrow> 'n advance" where
  "spawnRefreshMany env call ta s =
     (let mine = (if ctxEnded env RootCtx s \<noteq> None then [] else mineOf (fs_refreshing s) (ta_refresh ta)) in
      if mine = [] then goOn (afterRefresh call ta) s
      else Some (Some (afterRefresh call ta), [RefreshManyLoad mine (fp_expiration (fm_plan call))],
                 s\<lparr>fs_refreshing := map fst mine @ fs_refreshing s\<rparr>))"

text \<open>The critical section of \<open>runFlights\<close>: the flights joined and the ones registered.\<close>

fun registerAll ::
    "bytes list \<Rightarrow> (bytes \<times> nat) list \<Rightarrow> (bytes \<times> nat) list \<Rightarrow> 'n fetchSys \<Rightarrow>
       (bytes \<times> nat) list \<times> (bytes \<times> nat) list \<times> 'n fetchSys" where
  "registerAll [] own joins s = (own, joins, s)"
| "registerAll (key # keys) own joins s =
     (case fs_flights s key of
        Some f \<Rightarrow> registerAll keys own (joins @ [(key, f)]) s
      | None \<Rightarrow>
          let f = fs_nextFlight s
          in registerAll keys (own @ [(key, f)]) joins
               (s\<lparr>fs_flights := (fs_flights s)(key \<mapsto> f), fs_nextFlight := Suc f,
                  fs_flight := (fs_flight s)(f := newFlight key)\<rparr>))"

definition runFlights :: "manyCall \<Rightarrow> tally \<Rightarrow> 'n fetchSys \<Rightarrow> 'n advance" where
  "runFlights call ta s =
     (case registerAll (map fst (ta_lead ta) @ ta_local ta) [] [] s of
        (own, joins, s') \<Rightarrow>
          goOn (Many call ta (if own = [] then Collect joins [] None else LoadMany own joins)) s')"

definition publishMany ::
    "manyCall \<Rightarrow> tally \<Rightarrow> (bytes \<times> nat) list \<Rightarrow> (bytes \<times> nat) list \<Rightarrow> (bytes \<times> slice) list \<Rightarrow> goerr option \<Rightarrow>
       'n fetchSys \<Rightarrow> 'n advance" where
  "publishMany call ta own joins loaded err s =
     goOn (Many call ta (CloseFlights own joins loaded err))
       (s\<lparr>fs_flight := fold (\<lambda>(key, f) fs. fs(f := (fs f)\<lparr>fl_value := slotOf loaded key, fl_err := err\<rparr>)) own (fs_flight s),
          fs_flights := (\<lambda>k. if List.member (map fst own) k then None else fs_flights s k)\<rparr>)"

text \<open>The values of the keys of this call that its loader returned.\<close>

definition ownValues :: "(bytes \<times> nat) list \<Rightarrow> (bytes \<times> slice) list \<Rightarrow> (bytes \<times> slice) list" where
  "ownValues own loaded =
     concat (map (\<lambda>(key, f). case map_of loaded key of None \<Rightarrow> [] | Some v \<Rightarrow> [(key, v)]) own)"

definition collect ::
    "'n env \<Rightarrow> bool \<Rightarrow> manyCall \<Rightarrow> tally \<Rightarrow> (bytes \<times> nat) list \<Rightarrow> (bytes \<times> slice) list \<Rightarrow> goerr option \<Rightarrow>
       'n fetchSys \<Rightarrow> 'n advance" where
  "collect env ctxFirst call ta joins values firstErr s =
     (case joins of
        [] \<Rightarrow> goOn (Many call ta (SettleLeads (ta_lead ta) values firstErr)) s
      | (key, f) # rest \<Rightarrow>
          if ctxFirst
          then (case ctxEnded env (fm_ctx call) s of
                  None \<Rightarrow> None | Some ce \<Rightarrow> goOn (Many call ta (SettleLeads (ta_lead ta) [] (Some ce))) s)
          else if \<not> fl_done (fs_flight s f) then None
          else (case fl_err (fs_flight s f) of
              Some e \<Rightarrow> goOn (Many call ta (Collect rest values (if firstErr = None then Some e else firstErr))) s
            | None \<Rightarrow> goOn (Many call ta
                (Collect rest (AList.update key (fl_value (fs_flight s f)) values) firstErr)) s))"

definition mergeFound :: "(bytes \<times> bytes) list \<Rightarrow> (bytes \<times> slice) list \<Rightarrow> (bytes \<times> bytes) list" where
  "mergeFound found computed =
     fold (\<lambda>(key, v) acc. if sliceBytes v = [] then acc else AList.update key (sliceBytes v) acc) computed found"

definition settleLeads ::
    "'n env \<Rightarrow> ('d, 'v) Client \<Rightarrow> manyCall \<Rightarrow> tally \<Rightarrow> lease list \<Rightarrow> (bytes \<times> slice) list \<Rightarrow> goerr option \<Rightarrow>
       'n fetchSys \<Rightarrow> 'n advance" where
  "settleLeads env c call ta leads computed err s =
     (case leads of
        [] \<Rightarrow> goOn (AnswerMany (fm_keys call) (case err of Some e \<Rightarrow> Inl e | None \<Rightarrow> Inr (mergeFound (ta_found ta) computed))) s
      | (key, cas) # rest \<Rightarrow>
          let val = slotOf computed key;
              w = (if err = None \<and> sliceBytes val \<noteq> []
                   then writeBack env c key (sliceBytes val) cas (fp_expiration (fm_plan call)) (fs_world s)
                   else releaseLease env c key cas
                     (if err = None \<and> val \<noteq> None then reportError c (Some (emptyValue key)) (fs_world s)
                      else fs_world s))
          in goOn (Many call ta (SettleLeads rest computed err)) (repay (key, cas) w s))"

definition refreshManyLoad ::
    "('d, 'v) Client \<Rightarrow> (bytes \<times> slice) list \<times> goerr option \<Rightarrow> lease list \<Rightarrow> expiration \<Rightarrow> 'n fetchSys \<Rightarrow> 'n advance" where
  "refreshManyLoad c out mine ttl s =
     (case out of
        (values, Some e) \<Rightarrow>
          goOn (RefreshEnd (map fst mine)) (s\<lparr>fs_world := reportError c
            (Some (wrapf ''memcache: fetch background refresh of %d keys: %w'' [FInt (int (length mine))] e)) (fs_world s)\<rparr>)
      | (values, None) \<Rightarrow> goOn (RefreshManyWrite mine values (map fst mine) ttl) s)"

definition refreshManyWrite ::
    "'n env \<Rightarrow> ('d, 'v) Client \<Rightarrow> lease list \<Rightarrow> (bytes \<times> slice) list \<Rightarrow> bytes list \<Rightarrow> expiration \<Rightarrow>
       'n fetchSys \<Rightarrow> 'n advance" where
  "refreshManyWrite env c mine values keys ttl s =
     (case mine of
        [] \<Rightarrow> goOn (RefreshEnd keys) s
      | (key, cas) # rest \<Rightarrow>
          let val = sliceBytes (slotOf values key) in
          if val = []
          then goOn (RefreshManyWrite rest values keys ttl) (s\<lparr>fs_world := reportError c
            (Some (errorf ''memcache: fetch background refresh of %q produced no value, which cannot be cached'' [FStr key]))
            (fs_world s)\<rparr>)
          else goOn (RefreshManyWrite rest values keys ttl)
            (repay (key, cas) (writeBack env c key val cas ttl (fs_world s)) s))"

section \<open>Steps\<close>

fun stageStep ::
    "'n env \<Rightarrow> ('d, 'v) Client \<Rightarrow> 'v fetchInput \<Rightarrow> manyCall \<Rightarrow> tally \<Rightarrow> stage \<Rightarrow> 'n fetchSys \<Rightarrow> 'n advance" where
  "stageStep env c inp call ta (ReadKeys pending attempt) s = readKeys env c call ta pending attempt s"
| "stageStep env c inp call ta (JoinKeys busy remaining attempt) s = joinKeys call ta busy remaining attempt s"
| "stageStep env c inp call ta (AwaitKey key f busy remaining attempt) s =
     awaitKey env (fi_ctx inp) call ta key f busy remaining attempt s"
| "stageStep env c inp call ta (WaitKeys remaining attempt) s = waitKeys env (fi_ctx inp) call ta remaining attempt s"
| "stageStep env c inp call ta SpawnRefreshMany s = spawnRefreshMany env call ta s"
| "stageStep env c inp call ta RunFlights s = runFlights call ta s"
| "stageStep env c inp call ta (LoadMany own joins) s =
     (case encodeLoadedMany c (fi_loadedMany inp) of
        (loaded, err) \<Rightarrow>
          goOn (Many call ta (PublishMany own joins loaded err))
            (s\<lparr>fs_outcomes := fs_outcomes s @ map (\<lambda>(key, f). (f, key, slotOf loaded key, err)) own\<rparr>))"
| "stageStep env c inp call ta (PublishMany own joins loaded err) s = publishMany call ta own joins loaded err s"
| "stageStep env c inp call ta (CloseFlights own joins loaded err) s =
     goOn (Many call ta (Collect joins (ownValues own loaded) err)) (closeFlights (map snd own) s)"
| "stageStep env c inp call ta (Collect joins values firstErr) s =
     collect env (fi_ctx inp) call ta joins values firstErr s"
| "stageStep env c inp call ta (SettleLeads leads computed err) s = settleLeads env c call ta leads computed err s"

fun jobStep ::
    "'n env \<Rightarrow> ('d, 'v) Client \<Rightarrow> 'v fetchInput \<Rightarrow> job \<Rightarrow> 'n fetchSys \<Rightarrow> 'n advance" where
  "jobStep env c inp (FetchRead call attempt) s = fetchRead env c call attempt s"
| "jobStep env c inp (FetchJoin call attempt) s = fetchJoin call attempt s"
| "jobStep env c inp (FetchWait call attempt) s = fetchWait env (fi_ctx inp) call attempt s"
| "jobStep env c inp (SpawnRefresh call cas val) s = spawnRefresh env call cas val s"
| "jobStep env c inp (RunFlight call cas) s = runFlight call cas s"
| "jobStep env c inp (AwaitFlight call f) s = awaitFlight env (fi_ctx inp) call f s"
| "jobStep env c inp (LoadOne call cas f) s = loadOne (encodeLoaded c (fi_loaded inp)) call cas f s"
| "jobStep env c inp (LeadSettle call cas f out) s = leadSettle env c call cas f out s"
| "jobStep env c inp (Publish key f out) s = publish key f out s"
| "jobStep env c inp (CloseFlight key f out) s =
     goOn (Answer key (answerOf out) (FromFlight f)) (closeFlights [f] s)"
| "jobStep env c inp (RefreshLoad l ttl) s = refreshLoad c (encodeLoaded c (fi_loaded inp)) l ttl s"
| "jobStep env c inp (RefreshWrite l val ttl) s = refreshWrite env c l val ttl s"
| "jobStep env c inp (RefreshEnd keys) s = refreshEnd keys s"
| "jobStep env c inp (Many call ta stage) s = stageStep env c inp call ta stage s"
| "jobStep env c inp (RefreshManyLoad mine ttl) s =
     refreshManyLoad c (encodeLoadedMany c (fi_loadedMany inp)) mine ttl s"
| "jobStep env c inp (RefreshManyWrite mine values keys ttl) s = refreshManyWrite env c mine values keys ttl s"
| "jobStep env c inp (Answer key out src) s = None"
| "jobStep env c inp (AnswerMany keys out) s = None"

fun start :: "job list \<Rightarrow> 'n fetchSys \<Rightarrow> 'n fetchSys" where
  "start [] s = s"
| "start (j # jobs) s = start jobs (s\<lparr>fs_job := (fs_job s)(fs_next s \<mapsto> j), fs_next := Suc (fs_next s)\<rparr>)"

definition fetchStep ::
    "'n env \<Rightarrow> ('d, 'v) Client \<Rightarrow> nat \<Rightarrow> 'v fetchInput \<Rightarrow> 'n fetchSys \<Rightarrow> 'n fetchSys" where
  "fetchStep env c g inp s =
     (case fs_job s g of
        None \<Rightarrow> s
      | Some j \<Rightarrow>
          (case jobStep env c inp j s of
             None \<Rightarrow> s
           | Some (next_job, jobs, s') \<Rightarrow> start jobs (s'\<lparr>fs_job := (fs_job s')(g := next_job)\<rparr>)))"

section \<open>Calls\<close>

text \<open>
  What \<open>Fetch\<close> and \<open>FetchMany\<close> do before the first read. \<open>FetchMany\<close> of no keys returns at
  once.
\<close>

definition beginFetch ::
    "'n env \<Rightarrow> ('d, 'v) Client \<Rightarrow> ctx \<Rightarrow> bytes \<Rightarrow> duration \<Rightarrow> FetchOption option list \<Rightarrow> bool \<Rightarrow> 'n world \<Rightarrow> job" where
  "beginFetch env c ctx key ttl opts loader w =
     (if \<not> loader then Answer key (Inl (errorf ''memcache: Fetch requires a loader'' [])) FromCall
      else (case planFetch c (now_w env w) ttl opts of
          Inl e \<Rightarrow> Answer key (Inl e) FromCall
        | Inr pl \<Rightarrow>
            (case buildGet key (fp_read pl) of
               Inl e \<Rightarrow> Answer key (Inl e) FromCall
             | Inr command \<Rightarrow>
                 FetchRead \<lparr>fc_ctx = ctx, fc_key = key, fc_plan = pl, fc_command = command\<rparr> 0)))"

definition beginFetchMany ::
    "'n env \<Rightarrow> ('d, 'v) Client \<Rightarrow> ctx \<Rightarrow> bytes list \<Rightarrow> duration \<Rightarrow> FetchOption option list \<Rightarrow> bool \<Rightarrow> 'n world \<Rightarrow> job" where
  "beginFetchMany env c ctx keys ttl opts loader w =
     (if \<not> loader then AnswerMany keys (Inl (errorf ''memcache: FetchMany requires a loader'' []))
      else (case planFetch c (now_w env w) ttl opts of
          Inl e \<Rightarrow> AnswerMany keys (Inl e)
        | Inr pl \<Rightarrow>
            let pending = uniqueKeys keys;
                ta = \<lparr>ta_found = [], ta_lead = [], ta_refresh = [], ta_local = []\<rparr>
            in if pending = [] then AnswerMany keys (Inr [])
               else Many \<lparr>fm_ctx = ctx, fm_keys = keys, fm_plan = pl\<rparr> ta (ReadKeys pending 0)))"

text \<open>What the callers get: the stored form decoded.\<close>

definition decodeFetch :: "('d, 'v) Client \<Rightarrow> bool \<Rightarrow> slice result \<Rightarrow> 'v goval result" where
  "decodeFetch c raw out = and_then out (\<lambda>v. decode c raw (sliceBytes v))"

definition decodeFetchMany ::
    "('d, 'v) Client \<Rightarrow> bool \<Rightarrow> (bytes \<times> bytes) list result \<Rightarrow> (bytes \<times> 'v goval) list \<times> goerr option" where
  "decodeFetchMany c raw out =
     (case out of
        Inl e \<Rightarrow> ([], Some e)
      | Inr found \<Rightarrow>
          fold (\<lambda>(key, data) (got, firstErr).
            (case decode c raw data of
               Inl e \<Rightarrow> (got, if firstErr = None then Some e else firstErr)
             | Inr v \<Rightarrow> (got @ [(key, v)], firstErr))) found ([], None))"

text \<open>
  What happens to the client: a call begins, a goroutine takes a step, or the world outside
  moves on while no goroutine of this client does anything.
\<close>

datatype ('n, 'v) fetchEvent =
    CallFetch ctx bytes duration "FetchOption option list" bool
  | CallFetchMany ctx "bytes list" duration "FetchOption option list" bool
  | Tick nat "'v fetchInput"
  | Outside 'n

fun happen ::
    "'n env \<Rightarrow> ('d, 'v) Client \<Rightarrow> ('n, 'v) fetchEvent \<Rightarrow> 'n fetchSys \<Rightarrow> 'n fetchSys" where
  "happen env c (CallFetch ctx key ttl opts loader) s =
     start [beginFetch env c ctx key ttl opts loader (fs_world s)] s"
| "happen env c (CallFetchMany ctx keys ttl opts loader) s =
     start [beginFetchMany env c ctx keys ttl opts loader (fs_world s)] s"
| "happen env c (Tick g inp) s = fetchStep env c g inp s"
| "happen env c (Outside n) s = s\<lparr>fs_world := (fs_world s)\<lparr>w_net := n\<rparr>\<rparr>"

definition happens ::
    "'n env \<Rightarrow> ('d, 'v) Client \<Rightarrow> ('n, 'v) fetchEvent list \<Rightarrow> 'n fetchSys \<Rightarrow> 'n fetchSys" where
  "happens env c es s = fold (happen env c) es s"

inductive fetchReachable :: "'n env \<Rightarrow> ('d, 'v) Client \<Rightarrow> 'n fetchSys \<Rightarrow> bool" for env c where
  fetchReachable_init: "fetchReachable env c (initFetch w)"
| fetchReachable_happen: "fetchReachable env c s \<Longrightarrow> fetchReachable env c (happen env c e s)"

lemma fetchReachable_happens: "fetchReachable env c s \<Longrightarrow> fetchReachable env c (happens env c es s)"
  by (induction es arbitrary: s) (auto simp: happens_def intro: fetchReachable_happen)

end
