(* ===== verification/Flights.thy ===== *)
theory Flights
  imports Fetch
begin

text \<open>
  Who runs a loader. The map of flights and the set of keys being refreshed are used the same
  way: a goroutine takes a key that is free, keeps it while its loader runs, and gives it back.
  The locale states that way of using a table once, and what follows from it: a key is taken
  exactly while one goroutine holds it.
\<close>

section \<open>Goroutines\<close>

definition jobsOf :: "('j \<Rightarrow> 'a list) \<Rightarrow> 'j option \<Rightarrow> 'a list" where
  "jobsOf f j = (case j of None \<Rightarrow> [] | Some j \<Rightarrow> f j)"

lemma jobsOf_simps [simp]: "jobsOf f None = []" "jobsOf f (Some j) = f j"
  by (simp_all add: jobsOf_def)

definition spawned :: "('j \<Rightarrow> 'a list) \<Rightarrow> 'j list \<Rightarrow> 'a list" where
  "spawned f jobs = concat (map f jobs)"

lemma spawned_simps [simp]: "spawned f [] = []" "spawned f (j # jobs) = f j @ spawned f jobs"
  by (simp_all add: spawned_def)

lemma start_simps [simp]:
  "fs_world (start jobs s) = fs_world s" "fs_flights (start jobs s) = fs_flights s"
  "fs_flight (start jobs s) = fs_flight s" "fs_nextFlight (start jobs s) = fs_nextFlight s"
  "fs_refreshing (start jobs s) = fs_refreshing s" "fs_granted (start jobs s) = fs_granted s"
  "fs_repaid (start jobs s) = fs_repaid s" "fs_outcomes (start jobs s) = fs_outcomes s"
  "fs_next (start jobs s) = fs_next s + length jobs"
  by (induction jobs arbitrary: s) simp_all

lemma start_job:
  "fs_job (start jobs s) g = (if fs_next s \<le> g \<and> g < fs_next s + length jobs
     then Some (jobs ! (g - fs_next s)) else fs_job s g)"
proof (induction jobs arbitrary: s)
  case (Cons j jobs)
  have shift: "fs_next s \<le> g \<Longrightarrow> g \<noteq> fs_next s \<Longrightarrow> (j # jobs) ! (g - fs_next s) = jobs ! (g - Suc (fs_next s))"
    by (simp add: nth_Cons' Suc_diff_Suc)
  show ?case
    by (cases "fs_next s \<le> g \<and> g \<noteq> fs_next s") (auto simp: Cons shift)
qed auto

declare start.simps(2) [simp del]

text \<open>A step changes the job of one goroutine and starts others; nothing else is a job's business.\<close>

lemma fetchStep_cases:
  obtains (idle) "fetchStep env c g inp s = s"
  | (steps) j j' jobs s' where "fs_job s g = Some j" "jobStep env c inp j s = Some (j', jobs, s')"
      "fetchStep env c g inp s = start jobs (s'\<lparr>fs_job := (fs_job s')(g := j')\<rparr>)"
proof (cases "fs_job s g")
  case None
  then show ?thesis using idle by (simp add: fetchStep_def)
next
  case (Some j)
  show ?thesis
  proof (cases "jobStep env c inp j s")
    case None
    then show ?thesis using idle Some by (simp add: fetchStep_def)
  next
    case (Some out)
    obtain j' jobs s' where "out = (j', jobs, s')" by (metis prod_cases3)
    then show ?thesis using steps \<open>fs_job s g = Some j\<close> Some by (simp add: fetchStep_def)
  qed
qed

text \<open>A step leaves the other goroutines alone and starts at most one.\<close>

lemma registerAll_frame:
  "registerAll keys own joins s = (own', joins', s') \<Longrightarrow>
     fs_job s' = fs_job s \<and> fs_next s' = fs_next s \<and> fs_world s' = fs_world s \<and>
     fs_refreshing s' = fs_refreshing s \<and> fs_granted s' = fs_granted s \<and> fs_repaid s' = fs_repaid s \<and>
     fs_outcomes s' = fs_outcomes s"
  by (induction keys own joins s rule: registerAll.induct) (auto simp: Let_def split: option.splits)

lemmas fetch_defs = fetchRead_def fetchJoin_def fetchWait_def spawnRefresh_def runFlight_def awaitFlight_def
  loadOne_def leadSettle_def publish_def closeFlights_def refreshLoad_def refreshWrite_def refreshEnd_def
  refreshManyLoad_def refreshManyWrite_def goOn_def grant_def repay_def Let_def

lemmas stage_defs = readKeys_def joinKeys_def awaitKey_def waitKeys_def spawnRefreshMany_def runFlights_def
  publishMany_def collect_def settleLeads_def afterRefresh_def closeFlights_def goOn_def grant_def repay_def Let_def

lemma stageStep_frame:
  "stageStep env c inp call ta stage s = Some (j', jobs, s') \<Longrightarrow>
     fs_job s' = fs_job s \<and> fs_next s' = fs_next s \<and> length jobs \<le> 1"
  by (cases stage)
    (auto simp: stage_defs dest: registerAll_frame split: if_splits option.splits sum.splits prod.splits list.splits)

lemma jobStep_frame:
  "jobStep env c inp j s = Some (j', jobs, s') \<Longrightarrow>
     fs_job s' = fs_job s \<and> fs_next s' = fs_next s \<and> length jobs \<le> 1"
  by (cases j)
    (auto simp: fetch_defs dest: stageStep_frame
      split: if_splits option.splits sum.splits prod.splits list.splits verdict.splits)

text \<open>What a call begins as, and the induction over what happens to the client.\<close>

inductive begun :: "'n env \<Rightarrow> ('d, 'v) Client \<Rightarrow> 'n world \<Rightarrow> job \<Rightarrow> bool" for env c w where
  begun_one: "begun env c w (beginFetch env c ctx key ttl opts loader w)"
| begun_many: "begun env c w (beginFetchMany env c ctx keys ttl opts loader w)"

lemma reachable_invariant [consumes 1, case_names init begins steps outside]:
  assumes reach: "fetchReachable env c s"
    and init: "\<And>w. P (initFetch w)"
    and begins: "\<And>s j. fetchReachable env c s \<Longrightarrow> P s \<Longrightarrow> begun env c (fs_world s) j \<Longrightarrow> P (start [j] s)"
    and steps: "\<And>s g j inp j' jobs s'. fetchReachable env c s \<Longrightarrow> P s \<Longrightarrow> fs_job s g = Some j \<Longrightarrow>
      jobStep env c inp j s = Some (j', jobs, s') \<Longrightarrow> P (start jobs (s'\<lparr>fs_job := (fs_job s')(g := j')\<rparr>))"
    and outside: "\<And>s n. fetchReachable env c s \<Longrightarrow> P s \<Longrightarrow> P (s\<lparr>fs_world := (fs_world s)\<lparr>w_net := n\<rparr>\<rparr>)"
  shows "P s"
  using reach
proof (induction rule: fetchReachable.induct)
  case (fetchReachable_happen s e)
  show ?case
  proof (cases e)
    case (Tick g inp)
    show ?thesis
      by (cases rule: fetchStep_cases [of env c g inp s])
        (use steps fetchReachable_happen Tick in \<open>metis happen.simps(3)\<close>)+
  next
    case (CallFetch ctx key ttl opts loader)
    then show ?thesis using begins [OF fetchReachable_happen begun_one] by simp
  next
    case (CallFetchMany ctx keys ttl opts loader)
    then show ?thesis using begins [OF fetchReachable_happen begun_many] by simp
  qed (use fetchReachable_happen outside in simp)
qed (rule init)

section \<open>Tables of keys\<close>

definition exclusively :: "(job \<Rightarrow> 'k list) \<Rightarrow> ('n fetchSys \<Rightarrow> 'k \<Rightarrow> bool) \<Rightarrow> 'n fetchSys \<Rightarrow> bool" where
  "exclusively holds taken s \<longleftrightarrow>
     (\<forall>g. distinct (jobsOf holds (fs_job s g))) \<and>
     (\<forall>g h. g \<noteq> h \<longrightarrow> set (jobsOf holds (fs_job s g)) \<inter> set (jobsOf holds (fs_job s h)) = {}) \<and>
     (\<forall>k. taken s k \<longleftrightarrow> (\<exists>g. k \<in> set (jobsOf holds (fs_job s g))))"

text \<open>The jobs of goroutines are below \<open>fs_next\<close>, where new ones are put.\<close>

definition numbered :: "'n fetchSys \<Rightarrow> bool" where
  "numbered s \<longleftrightarrow> (\<forall>g \<ge> fs_next s. fs_job s g = None)"

lemma numbered_step:
  assumes num: "numbered s" and job: "fs_job s g = Some j" and js: "jobStep env c inp j s = Some (j', jobs, s')"
  shows "numbered (start jobs (s'\<lparr>fs_job := (fs_job s')(g := j')\<rparr>))"
proof -
  have "g < fs_next s" using num job unfolding numbered_def by (metis linorder_not_less option.distinct(1))
  then show ?thesis using num jobStep_frame [OF js] by (auto simp: numbered_def start_job)
qed

lemma reachable_numbered: "fetchReachable env c s \<Longrightarrow> numbered s"
proof (induction rule: reachable_invariant)
  case (steps s g j inp j' jobs s')
  then show ?case by (intro numbered_step)
qed (auto simp: numbered_def initFetch_def start_job)

text \<open>A sum over the goroutines, and how a step changes it.\<close>

definition total :: "(job \<Rightarrow> 'a::comm_monoid_add) \<Rightarrow> 'n fetchSys \<Rightarrow> 'a" where
  "total m s = (\<Sum>g < fs_next s. case fs_job s g of None \<Rightarrow> 0 | Some j \<Rightarrow> m j)"

lemma sum_new: "(\<Sum>i = n..<n + length jobs. m (jobs ! (i - n))) = sum_list (map m jobs)"
proof -
  have "(\<Sum>i = n..<n + length jobs. m (jobs ! (i - n))) = (\<Sum>i < length jobs. m (jobs ! i))"
    by (rule sum.reindex_bij_witness [of _ "\<lambda>i. i + n" "\<lambda>h. h - n"]) auto
  then show ?thesis by (simp add: sum_list_sum_nth atLeast0LessThan)
qed

lemma total_start:
  assumes "\<And>h. fs_job u h = ((fs_job s)(g := j')) h" and "fs_next u = fs_next s" and g: "g < fs_next s"
    and job: "fs_job s g = Some j"
  shows "total m (start jobs u) + m j = total m s + (case j' of None \<Rightarrow> 0 | Some i \<Rightarrow> m i) + sum_list (map m jobs)"
proof -
  let ?n = "fs_next s" and ?m = "\<lambda>s h. case fs_job s h of None \<Rightarrow> 0 | Some j \<Rightarrow> m j"
  have "{..<?n + length jobs} = {..<?n} \<union> {?n..<?n + length jobs}" by auto
  moreover have "(\<Sum>h \<in> {..<?n} \<union> {?n..<?n + length jobs}. ?m (start jobs u) h) =
      (\<Sum>h < ?n. ?m (start jobs u) h) + (\<Sum>h = ?n..<?n + length jobs. ?m (start jobs u) h)"
    by (rule sum.union_disjoint) auto
  ultimately have "total m (start jobs u) =
      (\<Sum>h < ?n. ?m (start jobs u) h) + (\<Sum>h = ?n..<?n + length jobs. ?m (start jobs u) h)"
    by (simp add: total_def assms(2))
  moreover have "(\<Sum>h = ?n..<?n + length jobs. ?m (start jobs u) h) = sum_list (map m jobs)"
    unfolding sum_new [symmetric, where n = "fs_next s"] by (rule sum.cong) (auto simp: start_job assms(2))
  moreover have "(\<Sum>h < ?n. ?m (start jobs u) h) =
      (case j' of None \<Rightarrow> 0 | Some i \<Rightarrow> m i) + (\<Sum>h \<in> {..<?n} - {g}. ?m s h)"
    using g by (subst sum.remove [of _ g]) (auto simp: start_job assms(1,2) intro!: arg_cong2 [where f = plus] sum.cong)
  moreover have "total m s = m j + (\<Sum>h \<in> {..<?n} - {g}. ?m s h)"
    unfolding total_def using g job by (subst sum.remove [of _ g]) auto
  ultimately show ?thesis by (simp add: ac_simps)
qed

lemma total_step:
  assumes "numbered s" and job: "fs_job s g = Some j" and js: "jobStep env c inp j s = Some (j', jobs, s')"
  shows "total m (start jobs (s'\<lparr>fs_job := (fs_job s')(g := j')\<rparr>)) + m j =
    total m s + (case j' of None \<Rightarrow> 0 | Some i \<Rightarrow> m i) + sum_list (map m jobs)"
proof (rule total_start)
  show "g < fs_next s" using assms unfolding numbered_def by (metis linorder_not_less option.distinct(1))
qed (use jobStep_frame [OF js] job in simp_all)

lemma total_begin: "total m (start [j] s) = total m s + m j"
  by (simp add: total_def start_job)

locale key_table =
  fixes env :: "'n env" and c :: "('d, 'v) Client"
    and holds :: "job \<Rightarrow> 'k list" and taken :: "'n fetchSys \<Rightarrow> 'k \<Rightarrow> bool"
  assumes step: "fetchReachable env c s \<Longrightarrow> jobStep env c inp j s = Some (j', jobs, s') \<Longrightarrow> distinct (holds j) \<Longrightarrow>
      (\<And>k. k \<in> set (holds j) \<Longrightarrow> taken s k) \<Longrightarrow>
      \<exists>held. held = jobsOf holds j' @ spawned holds jobs \<and> distinct held \<and>
        (\<forall>k \<in> set held. k \<in> set (holds j) \<or> \<not> taken s k) \<and>
        (\<forall>k. taken s' k \<longleftrightarrow> k \<in> set held \<or> taken s k \<and> k \<notin> set (holds j))"
    and begins: "begun env c w b \<Longrightarrow> holds b = []"
    and frame: "taken (start jobs s) = taken s" "taken (s\<lparr>fs_job := js\<rparr>) = taken s" "taken (s\<lparr>fs_world := w\<rparr>) = taken s"
    and free: "\<not> taken (initFetch w) k"
begin

lemma exclusively_init: "exclusively holds taken (initFetch w)"
  by (simp add: exclusively_def free) (simp add: initFetch_def)

lemma exclusively_start:
  assumes ex: "exclusively holds taken s" and num: "numbered s" and none: "holds j = []"
  shows "exclusively holds taken (start [j] s)"
proof -
  have "fs_job s (fs_next s) = None" using num by (simp add: numbered_def)
  then have "jobsOf holds (fs_job (start [j] s) g) = jobsOf holds (fs_job s g)" for g
    using none by (cases "g = fs_next s") (auto simp: start_job)
  then show ?thesis using ex by (simp add: exclusively_def frame)
qed

lemma exclusively_step:
  assumes ex: "exclusively holds taken s" and reach: "fetchReachable env c s" and job: "fs_job s g = Some j"
    and js: "jobStep env c inp j s = Some (j', jobs, s')"
  shows "exclusively holds taken (start jobs (s'\<lparr>fs_job := (fs_job s')(g := j')\<rparr>))"
proof -
  let ?n = "fs_next s" and ?t = "start jobs (s'\<lparr>fs_job := (fs_job s')(g := j')\<rparr>)"
  have dist: "distinct (jobsOf holds (fs_job s h))"
    and apart: "x \<noteq> y \<Longrightarrow> set (jobsOf holds (fs_job s x)) \<inter> set (jobsOf holds (fs_job s y)) = {}"
    and tk: "taken s k \<longleftrightarrow> (\<exists>h. k \<in> set (jobsOf holds (fs_job s h)))" for h k x y
    using ex unfolding exclusively_def by blast+
  have "distinct (holds j)" using dist [of g] job by simp
  moreover have "k \<in> set (holds j) \<Longrightarrow> taken s k" for k using tk [of k] job by (metis jobsOf_simps(2))
  ultimately have "\<exists>held. held = jobsOf holds j' @ spawned holds jobs \<and> distinct held \<and>
      (\<forall>k \<in> set held. k \<in> set (holds j) \<or> \<not> taken s k) \<and>
      (\<forall>k. taken s' k \<longleftrightarrow> k \<in> set held \<or> taken s k \<and> k \<notin> set (holds j))"
    by (rule step [OF reach js])
  then have d: "distinct (jobsOf holds j' @ spawned holds jobs)"
    and new: "k \<in> set (jobsOf holds j' @ spawned holds jobs) \<Longrightarrow> k \<in> set (holds j) \<or> \<not> taken s k"
    and tk': "taken s' k \<longleftrightarrow> k \<in> set (jobsOf holds j' @ spawned holds jobs) \<or> taken s k \<and> k \<notin> set (holds j)" for k
    by blast+
  have num: "numbered s" using reach by (rule reachable_numbered)
  have n: "g < ?n" "fs_job s ?n = None" using num job unfolding numbered_def by (metis linorder_not_less option.distinct(1), simp)
  from jobStep_frame [OF js] have f: "fs_job s' = fs_job s" "fs_next s' = ?n" "length jobs \<le> 1" by blast+
  have H: "jobsOf holds (fs_job ?t h) = (if h = g then jobsOf holds j'
      else if h = ?n then spawned holds jobs else jobsOf holds (fs_job s h))" for h
    using f n by (cases jobs) (auto simp: start_job)
  define T F where "T h = set (jobsOf holds (fs_job ?t h))" and "F h = set (jobsOf holds (fs_job s h))" for h
  define A B where "A = set (jobsOf holds j')" and "B = set (spawned holds jobs)"
  have T: "T g = A" "T ?n = B" "F ?n = {}" "\<And>h. h \<noteq> g \<Longrightarrow> h \<noteq> ?n \<Longrightarrow> T h = F h"
    using n by (simp_all add: T_def F_def A_def B_def H)
  have far: "set (jobsOf holds (fs_job s h)) \<inter> set (jobsOf holds j' @ spawned holds jobs) = {}" if "h \<noteq> g" for h
    using that new tk apart [of h g] job by fastforce
  show ?thesis
    unfolding exclusively_def
  proof (intro conjI allI impI)
    fix h show "distinct (jobsOf holds (fs_job ?t h))" using d dist by (auto simp: H)
  next
    fix x y :: nat assume "x \<noteq> y"
    then show "set (jobsOf holds (fs_job ?t x)) \<inter> set (jobsOf holds (fs_job ?t y)) = {}"
      using d far [of x] far [of y] apart [of x y] by (auto simp: H)
  next
    fix k
    have "(\<exists>h. k \<in> T h) \<longleftrightarrow> k \<in> A \<union> B \<or> (\<exists>h. h \<noteq> g \<and> k \<in> F h)"
      using T n(1) by (metis UnCI UnE empty_iff nat_less_le)
    moreover have "(\<exists>h. h \<noteq> g \<and> k \<in> F h) \<longleftrightarrow> taken s k \<and> k \<notin> F g"
      using tk [of k] apart [of _ g] unfolding F_def by (metis disjoint_iff)
    moreover have "taken ?t k = taken s' k" by (simp add: frame)
    ultimately show "taken ?t k \<longleftrightarrow> (\<exists>h. k \<in> set (jobsOf holds (fs_job ?t h)))"
      using tk' [of k] job by (simp add: T_def [symmetric] A_def B_def F_def)
  qed
qed

lemma reachable_exclusively: "fetchReachable env c s \<Longrightarrow> exclusively holds taken s"
proof (induction rule: reachable_invariant)
  case (init w)
  show ?case by (rule exclusively_init)
next
  case (begins s j)
  show ?case
    by (rule exclusively_start [OF begins(3) reachable_numbered [OF begins(1)]
        key_table.begins [OF key_table_axioms begins(2)]])
next
  case (steps s g j inp j' jobs s')
  then show ?case by (intro exclusively_step)
next
  case (outside s n)
  then show ?case by (simp add: exclusively_def frame)
qed

lemma one_holder:
  assumes "fetchReachable env c s" and "fs_job s g = Some j" and "k \<in> set (holds j)"
    and "fs_job s h = Some j'" and "k \<in> set (holds j')"
  shows "g = h"
  using reachable_exclusively [OF assms(1)] assms(2-5) unfolding exclusively_def
  by (metis disjoint_iff jobsOf_simps(2))

lemma holds_distinct: "fetchReachable env c s \<Longrightarrow> fs_job s g = Some j \<Longrightarrow> distinct (holds j)"
  using reachable_exclusively [of s] unfolding exclusively_def by (metis jobsOf_simps(2))

lemma taken_held:
  "fetchReachable env c s \<Longrightarrow> taken s k \<longleftrightarrow> (\<exists>g j. fs_job s g = Some j \<and> k \<in> set (holds j))"
  using reachable_exclusively [of s] unfolding exclusively_def
  by (metis empty_iff empty_set jobsOf_simps(1) jobsOf_simps(2) not_Some_eq)

end

section \<open>Flights and refreshes\<close>

text \<open>The flights a goroutine has registered and not yet taken out of the map.\<close>

fun stageFlights :: "stage \<Rightarrow> (bytes \<times> nat) list" where
  "stageFlights (LoadMany own joins) = own"
| "stageFlights (PublishMany own joins loaded err) = own"
| "stageFlights _ = []"

fun heldFlights :: "job \<Rightarrow> (bytes \<times> nat) list" where
  "heldFlights (LoadOne call cas f) = [(fc_key call, f)]"
| "heldFlights (LeadSettle call cas f out) = [(fc_key call, f)]"
| "heldFlights (Publish key f out) = [(key, f)]"
| "heldFlights (Many call ta stage) = stageFlights stage"
| "heldFlights _ = []"

definition flightKeys :: "job \<Rightarrow> bytes list" where
  "flightKeys j = map fst (heldFlights j)"

definition inFlight :: "'n fetchSys \<Rightarrow> bytes \<Rightarrow> bool" where
  "inFlight s key \<longleftrightarrow> fs_flights s key \<noteq> None"

fun refreshKeys :: "job \<Rightarrow> bytes list" where
  "refreshKeys (RefreshLoad l ttl) = [fst l]"
| "refreshKeys (RefreshWrite l val ttl) = [fst l]"
| "refreshKeys (RefreshEnd keys) = keys"
| "refreshKeys (RefreshManyLoad mine ttl) = map fst mine"
| "refreshKeys (RefreshManyWrite mine values keys ttl) = keys"
| "refreshKeys _ = []"

definition beingRefreshed :: "'n fetchSys \<Rightarrow> bytes \<Rightarrow> bool" where
  "beingRefreshed s key \<longleftrightarrow> List.member (fs_refreshing s) key"

lemma begin_holds: "begun env c w j \<Longrightarrow> flightKeys j = [] \<and> refreshKeys j = []"
  by (erule begun.cases) (auto simp: beginFetch_def beginFetchMany_def flightKeys_def Let_def split: sum.splits)

lemma registerAll_own:
  "registerAll keys own joins s = (own', joins', s') \<Longrightarrow> set own \<subseteq> set own'"
  by (induction keys own joins s rule: registerAll.induct) (auto simp: Let_def split: option.splits)

lemma registerAll_registers:
  assumes "registerAll keys own joins s = (own', joins', s')" and "distinct (map fst own)"
    and "\<And>k. k \<in> set (map fst own) \<Longrightarrow> inFlight s k"
  shows "distinct (map fst own')" and "\<And>k. k \<in> set (map fst own') \<Longrightarrow> k \<in> set (map fst own) \<or> \<not> inFlight s k"
    and "\<And>k. inFlight s' k \<longleftrightarrow> k \<in> set (map fst own') \<or> inFlight s k"
proof -
  have "distinct (map fst own') \<and> (\<forall>k \<in> set (map fst own'). k \<in> set (map fst own) \<or> \<not> inFlight s k) \<and>
      (\<forall>k. inFlight s' k \<longleftrightarrow> k \<in> set (map fst own') \<or> inFlight s k)"
    using assms
  proof (induction keys own joins s rule: registerAll.induct)
    case (1 own joins s)
    then show ?case by auto
  next
    case (2 key keys own joins s)
    show ?case
    proof (cases "fs_flights s key")
      case (Some f)
      then show ?thesis using 2 by simp
    next
      case None
      let ?f = "fs_nextFlight s"
      let ?s = "s\<lparr>fs_flights := (fs_flights s)(key \<mapsto> ?f), fs_nextFlight := Suc ?f,
        fs_flight := (fs_flight s)(?f := newFlight key)\<rparr>"
      have key: "\<not> inFlight s key" "inFlight ?s k \<longleftrightarrow> k = key \<or> inFlight s k" for k
        using None by (simp_all add: inFlight_def)
      have "registerAll keys (own @ [(key, ?f)]) joins ?s = (own', joins', s')" using 2(3) None by (simp add: Let_def)
      moreover have "distinct (map fst (own @ [(key, ?f)]))" using 2(4,5) key(1) by auto
      moreover have "\<And>k. k \<in> set (map fst (own @ [(key, ?f)])) \<Longrightarrow> inFlight ?s k" using 2(5) key(2) by auto
      ultimately have ih: "distinct (map fst own')"
        "\<forall>k \<in> set (map fst own'). k \<in> set (map fst (own @ [(key, ?f)])) \<or> \<not> inFlight ?s k"
        "\<forall>k. inFlight s' k \<longleftrightarrow> k \<in> set (map fst own') \<or> inFlight ?s k"
        using 2(1) [OF None refl] by blast+
      moreover have "key \<in> set (map fst own')"
        using registerAll_own [OF \<open>registerAll keys (own @ [(key, ?f)]) joins ?s = (own', joins', s')\<close>] by force
      ultimately show ?thesis using key by auto
    qed
  qed
  then show "distinct (map fst own')" and "\<And>k. k \<in> set (map fst own') \<Longrightarrow> k \<in> set (map fst own) \<or> \<not> inFlight s k"
    and "\<And>k. inFlight s' k \<longleftrightarrow> k \<in> set (map fst own') \<or> inFlight s k"
    by blast+
qed

text \<open>The flights of a call that begins, waits, refreshes or settles are none; a step keeps, takes or returns them.\<close>

lemma flights_stage:
  assumes "stageStep env c inp call ta stage s = Some (j', jobs, s')" and "distinct (map fst (stageFlights stage))"
    and held: "\<And>k. k \<in> set (map fst (stageFlights stage)) \<Longrightarrow> inFlight s k"
  shows "distinct (jobsOf flightKeys j') \<and> spawned flightKeys jobs = [] \<and>
    (\<forall>k \<in> set (jobsOf flightKeys j'). k \<in> set (map fst (stageFlights stage)) \<or> \<not> inFlight s k) \<and>
    (\<forall>k. inFlight s' k \<longleftrightarrow> k \<in> set (jobsOf flightKeys j') \<or> inFlight s k \<and> k \<notin> set (map fst (stageFlights stage)))"
proof (cases stage)
  case RunFlights
  obtain own joins s1 where reg: "registerAll (map fst (ta_lead ta) @ ta_local ta) [] [] s = (own, joins, s1)"
    by (metis prod_cases3)
  note r = registerAll_registers [OF reg]
  have out: "j' = Some (Many call ta (if own = [] then Collect joins [] None else LoadMany own joins))"
    "jobs = []" "s' = s1" using assms(1) RunFlights by (auto simp: stage_defs reg)
  show ?thesis unfolding out using r by (cases "own = []") (simp_all add: RunFlights flightKeys_def)
next
  case (PublishMany own joins loaded err)
  then have out: "j' = Some (Many call ta (CloseFlights own joins loaded err))" "jobs = []"
    and fl: "fs_flights s' = (\<lambda>k. if List.member (map fst own) k then None else fs_flights s k)"
    using assms by (auto simp: stage_defs)
  show ?thesis using PublishMany unfolding out inFlight_def fl by (simp add: flightKeys_def)
next
  case (LoadMany own joins)
  obtain loaded err where out: "encodeLoadedMany c (fi_loadedMany inp) = (loaded, err)" by fastforce
  have fl: "j' = Some (Many call ta (PublishMany own joins loaded err))" "jobs = []" "fs_flights s' = fs_flights s"
    using assms(1) LoadMany out by (auto simp: goOn_def)
  show ?thesis using assms(2) held LoadMany unfolding fl inFlight_def by (auto simp: flightKeys_def)
qed (use assms(1) in \<open>auto simp: stage_defs flightKeys_def inFlight_def
      split: if_splits option.splits sum.splits prod.splits list.splits\<close>)

lemma flights_read:
  "fetchRead env c call attempt s = Some (j', jobs, s') \<Longrightarrow>
     jobsOf flightKeys j' = [] \<and> spawned flightKeys jobs = [] \<and> fs_flights s' = fs_flights s"
  unfolding fetchRead_def goOn_def
  by (auto simp: flightKeys_def grant_def Let_def split: if_splits sum.splits prod.splits verdict.splits option.splits)

lemma flights_step:
  assumes js: "jobStep env c inp j s = Some (j', jobs, s')" and "distinct (flightKeys j)"
    and held: "\<And>k. k \<in> set (flightKeys j) \<Longrightarrow> inFlight s k"
  shows "\<exists>held. held = jobsOf flightKeys j' @ spawned flightKeys jobs \<and> distinct held \<and>
    (\<forall>k \<in> set held. k \<in> set (flightKeys j) \<or> \<not> inFlight s k) \<and>
    (\<forall>k. inFlight s' k \<longleftrightarrow> k \<in> set held \<or> inFlight s k \<and> k \<notin> set (flightKeys j))"
proof (cases j)
  case (Many call ta stage)
  then show ?thesis
    using flights_stage [of env c inp call ta stage s j' jobs s'] assms by (simp add: flightKeys_def)
next
  case (FetchRead call attempt)
  then show ?thesis
    using flights_read [of env c call attempt s j' jobs s'] js by (simp add: flightKeys_def inFlight_def)
next
  case (LoadOne call cas f)
  then show ?thesis using js held by (auto simp: fetch_defs flightKeys_def inFlight_def split: option.splits)
next
  case (LeadSettle call cas f out)
  then show ?thesis using js held by (auto simp: fetch_defs flightKeys_def inFlight_def)
qed (use js in \<open>auto simp: fetch_defs flightKeys_def inFlight_def
      split: if_splits option.splits prod.splits list.splits\<close>)

interpretation flights: key_table env c flightKeys inFlight for env :: "'n env" and c :: "('d, 'v) Client"
proof unfold_locales
  fix inp :: "'v fetchInput" and j j' jobs and s s' :: "'n fetchSys"
  assume "jobStep env c inp j s = Some (j', jobs, s')" and "distinct (flightKeys j)"
    and "\<And>k. k \<in> set (flightKeys j) \<Longrightarrow> inFlight s k"
  then show "\<exists>held. held = jobsOf flightKeys j' @ spawned flightKeys jobs \<and> distinct held \<and>
    (\<forall>k \<in> set held. k \<in> set (flightKeys j) \<or> \<not> inFlight s k) \<and>
    (\<forall>k. inFlight s' k \<longleftrightarrow> k \<in> set held \<or> inFlight s k \<and> k \<notin> set (flightKeys j))"
    by (intro flights_step)
qed (simp_all add: begin_holds inFlight_def [abs_def] initFetch_def)

text \<open>The keys being refreshed.\<close>

lemma mineOf_new:
  "distinct (map fst (mineOf active holders)) \<and> fst ` set (mineOf active holders) \<inter> set active = {}"
proof (induction active holders rule: mineOf.induct)
  case (2 active holder holders)
  show ?case
  proof (cases "List.member active (fst holder)")
    case True
    then show ?thesis using 2(1) by simp
  next
    case False
    have ih: "distinct (map fst (mineOf (fst holder # active) holders))"
      "fst ` set (mineOf (fst holder # active) holders) \<inter> set (fst holder # active) = {}"
      using 2(2) [OF False] by blast+
    then have "fst holder \<notin> fst ` set (mineOf (fst holder # active) holders)" by (metis disjoint_iff list.set_intros(1))
    then show ?thesis using False ih by simp
  qed
qed simp

lemma stage_refreshing:
  assumes st: "stageStep env c inp call ta stage s = Some (j', jobs, s')" and other: "stage \<noteq> SpawnRefreshMany"
  shows "jobsOf refreshKeys j' = [] \<and> jobs = [] \<and> fs_refreshing s' = fs_refreshing s"
proof (cases stage)
  case (ReadKeys pending attempt)
  then show ?thesis using st
    by (auto simp: readKeys_def goOn_def grant_def Let_def split: if_splits option.splits sum.splits prod.splits)
next
  case (JoinKeys busy remaining attempt)
  then show ?thesis using st by (auto simp: joinKeys_def goOn_def split: if_splits option.splits list.splits)
next
  case (AwaitKey key f busy remaining attempt)
  then show ?thesis using st by (auto simp: awaitKey_def goOn_def Let_def split: if_splits option.splits)
next
  case (WaitKeys remaining attempt)
  then show ?thesis using st by (auto simp: waitKeys_def goOn_def split: if_splits option.splits)
next
  case RunFlights
  then show ?thesis using st by (auto simp: runFlights_def goOn_def dest: registerAll_frame split: prod.splits)
next
  case (Collect joins vals firstErr)
  then show ?thesis using st by (auto simp: collect_def goOn_def split: if_splits option.splits list.splits)
next
  case (SettleLeads leads computed err)
  then show ?thesis using st by (auto simp: settleLeads_def goOn_def repay_def Let_def split: list.splits)
qed (use assms in \<open>auto simp: publishMany_def closeFlights_def goOn_def split: prod.splits\<close>)

lemma refreshes_stage:
  assumes "stageStep env c inp call ta stage s = Some (j', jobs, s')"
  shows "jobsOf refreshKeys j' = [] \<and> distinct (spawned refreshKeys jobs) \<and>
    (\<forall>k \<in> set (spawned refreshKeys jobs). \<not> beingRefreshed s k) \<and>
    (\<forall>k. beingRefreshed s' k \<longleftrightarrow> k \<in> set (spawned refreshKeys jobs) \<or> beingRefreshed s k)"
proof (cases "stage = SpawnRefreshMany")
  case True
  define mine where "mine = (if ctxEnded env RootCtx s \<noteq> None
    then [] else mineOf (fs_refreshing s) (ta_refresh ta))"
  have new: "distinct (map fst mine)" "set (map fst mine) \<inter> set (fs_refreshing s) = {}"
    using mineOf_new [of "fs_refreshing s" "ta_refresh ta"] by (auto simp: mine_def)
  have "j' = Some (afterRefresh call ta)" "fs_refreshing s' = map fst mine @ fs_refreshing s"
    and "spawned refreshKeys jobs = map fst mine"
    using assms True unfolding True stageStep.simps spawnRefreshMany_def goOn_def Let_def mine_def [symmetric]
    by (auto split: if_splits)
  then show ?thesis using new by (auto simp: afterRefresh_def beingRefreshed_def)
next
  case False
  then show ?thesis using stage_refreshing [OF assms] by (simp add: beingRefreshed_def)
qed

lemma refreshes_read:
  "fetchRead env c call attempt s = Some (j', jobs, s') \<Longrightarrow>
     jobsOf refreshKeys j' = [] \<and> spawned refreshKeys jobs = [] \<and> fs_refreshing s' = fs_refreshing s"
  unfolding fetchRead_def goOn_def
  by (auto simp: grant_def Let_def split: if_splits sum.splits prod.splits verdict.splits option.splits)

lemma refreshes_step:
  assumes js: "jobStep env c inp j s = Some (j', jobs, s')" and dist: "distinct (refreshKeys j)"
    and held: "\<And>k. k \<in> set (refreshKeys j) \<Longrightarrow> beingRefreshed s k"
  shows "\<exists>held. held = jobsOf refreshKeys j' @ spawned refreshKeys jobs \<and> distinct held \<and>
    (\<forall>k \<in> set held. k \<in> set (refreshKeys j) \<or> \<not> beingRefreshed s k) \<and>
    (\<forall>k. beingRefreshed s' k \<longleftrightarrow> k \<in> set held \<or> beingRefreshed s k \<and> k \<notin> set (refreshKeys j))"
proof (cases j)
  case (Many call ta stage)
  then show ?thesis using refreshes_stage [of env c inp call ta stage s j' jobs s'] js
    by (auto simp: beingRefreshed_def)
next
  case (RefreshManyLoad mine ttl)
  then show ?thesis
    using js dist held by (force simp: fetch_defs beingRefreshed_def split: option.splits prod.splits)
next
  case (FetchRead call attempt)
  then show ?thesis
    using refreshes_read [of env c call attempt s j' jobs s'] js by (simp add: beingRefreshed_def)
qed (use js dist held in \<open>auto simp: fetch_defs beingRefreshed_def
      split: if_splits option.splits prod.splits list.splits\<close>)

interpretation refreshes: key_table env c refreshKeys beingRefreshed for env :: "'n env" and c :: "('d, 'v) Client"
proof unfold_locales
  fix inp :: "'v fetchInput" and j j' jobs and s s' :: "'n fetchSys"
  assume "jobStep env c inp j s = Some (j', jobs, s')" and "distinct (refreshKeys j)"
    and "\<And>k. k \<in> set (refreshKeys j) \<Longrightarrow> beingRefreshed s k"
  then show "\<exists>held. held = jobsOf refreshKeys j' @ spawned refreshKeys jobs \<and> distinct held \<and>
    (\<forall>k \<in> set held. k \<in> set (refreshKeys j) \<or> \<not> beingRefreshed s k) \<and>
    (\<forall>k. beingRefreshed s' k \<longleftrightarrow> k \<in> set held \<or> beingRefreshed s k \<and> k \<notin> set (refreshKeys j))"
    by (intro refreshes_step)
qed (simp_all add: begin_holds beingRefreshed_def [abs_def] initFetch_def)

end
