(* ===== verification/Sharing.thy ===== *)
theory Sharing
  imports Flights
begin

text \<open>
  What callers share. Two more tables are used the way the locale of \<open>Flights\<close> says: the
  flights that are open, each with one goroutine that will close it, and the flights whose
  loader has not run yet. With them, what a goroutine knows of a flight stays true while
  others take steps, and an answer that came from a flight is what its loader came to.
\<close>

section \<open>Steps that touch no flight\<close>

fun stageOpens :: "stage \<Rightarrow> nat list" where
  "stageOpens (LoadMany own joins) = map snd own"
| "stageOpens (PublishMany own joins loaded err) = map snd own"
| "stageOpens (CloseFlights own joins loaded err) = map snd own"
| "stageOpens _ = []"

text \<open>The flights a goroutine has yet to close, and the ones it has yet to run the loader of.\<close>

fun opens :: "job \<Rightarrow> nat list" where
  "opens (LoadOne call cas f) = [f]"
| "opens (LeadSettle call cas f out) = [f]"
| "opens (Publish key f out) = [f]"
| "opens (CloseFlight key f out) = [f]"
| "opens (Many call ta stage) = stageOpens stage"
| "opens _ = []"

fun loads :: "job \<Rightarrow> nat list" where
  "loads (LoadOne call cas f) = [f]"
| "loads (Many call ta (LoadMany own joins)) = map snd own"
| "loads _ = []"

fun touches :: "job \<Rightarrow> bool" where
  "touches (RunFlight call cas) = True"
| "touches (LoadOne call cas f) = True"
| "touches (Publish key f out) = True"
| "touches (CloseFlight key f out) = True"
| "touches (Many call ta RunFlights) = True"
| "touches (Many call ta (LoadMany own joins)) = True"
| "touches (Many call ta (PublishMany own joins loaded err)) = True"
| "touches (Many call ta (CloseFlights own joins loaded err)) = True"
| "touches _ = False"

definition sameFlights :: "'n fetchSys \<Rightarrow> 'n fetchSys \<Rightarrow> bool" where
  "sameFlights s s' \<longleftrightarrow> fs_flights s' = fs_flights s \<and> fs_flight s' = fs_flight s \<and>
     fs_nextFlight s' = fs_nextFlight s \<and> fs_outcomes s' = fs_outcomes s"

text \<open>What a goroutine holds when it is about to do anything else is what it held.\<close>

definition holdsAs :: "job option \<Rightarrow> job list \<Rightarrow> job \<Rightarrow> bool" where
  "holdsAs j' jobs j \<longleftrightarrow> jobsOf heldFlights j' = heldFlights j \<and> jobsOf opens j' = opens j \<and> jobsOf loads j' = loads j \<and>
     spawned heldFlights jobs = [] \<and> spawned opens jobs = [] \<and> spawned loads jobs = []"

lemma untouched_stage:
  assumes st: "stageStep env c inp call ta stage s = Some (j', jobs, s')" and "\<not> touches (Many call ta stage)"
  shows "sameFlights s s' \<and> holdsAs j' jobs (Many call ta stage)"
proof (cases stage)
  case (ReadKeys pending attempt)
  then show ?thesis using st
    by (auto simp: readKeys_def goOn_def grant_def Let_def sameFlights_def holdsAs_def
        split: if_splits option.splits sum.splits prod.splits)
next
  case (JoinKeys busy remaining attempt)
  then show ?thesis using st
    by (auto simp: joinKeys_def goOn_def sameFlights_def holdsAs_def split: if_splits option.splits list.splits)
next
  case (AwaitKey key f busy remaining attempt)
  then show ?thesis using st
    by (auto simp: awaitKey_def goOn_def Let_def sameFlights_def holdsAs_def split: if_splits option.splits)
next
  case (WaitKeys remaining attempt)
  then show ?thesis using st
    by (auto simp: waitKeys_def goOn_def sameFlights_def holdsAs_def split: if_splits option.splits)
next
  case SpawnRefreshMany
  then show ?thesis using st
    by (auto simp: spawnRefreshMany_def afterRefresh_def goOn_def Let_def sameFlights_def holdsAs_def split: if_splits)
next
  case (Collect joins vals firstErr)
  then show ?thesis using st
    by (auto simp: collect_def goOn_def sameFlights_def holdsAs_def split: if_splits option.splits list.splits)
next
  case (SettleLeads leads computed err)
  then show ?thesis using st
    by (auto simp: settleLeads_def goOn_def repay_def Let_def sameFlights_def holdsAs_def split: list.splits)
qed (use assms in simp_all)

lemma untouched_read:
  "fetchRead env c call attempt s = Some (j', jobs, s') \<Longrightarrow> sameFlights s s' \<and> holdsAs j' jobs (FetchRead call attempt)"
  unfolding fetchRead_def goOn_def
  by (auto simp: grant_def Let_def sameFlights_def holdsAs_def
      split: if_splits sum.splits prod.splits verdict.splits option.splits)

lemma untouched:
  assumes js: "jobStep env c inp j s = Some (j', jobs, s')" and "\<not> touches j"
  shows "sameFlights s s' \<and> holdsAs j' jobs j"
proof (cases j)
  case (FetchRead call attempt)
  then show ?thesis using untouched_read js by simp
next
  case (Many call ta stage)
  then show ?thesis using untouched_stage assms by (metis jobStep.simps(14))
next
  case (LeadSettle call cas f out)
  then show ?thesis using js by (auto simp: leadSettle_def goOn_def repay_def Let_def sameFlights_def holdsAs_def)
qed (use assms in \<open>auto simp: fetchJoin_def fetchWait_def awaitFlight_def spawnRefresh_def refreshLoad_def
      refreshWrite_def refreshEnd_def refreshManyLoad_def refreshManyWrite_def goOn_def repay_def Let_def
      sameFlights_def holdsAs_def split: if_splits option.splits prod.splits list.splits\<close>)

section \<open>Registering flights\<close>

definition isOpen :: "'n fetchSys \<Rightarrow> nat \<Rightarrow> bool" where
  "isOpen s f \<longleftrightarrow> f < fs_nextFlight s \<and> \<not> fl_done (fs_flight s f)"

definition unloaded :: "'n fetchSys \<Rightarrow> nat \<Rightarrow> bool" where
  "unloaded s f \<longleftrightarrow> f < fs_nextFlight s \<and> f \<notin> fst ` set (fs_outcomes s)"

text \<open>The flights registered are new and consecutive; the ones joined are in the map.\<close>

definition registers ::
    "(bytes \<times> nat) list \<Rightarrow> (bytes \<times> nat) list \<Rightarrow> 'n fetchSys \<Rightarrow> (bytes \<times> nat) list \<Rightarrow> (bytes \<times> nat) list \<Rightarrow> 'n fetchSys \<Rightarrow> bool"
  where
  "registers own joins s own' joins' s' \<longleftrightarrow>
     fs_nextFlight s \<le> fs_nextFlight s' \<and>
     (\<exists>news. own' = own @ news \<and> map snd news = [fs_nextFlight s..<fs_nextFlight s'] \<and>
        (\<forall>(k, f) \<in> set news. fs_flight s' f = newFlight k \<and> fs_flights s' k = Some f)) \<and>
     (\<forall>f < fs_nextFlight s. fs_flight s' f = fs_flight s f) \<and>
     (\<forall>k f. fs_flights s k = Some f \<longrightarrow> fs_flights s' k = Some f) \<and>
     (\<forall>k f. fs_flights s' k = Some f \<longrightarrow> fs_flights s k = Some f \<or> (k, f) \<in> set own') \<and>
     (\<forall>(k, f) \<in> set joins'. (k, f) \<in> set joins \<or> fs_flights s' k = Some f)"

lemma registers_one:
  assumes none: "fs_flights s key = None" and f: "f = fs_nextFlight s"
    and s1: "s1 = s\<lparr>fs_flights := (fs_flights s)(key \<mapsto> f), fs_nextFlight := Suc f,
      fs_flight := (fs_flight s)(f := newFlight key)\<rparr>"
    and rest: "registers (own @ [(key, f)]) joins s1 own' joins' s'"
  shows "registers own joins s own' joins' s'"
proof -
  obtain news where n: "fs_nextFlight s1 \<le> fs_nextFlight s'" "own' = (own @ [(key, f)]) @ news"
    "map snd news = [fs_nextFlight s1..<fs_nextFlight s']"
    "\<forall>(k, f) \<in> set news. fs_flight s' f = newFlight k \<and> fs_flights s' k = Some f"
    using rest unfolding registers_def by blast
  have old: "\<forall>g < fs_nextFlight s1. fs_flight s' g = fs_flight s1 g"
    and keep: "\<forall>k f. fs_flights s1 k = Some f \<longrightarrow> fs_flights s' k = Some f"
    and joined: "\<forall>(k, f) \<in> set joins'. (k, f) \<in> set joins \<or> fs_flights s' k = Some f"
    using rest unfolding registers_def by blast+
  have "own' = own @ ((key, f) # news)" using n(2) by simp
  moreover have "map snd ((key, f) # news) = [fs_nextFlight s..<fs_nextFlight s']"
    using n(1,3) f by (simp add: s1 upt_conv_Cons)
  moreover have "\<forall>(k, g) \<in> set ((key, f) # news). fs_flight s' g = newFlight k \<and> fs_flights s' k = Some g"
    using n(4) old keep by (simp add: s1 f)
  moreover have "\<forall>g < fs_nextFlight s. fs_flight s' g = fs_flight s g" using old by (simp add: s1 f)
  moreover have "fs_flights s' k = Some g" if "fs_flights s k = Some g" for k g
    using keep none that by (cases "k = key") (simp_all add: s1)
  moreover have "fs_nextFlight s \<le> fs_nextFlight s'" using n(1) by (simp add: s1 f)
  moreover have "fs_flights s k = Some g \<or> (k, g) \<in> set own'" if "fs_flights s' k = Some g" for k g
  proof -
    have "fs_flights s1 k = Some g \<or> (k, g) \<in> set own'" using rest that unfolding registers_def by blast
    then show ?thesis using n(2) by (cases "k = key") (auto simp: s1)
  qed
  ultimately show ?thesis using joined unfolding registers_def by blast
qed

lemma registerAll_effect: "registerAll keys own joins s = (own', joins', s') \<Longrightarrow> registers own joins s own' joins' s'"
proof (induction keys own joins s rule: registerAll.induct)
  case (1 own joins s)
  then show ?case by (auto simp: registers_def)
next
  case (2 key keys own joins s)
  show ?case
  proof (cases "fs_flights s key")
    case None
    show ?thesis
      by (rule registers_one [OF None refl refl]) (use 2(1) [OF None refl] 2(3) None in \<open>simp add: Let_def\<close>)
  next
    case (Some f)
    then have "registers own (joins @ [(key, f)]) s own' joins' s'" using 2(2) [OF Some] 2(3) by simp
    then show ?thesis using Some unfolding registers_def by auto
  qed
qed

section \<open>Open flights\<close>

lemma registers_opens:
  assumes "registers [] [] s own joins s'"
  shows "distinct (map snd own)" and "f \<in> set (map snd own) \<Longrightarrow> fs_nextFlight s \<le> f"
    and "isOpen s' f \<longleftrightarrow> f \<in> set (map snd own) \<or> isOpen s f"
proof -
  have n: "fs_nextFlight s \<le> fs_nextFlight s'" "map snd own = [fs_nextFlight s..<fs_nextFlight s']"
    "\<forall>(k, f) \<in> set own. fs_flight s' f = newFlight k \<and> fs_flights s' k = Some f"
    "\<forall>f < fs_nextFlight s. fs_flight s' f = fs_flight s f"
    using assms unfolding registers_def by auto
  show "distinct (map snd own)" and "f \<in> set (map snd own) \<Longrightarrow> fs_nextFlight s \<le> f" by (simp_all add: n(2) del: set_map)
  have "\<not> fl_done (fs_flight s' f)" if mine: "f \<in> set (map snd own)"
  proof -
    obtain p where "f = snd p" "p \<in> set own" using mine unfolding set_map by (rule imageE)
    then show ?thesis using n(3) by (auto simp: newFlight_def)
  qed
  moreover have "f \<in> set (map snd own) \<longleftrightarrow> fs_nextFlight s \<le> f \<and> f < fs_nextFlight s'" by (simp add: n(2) del: set_map)
  ultimately show "isOpen s' f \<longleftrightarrow> f \<in> set (map snd own) \<or> isOpen s f"
    using n(1,4) unfolding isOpen_def by (metis leD leI order_less_le_trans)
qed

lemma run_flights:
  assumes "jobStep env c inp (Many call ta RunFlights) s = Some (j', jobs, s')"
  obtains own joins where "registers [] [] s own joins s'" "jobs = []"
    "j' = Some (Many call ta (if own = [] then Collect joins [] None else LoadMany own joins))"
    "fs_outcomes s' = fs_outcomes s"
proof -
  obtain own joins s1 where reg: "registerAll (map fst (ta_lead ta) @ ta_local ta) [] [] s = (own, joins, s1)"
    by (metis prod_cases3)
  then have out: "j' = Some (Many call ta (if own = [] then Collect joins [] None else LoadMany own joins))"
    "jobs = []" "s1 = s'"
    using assms by (simp_all add: runFlights_def goOn_def)
  show ?thesis
    by (rule that [of own joins]) (use registerAll_effect [OF reg] registerAll_frame [OF reg] out in simp_all)
qed

lemma published_done:
  "fl_done (fold (\<lambda>(key, f) fs. fs(f := (fs f)\<lparr>fl_value := v key, fl_err := err\<rparr>)) own fs g) = fl_done (fs g)"
  "fl_key (fold (\<lambda>(key, f) fs. fs(f := (fs f)\<lparr>fl_value := v key, fl_err := err\<rparr>)) own fs g) = fl_key (fs g)"
  by (induction own arbitrary: fs) (auto split: if_splits)

lemma open_step:
  assumes js: "jobStep env c inp j s = Some (j', jobs, s')" and "distinct (opens j)"
    and held: "\<And>k. k \<in> set (opens j) \<Longrightarrow> isOpen s k"
  shows "\<exists>held. held = jobsOf opens j' @ spawned opens jobs \<and> distinct held \<and>
    (\<forall>k \<in> set held. k \<in> set (opens j) \<or> \<not> isOpen s k) \<and>
    (\<forall>k. isOpen s' k \<longleftrightarrow> k \<in> set held \<or> isOpen s k \<and> k \<notin> set (opens j))"
proof (cases "touches j")
  case False
  then have "jobsOf opens j' = opens j" "spawned opens jobs = []" "isOpen s' = isOpen s"
    using untouched [OF js] by (auto simp: holdsAs_def sameFlights_def isOpen_def [abs_def])
  then show ?thesis using assms by auto
next
  case True
  show ?thesis
  proof (cases j)
    case (RunFlight call cas)
    then show ?thesis using js
      by (auto simp: runFlight_def goOn_def Let_def isOpen_def newFlight_def split: option.splits)
  next
    case (LoadOne call cas f)
    then show ?thesis using js held by (auto simp: loadOne_def goOn_def isOpen_def split: option.splits)
  next
    case (Publish key f out)
    then show ?thesis using js held by (auto simp: publish_def goOn_def isOpen_def)
  next
    case (CloseFlight key f out)
    then show ?thesis using js held by (auto simp: closeFlights_def goOn_def isOpen_def split: if_splits)
  next
    case (Many call ta stage)
    show ?thesis
    proof (cases stage)
      case RunFlights
      obtain own joins where r: "registers [] [] s own joins s'" "jobs = []"
        "j' = Some (Many call ta (if own = [] then Collect joins [] None else LoadMany own joins))"
        using js Many RunFlights run_flights by metis
      then have "jobsOf opens j' = map snd own" by simp
      then show ?thesis using registers_opens [OF r(1)] r(2) Many RunFlights
        by (simp add: isOpen_def leD del: set_map)
    next
      case (LoadMany own joins)
      have out: "jobsOf opens j' = map snd own" "jobs = []" "isOpen s' = isOpen s"
        using js Many LoadMany by (auto simp: goOn_def isOpen_def [abs_def] split: prod.splits)
      show ?thesis using assms(2) held Many LoadMany unfolding out by auto
    next
      case (PublishMany own joins loaded err)
      have out: "jobsOf opens j' = map snd own" "jobs = []" "isOpen s' = isOpen s"
        using js Many PublishMany by (auto simp: publishMany_def goOn_def isOpen_def [abs_def] published_done)
      show ?thesis using assms(2) held Many PublishMany unfolding out by auto
    next
      case (CloseFlights own joins loaded err)
      have out: "jobsOf opens j' = []" "jobs = []" "s' = closeFlights (map snd own) s"
        using js Many CloseFlights by (auto simp: goOn_def)
      have "isOpen s' k \<longleftrightarrow> isOpen s k \<and> k \<notin> set (map snd own)" for k
        by (cases "k \<in> set (map snd own)") (simp_all add: out(3) closeFlights_def isOpen_def del: set_map)
      then show ?thesis using Many CloseFlights out by simp
    qed (use True Many in simp_all)
  qed (use True in simp_all)
qed

lemma begin_opens: "begun env c w j \<Longrightarrow> opens j = [] \<and> loads j = []"
  by (erule begun.cases) (auto simp: beginFetch_def beginFetchMany_def Let_def split: sum.splits)

interpretation openers: key_table env c opens isOpen for env :: "'n env" and c :: "('d, 'v) Client"
proof unfold_locales
  fix inp :: "'v fetchInput" and j j' jobs and s s' :: "'n fetchSys"
  assume "jobStep env c inp j s = Some (j', jobs, s')" and "distinct (opens j)"
    and "\<And>k. k \<in> set (opens j) \<Longrightarrow> isOpen s k"
  then show "\<exists>held. held = jobsOf opens j' @ spawned opens jobs \<and> distinct held \<and>
    (\<forall>k \<in> set held. k \<in> set (opens j) \<or> \<not> isOpen s k) \<and>
    (\<forall>k. isOpen s' k \<longleftrightarrow> k \<in> set held \<or> isOpen s k \<and> k \<notin> set (opens j))"
    by (intro open_step)
qed (simp_all add: begin_opens isOpen_def [abs_def] initFetch_def)

section \<open>Flights whose loader has not run\<close>

lemma registers_loads:
  assumes r: "registers [] [] s own joins s'" and same: "fs_outcomes s' = fs_outcomes s"
    and fresh: "\<And>f. fs_nextFlight s \<le> f \<Longrightarrow> f \<notin> fst ` set (fs_outcomes s)"
  shows "unloaded s' f \<longleftrightarrow> f \<in> set (map snd own) \<or> unloaded s f"
proof -
  have n: "fs_nextFlight s \<le> fs_nextFlight s'" "map snd own = [fs_nextFlight s..<fs_nextFlight s']"
    using r unfolding registers_def by auto
  have "f \<in> set (map snd own) \<longleftrightarrow> fs_nextFlight s \<le> f \<and> f < fs_nextFlight s'" by (simp add: n(2) del: set_map)
  then show ?thesis using n(1) fresh [of f] same unfolding unloaded_def
    by (metis leD leI order_less_le_trans)
qed

text \<open>Only flights that are open have had their loader run.\<close>

lemma step_outcomes:
  assumes js: "jobStep env c inp j s = Some (j', jobs, s')"
  shows "\<exists>more. fs_outcomes s' = fs_outcomes s @ more \<and> map fst more = (if loads j = jobsOf loads j' then [] else loads j) \<and>
    fs_nextFlight s \<le> fs_nextFlight s'"
proof (cases "touches j")
  case False
  then show ?thesis using untouched [OF js] by (auto simp: sameFlights_def holdsAs_def)
next
  case True
  show ?thesis
  proof (cases j)
    case (RunFlight call cas)
    then show ?thesis using js by (auto simp: runFlight_def goOn_def Let_def split: option.splits)
  next
    case (Many call ta stage)
    show ?thesis
    proof (cases stage)
      case RunFlights
      then obtain own joins where "registers [] [] s own joins s'" "fs_outcomes s' = fs_outcomes s"
        using js Many run_flights by metis
      then show ?thesis using Many RunFlights by (auto simp: registers_def)
    next
      case (LoadMany own joins)
      then show ?thesis using js Many by (auto simp: goOn_def split_def)
    next
      case (PublishMany own joins loaded err)
      then show ?thesis using js Many by (auto simp: publishMany_def goOn_def)
    next
      case (CloseFlights own joins loaded err)
      then show ?thesis using js Many by (auto simp: closeFlights_def goOn_def)
    qed (use True Many in simp_all)
  qed (use True js in \<open>auto simp: loadOne_def publish_def closeFlights_def goOn_def split: option.splits\<close>)
qed

lemma loads_opens: "set (loads j) \<subseteq> set (opens j)"
  by (cases j rule: loads.cases) auto

lemma reachable_bounded: "fetchReachable env c s \<Longrightarrow> f \<in> fst ` set (fs_outcomes s) \<Longrightarrow> f < fs_nextFlight s"
proof (induction arbitrary: f rule: reachable_invariant)
  case (steps s g j inp j' jobs s')
  obtain new where new: "fs_outcomes s' = fs_outcomes s @ new" "fs_nextFlight s \<le> fs_nextFlight s'"
    "map fst new = (if loads j = jobsOf loads j' then [] else loads j)"
    using step_outcomes [OF steps(3)] by blast
  have "f \<in> set (opens j)" if "f \<in> set (map fst new)"
    using that loads_opens [of j] unfolding new(3) by (auto split: if_splits)
  then have mine: "f \<in> set (map fst new) \<Longrightarrow> isOpen s f" using openers.taken_held [OF steps(1)] steps(2) by blast
  have "f \<in> fst ` set (fs_outcomes s) \<or> f \<in> set (map fst new)" using steps(5) new(1) by (simp add: image_Un)
  then have "f < fs_nextFlight s"
  proof
    assume "f \<in> fst ` set (fs_outcomes s)"
    then show ?thesis by (rule steps(4))
  next
    assume "f \<in> set (map fst new)"
    then show ?thesis using mine by (simp add: isOpen_def)
  qed
  then show ?case using new(2) by simp
qed (auto simp: initFetch_def)

lemma load_step:
  assumes reach: "fetchReachable env c s" and js: "jobStep env c inp j s = Some (j', jobs, s')"
    and dist: "distinct (loads j)" and held: "\<And>k. k \<in> set (loads j) \<Longrightarrow> unloaded s k"
  shows "\<exists>held. held = jobsOf loads j' @ spawned loads jobs \<and> distinct held \<and>
    (\<forall>k \<in> set held. k \<in> set (loads j) \<or> \<not> unloaded s k) \<and>
    (\<forall>k. unloaded s' k \<longleftrightarrow> k \<in> set held \<or> unloaded s k \<and> k \<notin> set (loads j))"
proof (cases "touches j")
  case False
  then have "jobsOf loads j' = loads j" "spawned loads jobs = []" "unloaded s' = unloaded s"
    using untouched [OF js] by (auto simp: holdsAs_def sameFlights_def unloaded_def [abs_def])
  then show ?thesis using dist held by auto
next
  case True
  note fresh = reachable_bounded [OF reach]
  show ?thesis
  proof (cases j)
    case (RunFlight call cas)
    show ?thesis
    proof (cases "fs_flights s (fc_key call)")
      case None
      have new: "fs_nextFlight s \<notin> fst ` set (fs_outcomes s)" using fresh by blast
      have out: "j' = Some (LoadOne call cas (fs_nextFlight s))" "jobs = []"
        "fs_nextFlight s' = Suc (fs_nextFlight s)" "fs_outcomes s' = fs_outcomes s"
        using js RunFlight None by (auto simp: runFlight_def goOn_def Let_def)
      show ?thesis using RunFlight new unfolding unloaded_def out by (simp add: less_Suc_eq) metis
    next
      case (Some f)
      then show ?thesis using js RunFlight by (auto simp: runFlight_def goOn_def)
    qed
  next
    case (Many call ta stage)
    show ?thesis
    proof (cases stage)
      case RunFlights
      obtain own joins where r: "registers [] [] s own joins s'" "jobs = []" "fs_outcomes s' = fs_outcomes s"
        "j' = Some (Many call ta (if own = [] then Collect joins [] None else LoadMany own joins))"
        using js Many RunFlights run_flights by metis
      have "jobsOf loads j' = map snd own" using r(4) by simp
      moreover have "\<not> unloaded s f" if "f \<in> set (map snd own)" for f
        using registers_opens(2) [OF r(1) that] by (simp add: unloaded_def)
      moreover have "unloaded s' f \<longleftrightarrow> f \<in> set (map snd own) \<or> unloaded s f" for f
        using registers_loads [OF r(1,3)] fresh by (meson not_le)
      ultimately show ?thesis using registers_opens(1) [OF r(1)] r(2) Many RunFlights by simp
    next
      case (LoadMany own joins)
      have out: "jobsOf loads j' = []" "jobs = []" "fs_nextFlight s' = fs_nextFlight s" "loads j = map snd own"
        using js Many LoadMany by (auto simp: goOn_def split: prod.splits)
      obtain new where "fs_outcomes s' = fs_outcomes s @ new" "set (map fst new) = set (map snd own)"
        using step_outcomes [OF js] unfolding out by (metis (no_types))
      then have "unloaded s' k \<longleftrightarrow> unloaded s k \<and> k \<notin> set (map snd own)" for k
        using out(3) by (simp add: unloaded_def image_Un)
      then show ?thesis unfolding out by simp
    qed (use True js Many in \<open>auto simp: publishMany_def closeFlights_def goOn_def unloaded_def\<close>)
  qed (use True js in \<open>auto simp: loadOne_def publish_def closeFlights_def goOn_def unloaded_def split: option.splits\<close>)
qed

interpretation loaders: key_table env c loads unloaded for env :: "'n env" and c :: "('d, 'v) Client"
proof unfold_locales
  fix inp :: "'v fetchInput" and j j' jobs and s s' :: "'n fetchSys"
  assume "fetchReachable env c s" and "jobStep env c inp j s = Some (j', jobs, s')" and "distinct (loads j)"
    and "\<And>k. k \<in> set (loads j) \<Longrightarrow> unloaded s k"
  then show "\<exists>held. held = jobsOf loads j' @ spawned loads jobs \<and> distinct held \<and>
    (\<forall>k \<in> set held. k \<in> set (loads j) \<or> \<not> unloaded s k) \<and>
    (\<forall>k. unloaded s' k \<longleftrightarrow> k \<in> set held \<or> unloaded s k \<and> k \<notin> set (loads j))"
    by (rule load_step)
qed (simp_all add: begin_opens unloaded_def [abs_def] initFetch_def)

text \<open>The loader of a flight runs once.\<close>

lemma reachable_once: "fetchReachable env c s \<Longrightarrow> distinct (map fst (fs_outcomes s))"
proof (induction rule: reachable_invariant)
  case (steps s g j inp j' jobs s')
  obtain new where new: "fs_outcomes s' = fs_outcomes s @ new"
    "map fst new = (if loads j = jobsOf loads j' then [] else loads j)"
    using step_outcomes [OF steps(3)] by blast
  have "distinct (loads j)"
    using loaders.holds_distinct [OF steps(1,2)] .
  moreover have "f \<in> set (loads j) \<Longrightarrow> unloaded s f" for f
    using loaders.taken_held [OF steps(1)] steps(2) by blast
  ultimately have "distinct (map fst new)" "fst ` set (fs_outcomes s) \<inter> fst ` set new = {}"
    unfolding new(2) set_map [symmetric] unloaded_def disjoint_iff by (simp_all, metis)
  then show ?case using steps(4) new(1) by simp
qed (simp_all add: initFetch_def)

end
