(* ===== verification/Answers.thy ===== *)
theory Answers
  imports Sharing
begin

text \<open>
  What the callers are told. A flight that a goroutine registered, joined, or found in the map
  is one of its key; one whose loader has run is settled, and once its fields are written they
  are what its loader came to. Every job says what its goroutine knows of the flights it names,
  and this stays true until a caller has its answer.
\<close>

section \<open>What is known of a flight\<close>

definition joined :: "'n fetchSys \<Rightarrow> bytes \<Rightarrow> nat \<Rightarrow> bool" where
  "joined s key f \<longleftrightarrow> f < fs_nextFlight s \<and> fl_key (fs_flight s f) = key"

definition settled :: "'n fetchSys \<Rightarrow> bytes \<Rightarrow> nat \<Rightarrow> outcome \<Rightarrow> bool" where
  "settled s key f out \<longleftrightarrow> joined s key f \<and> (f, key, out) \<in> set (fs_outcomes s)"

definition published :: "'n fetchSys \<Rightarrow> bytes \<Rightarrow> nat \<Rightarrow> outcome \<Rightarrow> bool" where
  "published s key f out \<longleftrightarrow>
     settled s key f out \<and> fl_value (fs_flight s f) = fst out \<and> fl_err (fs_flight s f) = snd out"

text \<open>An answer is of the call, of the read, of the cache, of the context or of a flight.\<close>

definition answered :: "('d, 'v) Client \<Rightarrow> 'n fetchSys \<Rightarrow> bytes \<Rightarrow> slice result \<Rightarrow> source \<Rightarrow> bool" where
  "answered c s key out src \<longleftrightarrow>
     (case src of
        FromCall \<Rightarrow> isl out
      | FromRead \<Rightarrow> isl out \<and> \<not> cfg_degrade (cl_config c)
      | FromContext \<Rightarrow> isl out
      | FromCache \<Rightarrow> (\<exists>v. out = Inr (Some v) \<and> v \<noteq> [])
      | FromFlight f \<Rightarrow> (\<exists>oc. settled s key f oc \<and> out = answerOf oc))"

definition noneEmpty :: "(bytes \<times> bytes) list \<Rightarrow> bool" where
  "noneEmpty found \<longleftrightarrow> (\<forall>(k, v) \<in> set found. v \<noteq> [])"

fun stageTold :: "'n fetchSys \<Rightarrow> stage \<Rightarrow> bool" where
  "stageTold s (AwaitKey key f busy remaining attempt) = joined s key f"
| "stageTold s (LoadMany own joins) = (\<forall>(k, f) \<in> set own \<union> set joins. joined s k f)"
| "stageTold s (PublishMany own joins loaded err) =
     ((\<forall>(k, f) \<in> set own. settled s k f (slotOf loaded k, err)) \<and> (\<forall>(k, f) \<in> set joins. joined s k f))"
| "stageTold s (CloseFlights own joins loaded err) =
     ((\<forall>(k, f) \<in> set own. published s k f (slotOf loaded k, err)) \<and> (\<forall>(k, f) \<in> set joins. joined s k f))"
| "stageTold s (Collect joins vals err) = (\<forall>(k, f) \<in> set joins. joined s k f)"
| "stageTold s _ = True"

fun told :: "('d, 'v) Client \<Rightarrow> 'n fetchSys \<Rightarrow> job \<Rightarrow> bool" where
  "told c s (SpawnRefresh call cas val) = (val \<noteq> [])"
| "told c s (AwaitFlight call f) = joined s (fc_key call) f"
| "told c s (LoadOne call cas f) = joined s (fc_key call) f"
| "told c s (LeadSettle call cas f out) = settled s (fc_key call) f out"
| "told c s (Publish key f out) = settled s key f out"
| "told c s (CloseFlight key f out) = published s key f out"
| "told c s (Answer key out src) = answered c s key out src"
| "told c s (Many call ta stage) = (noneEmpty (ta_found ta) \<and> stageTold s stage)"
| "told c s (AnswerMany keys out) = (case out of Inl e \<Rightarrow> True | Inr found \<Rightarrow> noneEmpty found)"
| "told c s _ = True"

text \<open>The map leads to flights of the key, and a flight that is done carries what its loader came to.\<close>

definition mapped :: "'n fetchSys \<Rightarrow> bool" where
  "mapped s \<longleftrightarrow> (\<forall>k f. fs_flights s k = Some f \<longrightarrow> joined s k f)"

definition delivered :: "'n fetchSys \<Rightarrow> bool" where
  "delivered s \<longleftrightarrow> (\<forall>f < fs_nextFlight s. fl_done (fs_flight s f) \<longrightarrow>
     settled s (fl_key (fs_flight s f)) f (fl_value (fs_flight s f), fl_err (fs_flight s f)))"

section \<open>Steps of others\<close>

text \<open>How the flights change when a goroutine that has yet to close \<open>A\<close> takes a step.\<close>

definition evolves :: "nat set \<Rightarrow> 'n fetchSys \<Rightarrow> 'n fetchSys \<Rightarrow> bool" where
  "evolves A s s' \<longleftrightarrow>
     fs_nextFlight s \<le> fs_nextFlight s' \<and> set (fs_outcomes s) \<subseteq> set (fs_outcomes s') \<and>
     (\<forall>f < fs_nextFlight s. fl_key (fs_flight s' f) = fl_key (fs_flight s f)) \<and>
     (\<forall>f < fs_nextFlight s. f \<notin> A \<longrightarrow> fs_flight s' f = fs_flight s f)"

lemma published_elsewhere:
  "g \<notin> snd ` set own \<Longrightarrow>
     fold (\<lambda>(key, f) fs. fs(f := (fs f)\<lparr>fl_value := v key, fl_err := err\<rparr>)) own fs g = fs g"
  by (induction own arbitrary: fs) auto

lemma step_evolves:
  assumes js: "jobStep env c inp j s = Some (j', jobs, s')"
  shows "evolves (set (opens j)) s s'"
proof (cases "touches j")
  case False
  then show ?thesis using untouched [OF js] by (simp add: sameFlights_def evolves_def)
next
  case True
  obtain more where outs: "set (fs_outcomes s) \<subseteq> set (fs_outcomes s')" "fs_nextFlight s \<le> fs_nextFlight s'"
    using step_outcomes [OF js] by auto
  show ?thesis
  proof (cases j)
    case (Many call ta stage)
    show ?thesis
    proof (cases stage)
      case RunFlights
      then obtain own joins where "registers [] [] s own joins s'" using js Many run_flights by metis
      then show ?thesis using outs unfolding registers_def evolves_def by simp
    next
      case (LoadMany own joins)
      then have "fs_flight s' = fs_flight s" using js Many by (auto simp: goOn_def split: prod.splits)
      then show ?thesis using outs by (simp add: evolves_def)
    next
      case (PublishMany own joins loaded err)
      then show ?thesis using js Many outs
        by (auto simp: publishMany_def goOn_def evolves_def published_done published_elsewhere)
    next
      case (CloseFlights own joins loaded err)
      then show ?thesis using js Many outs by (auto simp: closeFlights_def goOn_def evolves_def)
    qed (use True Many in simp_all)
  qed (use True js in \<open>auto simp: runFlight_def loadOne_def publish_def closeFlights_def goOn_def Let_def evolves_def
      split: option.splits\<close>)
qed

lemma joined_evolves: "evolves A s s' \<Longrightarrow> joined s key f \<Longrightarrow> joined s' key f"
  by (auto simp: evolves_def joined_def)

lemma settled_evolves: "evolves A s s' \<Longrightarrow> settled s key f out \<Longrightarrow> settled s' key f out"
  using joined_evolves [of A s s' key f] by (auto simp: evolves_def settled_def)

lemma published_evolves: "evolves A s s' \<Longrightarrow> f \<notin> A \<Longrightarrow> published s key f out \<Longrightarrow> published s' key f out"
  using settled_evolves [of A s s' key f out] by (auto simp: evolves_def published_def settled_def joined_def)

lemma answered_evolves: "evolves A s s' \<Longrightarrow> answered c s key out src \<Longrightarrow> answered c s' key out src"
  using settled_evolves [of A s s'] by (cases src) (simp_all add: answered_def, blast)

lemma stageTold_evolves:
  assumes "evolves A s s'" and "set (stageOpens stage) \<inter> A = {}" and "stageTold s stage"
  shows "stageTold s' stage"
proof (cases stage)
  case (CloseFlights own joins loaded err)
  then have "f \<notin> A" if "(k, f) \<in> set own" for k f using assms(2) that by (force simp: disjoint_iff)
  then show ?thesis using CloseFlights assms published_evolves joined_evolves by (fastforce split: prod.splits)
qed (use assms joined_evolves settled_evolves in \<open>fastforce split: prod.splits\<close>)+

lemma told_evolves:
  "evolves A s s' \<Longrightarrow> set (opens j) \<inter> A = {} \<Longrightarrow> told c s j \<Longrightarrow> told c s' j"
  by (cases j)
    (auto simp: joined_evolves settled_evolves published_evolves answered_evolves stageTold_evolves)

section \<open>Steps\<close>

definition toldAll :: "('d, 'v) Client \<Rightarrow> 'n fetchSys \<Rightarrow> job option \<Rightarrow> job list \<Rightarrow> bool" where
  "toldAll c s j' jobs \<longleftrightarrow> (case j' of None \<Rightarrow> True | Some j \<Rightarrow> told c s j) \<and> (\<forall>j \<in> set jobs. told c s j)"

lemma noneEmpty_update: "noneEmpty found \<Longrightarrow> v \<noteq> [] \<Longrightarrow> noneEmpty (AList.update k v found)"
  by (induction found) (auto simp: noneEmpty_def)

lemma classify_serves: "classify r = Serve w \<Longrightarrow> gr_Value r \<noteq> []"
  by (auto simp: classify_def Let_def split: if_splits option.splits)

lemma triage_found:
  "noneEmpty (ta_found ta) \<Longrightarrow> triage env c ctx rs ta busy w = ((ta', busy', err), w') \<Longrightarrow> noneEmpty (ta_found ta')"
proof (induction env c ctx rs ta busy w rule: triage.induct)
  case (2 env c ctx key result rest ta busy w)
  show ?case
  proof (cases "or_Err result")
    case (Some e)
    then show ?thesis using 2 by (auto split: if_splits)
  next
    case None
    show ?thesis
    proof (cases "or_Get result")
      case (Some r)
      then show ?thesis using 2 None noneEmpty_update classify_serves [of r]
        by (cases "classify r") auto
    qed (use 2 None in simp)
  qed
qed simp

lemma mergeFound_found: "noneEmpty found \<Longrightarrow> noneEmpty (mergeFound found computed)"
  unfolding mergeFound_def
  by (induction computed arbitrary: found) (simp_all add: noneEmpty_update split: prod.split)

text \<open>Jobs that touch no flight.\<close>

lemma told_read:
  assumes "fetchRead env c call attempt s = Some (j', jobs, s')"
  shows "toldAll c s' j' jobs"
  using assms classify_serves unfolding fetchRead_def goOn_def
  by (auto simp: toldAll_def answered_def Let_def split: if_splits sum.splits prod.splits verdict.splits option.splits)

lemma told_readKeys:
  assumes "readKeys env c call ta pending attempt s = Some (j', jobs, s')" and "noneEmpty (ta_found ta)"
  shows "toldAll c s' j' jobs"
proof -
  obtain out w where b: "batch env c (fm_ctx call)
      (map (\<lambda>key. Struct (GetOperation key (fp_read (fm_plan call)))) pending) (fs_world s) = (out, w)" by fastforce
  show ?thesis
  proof (cases out)
    case (Inl e)
    then show ?thesis using assms(1) b by (auto simp: readKeys_def goOn_def toldAll_def)
  next
    case (Inr results)
    obtain ta' busy err w' where t: "triage env c (fm_ctx call) (zip pending results) ta [] w = ((ta', busy, err), w')"
      by (metis prod_cases3 surj_pair)
    have "noneEmpty (ta_found ta')" by (rule triage_found [OF assms(2) t])
    then show ?thesis using assms(1) b Inr t
      by (auto simp: readKeys_def goOn_def toldAll_def Let_def split: if_splits option.splits)
  qed
qed

text \<open>What a joined flight gives is what its loader came to.\<close>

lemma told_untouched_stage:
  assumes st: "stageStep env c inp call ta stage s = Some (j', jobs, s')" and un: "\<not> touches (Many call ta stage)"
    and ne: "noneEmpty (ta_found ta)" and stage: "stageTold s stage" and map: "mapped s"
  shows "toldAll c s' j' jobs"
proof -
  have same: "joined s' = joined s" using untouched_stage [OF st un] by (simp add: joined_def [abs_def] sameFlights_def)
  show ?thesis
  proof (cases stage)
    case (ReadKeys pending attempt)
    then show ?thesis using told_readKeys ne st by simp
  next
    case (JoinKeys busy remaining attempt)
    show ?thesis
    proof (cases busy)
      case Nil
      then show ?thesis using st ne JoinKeys by (auto simp: joinKeys_def goOn_def toldAll_def split: if_splits)
    next
      case (Cons key rest)
      have "fs_flights s key = Some f \<Longrightarrow> joined s' key f" for f using map same by (simp add: mapped_def)
      then show ?thesis using st ne JoinKeys Cons
        by (cases "fs_flights s key") (auto simp: joinKeys_def goOn_def toldAll_def)
    qed
  next
    case (AwaitKey key f busy remaining attempt)
    then show ?thesis using st ne same
      by (auto simp: awaitKey_def goOn_def Let_def toldAll_def noneEmpty_update split: if_splits option.splits)
  next
    case (WaitKeys remaining attempt)
    then show ?thesis using st ne by (auto simp: waitKeys_def goOn_def toldAll_def split: if_splits option.splits)
  next
    case SpawnRefreshMany
    then show ?thesis using st ne
      by (auto simp: spawnRefreshMany_def afterRefresh_def goOn_def Let_def toldAll_def split: if_splits)
  next
    case (Collect joins vals firstErr)
    show ?thesis
    proof (cases joins)
      case Nil
      then show ?thesis using Collect st ne by (auto simp: collect_def goOn_def toldAll_def)
    next
      case (Cons p rest)
      obtain key f where p: "p = (key, f)" by fastforce
      have "\<forall>(k, f) \<in> set rest. joined s' k f" using stage Collect Cons same by simp
      then show ?thesis using Collect Cons p st ne
        by (auto simp: collect_def goOn_def toldAll_def split: if_splits option.splits)
    qed
  next
    case (SettleLeads leads computed err)
    show ?thesis
    proof (cases leads)
      case Nil
      then have "j' = Some (AnswerMany (fm_keys call) (case err of Some e \<Rightarrow> Inl e | None \<Rightarrow> Inr (mergeFound (ta_found ta) computed)))"
        "jobs = []" using SettleLeads st by (auto simp: settleLeads_def goOn_def)
      then show ?thesis using mergeFound_found [OF ne] by (cases err) (simp_all add: toldAll_def)
    next
      case (Cons lead rest)
      then have "j' = Some (Many call ta (SettleLeads rest computed err))" "jobs = []"
        using SettleLeads st by (auto simp: settleLeads_def goOn_def Let_def split: prod.splits)
      then show ?thesis using ne by (simp add: toldAll_def)
    qed
  qed (use un in simp_all)
qed

lemma told_untouched:
  assumes js: "jobStep env c inp j s = Some (j', jobs, s')" and un: "\<not> touches j"
    and told: "told c s j" and map: "mapped s" and del: "delivered s"
  shows "toldAll c s' j' jobs"
proof -
  have same: "settled s' = settled s" "joined s' = joined s"
    using untouched [OF js un] by (simp_all add: settled_def [abs_def] joined_def [abs_def] sameFlights_def)
  show ?thesis
  proof (cases j)
    case (FetchRead call attempt)
    then show ?thesis using told_read js by simp
  next
    case (Many call ta stage)
    show ?thesis
      by (rule told_untouched_stage [of env c inp call ta stage s]) (use js un told map Many in simp_all)
  next
    case (FetchJoin call attempt)
    have "fs_flights s (fc_key call) = Some f \<Longrightarrow> joined s' (fc_key call) f" for f
      using map same by (simp add: mapped_def)
    then show ?thesis using js FetchJoin
      by (cases "fs_flights s (fc_key call)") (auto simp: fetchJoin_def goOn_def toldAll_def split: if_splits)
  next
    case (AwaitFlight call f)
    show ?thesis
    proof (cases "fi_ctx inp")
      case True
      then show ?thesis using js AwaitFlight
        by (auto simp: awaitFlight_def goOn_def Let_def toldAll_def answered_def split: option.splits)
    next
      case False
      have fl: "joined s (fc_key call) f" using told AwaitFlight by simp
      have "j' = Some (Answer (fc_key call) (answerOf (fl_value (fs_flight s f), fl_err (fs_flight s f))) (FromFlight f))"
        "jobs = []" "fl_done (fs_flight s f)"
        using js AwaitFlight False by (auto simp: awaitFlight_def goOn_def Let_def split: if_splits)
      moreover have "settled s' (fc_key call) f (fl_value (fs_flight s f), fl_err (fs_flight s f))"
        using del fl calculation(3) unfolding same by (auto simp: delivered_def joined_def)
      ultimately show ?thesis by (auto simp: toldAll_def answered_def)
    qed
  qed (use js un told same in \<open>auto simp: fetchWait_def spawnRefresh_def leadSettle_def refreshLoad_def
        refreshWrite_def refreshEnd_def refreshManyLoad_def refreshManyWrite_def goOn_def repay_def Let_def
        toldAll_def answered_def split: if_splits option.splits prod.splits list.splits\<close>)
qed

text \<open>Jobs that do.\<close>

lemma told_registers:
  assumes r: "registers [] [] s own joins s'" and map: "mapped s"
  shows "\<forall>(k, f) \<in> set own \<union> set joins. joined s' k f" and "mapped s'"
proof -
  have own: "joined s' k f" if kf: "(k, f) \<in> set own" for k f
  proof -
    have "f \<in> set (map snd own)" using kf by force
    then have "f < fs_nextFlight s'" using r unfolding registers_def by (auto simp del: set_map)
    then show ?thesis using r kf unfolding registers_def joined_def by (auto simp: newFlight_def)
  qed
  have old: "joined s' k f" if "fs_flights s k = Some f" for k f
  proof -
    have "joined s k f" using map that by (simp add: mapped_def)
    then show ?thesis using r unfolding registers_def joined_def by auto
  qed
  have entry: "joined s' k f" if "fs_flights s' k = Some f" for k f
    using r that own old unfolding registers_def by blast
  then show "mapped s'" by (simp add: mapped_def)
  have "joined s' k f" if kf: "(k, f) \<in> set joins" for k f
    using r kf entry unfolding registers_def by auto
  then show "\<forall>(k, f) \<in> set own \<union> set joins. joined s' k f" using own by blast
qed

lemma published_own:
  "distinct (map snd own) \<Longrightarrow> (k, f) \<in> set own \<Longrightarrow>
     fold (\<lambda>(key, f) fs. fs(f := (fs f)\<lparr>fl_value := v key, fl_err := err\<rparr>)) own fs f =
       (fs f)\<lparr>fl_value := v k, fl_err := err\<rparr>"
  by (induction own arbitrary: fs) (auto simp: published_elsewhere)

lemma delivered_evolves:
  assumes ev: "evolves A s s'" and del: "delivered s"
    and new: "\<And>f. fs_nextFlight s \<le> f \<Longrightarrow> f < fs_nextFlight s' \<Longrightarrow> \<not> fl_done (fs_flight s' f)"
    and own: "\<And>f. f < fs_nextFlight s \<Longrightarrow> f \<in> A \<Longrightarrow> fl_done (fs_flight s' f) \<Longrightarrow>
      settled s' (fl_key (fs_flight s' f)) f (fl_value (fs_flight s' f), fl_err (fs_flight s' f))"
  shows "delivered s'"
  unfolding delivered_def
proof (intro allI impI)
  fix f assume f: "f < fs_nextFlight s'" "fl_done (fs_flight s' f)"
  then have old: "f < fs_nextFlight s" using new [of f] by force
  show "settled s' (fl_key (fs_flight s' f)) f (fl_value (fs_flight s' f), fl_err (fs_flight s' f))"
  proof (cases "f \<in> A")
    case False
    then have "fs_flight s' f = fs_flight s f" using ev old by (simp add: evolves_def)
    then show ?thesis using del f old settled_evolves [OF ev] by (simp add: delivered_def)
  qed (use own f old in blast)
qed

lemma run_flight:
  assumes none: "fs_flights s (fc_key call) = None"
    and js: "jobStep env c inp (RunFlight call cas) s = Some (j', jobs, s')"
  shows "registers [] [] s [(fc_key call, fs_nextFlight s)] [] s' \<and>
    j' = Some (LoadOne call cas (fs_nextFlight s)) \<and> jobs = []"
proof -
  have "registers [] [] s [(fc_key call, fs_nextFlight s)] [] s'"
    by (rule registers_one [OF none refl refl])
      (use js none in \<open>auto simp: runFlight_def goOn_def Let_def registers_def\<close>)
  then show ?thesis using js none by (auto simp: runFlight_def goOn_def Let_def)
qed

text \<open>A job that registers, loads, publishes or closes tells what it did.\<close>

lemma told_touched_stage:
  assumes js: "jobStep env c inp (Many call ta stage) s = Some (j', jobs, s')" and touch: "touches (Many call ta stage)"
    and ne: "noneEmpty (ta_found ta)" and st: "stageTold s stage" and map: "mapped s"
    and dist: "distinct (stageOpens stage)"
  shows "toldAll c s' j' jobs \<and> mapped s'"
proof (cases stage)
  case RunFlights
  obtain own joins where r: "registers [] [] s own joins s'" "jobs = []"
    "j' = Some (Many call ta (if own = [] then Collect joins [] None else LoadMany own joins))"
    using js RunFlights run_flights by metis
  then show ?thesis using ne told_registers [OF r(1) map] by (auto simp: toldAll_def)
next
  case (LoadMany own joins)
  obtain loaded err where out: "encodeLoadedMany c (fi_loadedMany inp) = (loaded, err)" by fastforce
  have eq: "j' = Some (Many call ta (PublishMany own joins loaded err))" "jobs = []"
    "joined s' = joined s" "mapped s' = mapped s"
    "fs_outcomes s' = fs_outcomes s @ map (\<lambda>(key, f). (f, key, slotOf loaded key, err)) own"
    using js LoadMany out by (auto simp: goOn_def joined_def [abs_def] mapped_def)
  have "settled s' k f (slotOf loaded k, err)" if "(k, f) \<in> set own" for k f
    using st LoadMany that unfolding settled_def eq by force
  then show ?thesis using ne st LoadMany map unfolding eq by (auto simp: toldAll_def eq(3))
next
  case (PublishMany own joins loaded err)
  have eq: "j' = Some (Many call ta (CloseFlights own joins loaded err))" "jobs = []"
    "fs_nextFlight s' = fs_nextFlight s" "fs_outcomes s' = fs_outcomes s"
    "fs_flight s' = fold (\<lambda>(key, f) fs. fs(f := (fs f)\<lparr>fl_value := slotOf loaded key, fl_err := err\<rparr>)) own (fs_flight s)"
    "\<And>k f. fs_flights s' k = Some f \<Longrightarrow> fs_flights s k = Some f"
    using js PublishMany by (auto simp: publishMany_def goOn_def split: if_splits)
  have same: "joined s' = joined s" "settled s' = settled s"
    by (simp_all add: settled_def [abs_def] joined_def [abs_def] eq(3-5) published_done)
  have "published s' k f (slotOf loaded k, err)" if "(k, f) \<in> set own" for k f
    using st PublishMany that dist published_own [of own k f err "slotOf loaded" "fs_flight s"]
    by (auto simp: published_def same eq(5))
  moreover have "mapped s'" using map eq(6) by (simp add: mapped_def same)
  ultimately show ?thesis using ne st PublishMany unfolding eq(1,2) by (auto simp: toldAll_def same)
next
  case (CloseFlights own joins loaded err)
  have eq: "j' = Some (Many call ta (Collect joins (ownValues own loaded) err))" "jobs = []"
    "joined s' = joined s" "fs_flights s' = fs_flights s"
    using js CloseFlights by (auto simp: goOn_def closeFlights_def joined_def [abs_def] fun_eq_iff)
  then show ?thesis using ne st CloseFlights map by (simp add: toldAll_def mapped_def)
qed (use touch in simp_all)

lemma told_touched:
  assumes js: "jobStep env c inp j s = Some (j', jobs, s')" and touch: "touches j"
    and told: "told c s j" and map: "mapped s" and dist: "distinct (opens j)"
  shows "toldAll c s' j' jobs \<and> mapped s'"
proof (cases j)
  case (RunFlight call cas)
  show ?thesis
  proof (cases "fs_flights s (fc_key call)")
    case None
    have "registers [] [] s [(fc_key call, fs_nextFlight s)] [] s'"
      and eq: "j' = Some (LoadOne call cas (fs_nextFlight s))" "jobs = []"
      using js unfolding RunFlight by (blast dest: run_flight [OF None])+
    then show ?thesis using told_registers [OF _ map] eq by (fastforce simp: toldAll_def)
  next
    case (Some f)
    then have "joined s (fc_key call) f" using map by (simp add: mapped_def)
    then show ?thesis using js RunFlight Some map by (auto simp: runFlight_def goOn_def toldAll_def)
  qed
next
  case (LoadOne call cas f)
  then show ?thesis using js told map
    by (cases cas) (auto simp: loadOne_def goOn_def toldAll_def settled_def joined_def mapped_def)
next
  case (Publish key f out)
  have eq: "j' = Some (CloseFlight key f out)" "jobs = []" "joined s' = joined s" "settled s' = settled s"
    "fl_value (fs_flight s' f) = fst out" "fl_err (fs_flight s' f) = snd out"
    "\<And>k f. fs_flights s' k = Some f \<Longrightarrow> fs_flights s k = Some f"
    using js Publish
    by (auto simp: publish_def goOn_def settled_def [abs_def] joined_def [abs_def] fun_eq_iff split: if_splits)
  then show ?thesis using told map Publish by (auto simp: toldAll_def published_def mapped_def)
next
  case (CloseFlight key f out)
  have eq: "joined s' = joined s" "settled s' = settled s" "fs_flights s' = fs_flights s"
    using js CloseFlight
    by (auto simp: closeFlights_def goOn_def settled_def [abs_def] joined_def [abs_def] fun_eq_iff)
  moreover have "j' = Some (Answer key (answerOf out) (FromFlight f))" "jobs = []"
    using js CloseFlight by (auto simp: goOn_def)
  moreover have "answered c s key (answerOf out) (FromFlight f)"
    using told CloseFlight by (simp add: answered_def published_def del: split_paired_Ex) blast
  ultimately show ?thesis using map by (simp add: toldAll_def answered_def mapped_def)
next
  case (Many call ta stage)
  show ?thesis
    by (rule told_touched_stage [of env c inp call ta stage s]) (use js touch told map dist Many in simp_all)
qed (use touch in simp_all)

text \<open>A flight that a step closes was published.\<close>

lemma delivered_registers:
  assumes r: "registers [] [] s own joins s'" and ev: "evolves {} s s'" and del: "delivered s"
  shows "delivered s'"
proof (rule delivered_evolves [OF ev del])
  fix f assume "fs_nextFlight s \<le> f" "f < fs_nextFlight s'"
  then have "f \<in> set (map snd own)" using r unfolding registers_def by (auto simp del: set_map)
  then show "\<not> fl_done (fs_flight s' f)" using registers_opens(3) [OF r, of f] by (simp add: isOpen_def)
qed simp

lemma delivered_kept:
  assumes ev: "evolves A s s'" and del: "delivered s" and same: "fs_nextFlight s' = fs_nextFlight s"
    and opn: "\<And>f. f \<in> A \<Longrightarrow> \<not> fl_done (fs_flight s' f)"
  shows "delivered s'"
  by (rule delivered_evolves [OF ev del]) (use same opn in auto)

lemma delivered_stage:
  assumes js: "jobStep env c inp (Many call ta stage) s = Some (j', jobs, s')" and touch: "touches (Many call ta stage)"
    and told: "stageTold s stage" and del: "delivered s"
    and held: "\<And>f. f \<in> set (stageOpens stage) \<Longrightarrow> \<not> fl_done (fs_flight s f)"
    and ev: "evolves (set (stageOpens stage)) s s'"
  shows "delivered s'"
proof (cases stage)
  case RunFlights
  then obtain own joins where "registers [] [] s own joins s'" using js run_flights by metis
  then show ?thesis by (rule delivered_registers [OF _ _ del]) (use ev RunFlights in simp)
next
  case (LoadMany own joins)
  then have "fs_nextFlight s' = fs_nextFlight s" "fs_flight s' = fs_flight s"
    using js by (auto simp: goOn_def split: prod.splits)
  then show ?thesis by (intro delivered_kept [OF ev del]) (use held in simp_all)
next
  case (PublishMany own joins loaded err)
  then have "fs_nextFlight s' = fs_nextFlight s" "\<And>f. fl_done (fs_flight s' f) = fl_done (fs_flight s f)"
    using js by (auto simp: publishMany_def goOn_def published_done)
  then show ?thesis by (intro delivered_kept [OF ev del]) (use held in simp_all)
next
  case (CloseFlights own joins loaded err)
  then have eq: "fs_nextFlight s' = fs_nextFlight s" "fs_outcomes s' = fs_outcomes s"
    "\<And>f. fl_value (fs_flight s' f) = fl_value (fs_flight s f) \<and> fl_err (fs_flight s' f) = fl_err (fs_flight s f) \<and>
      fl_key (fs_flight s' f) = fl_key (fs_flight s f)"
    using js by (auto simp: goOn_def closeFlights_def)
  have "settled s' (fl_key (fs_flight s' f)) f (fl_value (fs_flight s' f), fl_err (fs_flight s' f))"
    if "f \<in> snd ` set own" for f
    using told CloseFlights that by (force simp: eq published_def settled_def joined_def)
  then show ?thesis
    by (intro delivered_evolves [OF ev del]) (use CloseFlights eq(1) in auto)
qed (use touch in simp_all)

lemma delivered_step:
  assumes js: "jobStep env c inp j s = Some (j', jobs, s')" and told: "told c s j" and del: "delivered s"
    and held: "\<And>f. f \<in> set (opens j) \<Longrightarrow> \<not> fl_done (fs_flight s f)"
  shows "delivered s'"
proof (cases "touches j")
  case False
  then show ?thesis using untouched [OF js] del by (simp add: sameFlights_def delivered_def settled_def joined_def)
next
  case True
  note ev = step_evolves [OF js]
  show ?thesis
  proof (cases j)
    case (RunFlight call cas)
    show ?thesis
    proof (cases "fs_flights s (fc_key call)")
      case None
      then have "registers [] [] s [(fc_key call, fs_nextFlight s)] [] s'" using run_flight js RunFlight by blast
      then show ?thesis by (rule delivered_registers [OF _ _ del]) (use ev RunFlight in simp)
    qed (use js del RunFlight in \<open>auto simp: runFlight_def goOn_def\<close>)
  next
    case (LoadOne call cas f)
    then show ?thesis by (intro delivered_kept [OF ev del]) (use js held in \<open>auto simp: loadOne_def goOn_def\<close>)
  next
    case (Publish key f out)
    then show ?thesis by (intro delivered_kept [OF ev del]) (use js held in \<open>auto simp: publish_def goOn_def\<close>)
  next
    case (CloseFlight key f out)
    have eq: "fs_nextFlight s' = fs_nextFlight s" "fl_value (fs_flight s' f) = fl_value (fs_flight s f)"
      "fl_err (fs_flight s' f) = fl_err (fs_flight s f)" "fl_key (fs_flight s' f) = fl_key (fs_flight s f)"
      using js CloseFlight by (auto simp: goOn_def closeFlights_def)
    have pub: "published s key f out" using told CloseFlight by simp
    then have "settled s' key f out" using settled_evolves [OF ev] by (simp add: published_def)
    then show ?thesis
      by (intro delivered_evolves [OF ev del]) (use eq pub CloseFlight in \<open>simp_all add: published_def settled_def joined_def\<close>)
  next
    case (Many call ta stage)
    show ?thesis
      by (rule delivered_stage [of env c inp call ta stage s]) (use js True told del held ev Many in simp_all)
  qed (use True in simp_all)
qed

section \<open>Reachable states\<close>

text \<open>Everything that a goroutine knows is true.\<close>

definition truthful :: "('d, 'v) Client \<Rightarrow> 'n fetchSys \<Rightarrow> bool" where
  "truthful c s \<longleftrightarrow> mapped s \<and> delivered s \<and> (\<forall>g j. fs_job s g = Some j \<longrightarrow> told c s j)"

lemma told_same:
  fixes s s' :: "'n fetchSys"
  assumes "fs_flight s' = fs_flight s" "fs_nextFlight s' = fs_nextFlight s" "fs_outcomes s' = fs_outcomes s"
  shows "told c s' j = told c s j"
proof -
  have "evolves {} s s'" "evolves {} s' s" using assms by (simp_all add: evolves_def)
  then show ?thesis using told_evolves by (metis inf_bot_right)
qed

lemma told_frame: "told c (start jobs s) j = told c s j" "told c (s\<lparr>fs_job := js\<rparr>) j = told c s j"
  "told c (s\<lparr>fs_world := w\<rparr>) j = told c s j"
  by (rule told_same; simp)+

lemma truthful_frame: "mapped (start jobs s) = mapped s" "mapped (s\<lparr>fs_job := js\<rparr>) = mapped s"
  "mapped (s\<lparr>fs_world := w\<rparr>) = mapped s" "delivered (start jobs s) = delivered s"
  "delivered (s\<lparr>fs_job := js\<rparr>) = delivered s" "delivered (s\<lparr>fs_world := w\<rparr>) = delivered s"
  by (simp_all add: mapped_def delivered_def settled_def joined_def)

lemma begun_told: "begun env c w j \<Longrightarrow> told c s j"
  by (erule begun.cases)
    (auto simp: beginFetch_def beginFetchMany_def Let_def answered_def noneEmpty_def split: sum.splits)

lemma reachable_truthful: "fetchReachable env c s \<Longrightarrow> truthful c s"
proof (induction rule: reachable_invariant)
  case (begins s j)
  then show ?case using begun_told [OF begins(2)]
    by (auto simp: truthful_def truthful_frame told_frame start_job split: if_splits)
next
  case (steps s g j inp j' jobs s')
  have told: "told c s j" "mapped s" "delivered s" using steps(2,4) by (auto simp: truthful_def)
  have dist: "distinct (opens j)"
    using openers.holds_distinct [OF steps(1,2)] .
  have held: "f \<in> set (opens j) \<Longrightarrow> isOpen s f" for f using openers.taken_held [OF steps(1)] steps(2) by blast
  have new: "toldAll c s' j' jobs \<and> mapped s'"
  proof (cases "touches j")
    case False
    then have "mapped s'" using untouched [OF steps(3)] told(2) by (simp add: sameFlights_def mapped_def joined_def)
    then show ?thesis using told_untouched [OF steps(3) False told] by simp
  qed (rule told_touched [OF steps(3) _ told(1,2) dist])
  have others: "told c s' i" if "fs_job s h = Some i" "h \<noteq> g" for h i
  proof (rule told_evolves [OF step_evolves [OF steps(3)]])
    show "set (opens i) \<inter> set (opens j) = {}" using openers.one_holder [OF steps(1)] steps(2) that by blast
    show "told c s i" using steps(4) that by (auto simp: truthful_def)
  qed
  have "delivered s'" by (rule delivered_step [OF steps(3) told(1,3)]) (use held in \<open>auto simp: isOpen_def\<close>)
  moreover have "i < length jobs \<Longrightarrow> told c s' (jobs ! i)" for i using new by (simp add: toldAll_def)
  moreover have "fs_job s' = fs_job s" "fs_next s' = fs_next s" using jobStep_frame [OF steps(3)] by simp_all
  ultimately show ?case
    using new others by (auto simp: truthful_def truthful_frame told_frame start_job toldAll_def split: if_splits)
qed (auto simp: truthful_def truthful_frame told_frame, auto simp: initFetch_def mapped_def delivered_def)

text \<open>An answer from a flight of the key is what its only loader run came to.\<close>

lemma outcome_unique:
  "fetchReachable env c s \<Longrightarrow> (f, p) \<in> set (fs_outcomes s) \<Longrightarrow> (f, q) \<in> set (fs_outcomes s) \<Longrightarrow> p = q"
  by (metis reachable_once eq_key_imp_eq_value)

end
