(* ===== verification/Leases.thy ===== *)
theory Leases
  imports Flights "HOL-Library.Multiset"
begin

text \<open>
  Leases. A goroutine owes the leases its reads won until it repays them, with a write or a
  delete that is conditional on their tokens, or drops them. No step repays a lease that was
  not won, and none is repaid twice.
\<close>

section \<open>What a goroutine owes\<close>

fun stageLeases :: "tally \<Rightarrow> stage \<Rightarrow> lease list" where
  "stageLeases ta RunFlights = ta_lead ta"
| "stageLeases ta (LoadMany own joins) = ta_lead ta"
| "stageLeases ta (PublishMany own joins loaded err) = ta_lead ta"
| "stageLeases ta (CloseFlights own joins loaded err) = ta_lead ta"
| "stageLeases ta (Collect joins vals err) = ta_lead ta"
| "stageLeases ta (SettleLeads leads computed err) = leads"
| "stageLeases ta _ = ta_lead ta @ ta_refresh ta"

definition leaseFor :: "bytes \<Rightarrow> 64 word option \<Rightarrow> lease list" where
  "leaseFor key cas = (case cas of None \<Rightarrow> [] | Some t \<Rightarrow> [(key, t)])"

fun leasesOf :: "job \<Rightarrow> lease list" where
  "leasesOf (SpawnRefresh call cas val) = [(fc_key call, cas)]"
| "leasesOf (RunFlight call cas) = leaseFor (fc_key call) cas"
| "leasesOf (LoadOne call cas f) = leaseFor (fc_key call) cas"
| "leasesOf (LeadSettle call cas f out) = [(fc_key call, cas)]"
| "leasesOf (RefreshLoad l ttl) = [l]"
| "leasesOf (RefreshWrite l val ttl) = [l]"
| "leasesOf (RefreshManyLoad mine ttl) = mine"
| "leasesOf (RefreshManyWrite mine vals keys ttl) = mine"
| "leasesOf (Many call ta stage) = stageLeases ta stage"
| "leasesOf _ = []"

definition owing :: "'n fetchSys \<Rightarrow> lease multiset" where
  "owing s = total (\<lambda>j. mset (leasesOf j)) s"

definition solvent :: "'n fetchSys \<Rightarrow> bool" where
  "solvent s \<longleftrightarrow> mset (fs_repaid s) + owing s \<subseteq># mset (fs_granted s)"

text \<open>A step moves leases from what is owed to what is repaid, and adds the ones it won.\<close>

definition conserves :: "job \<Rightarrow> 'n fetchSys \<Rightarrow> job option \<Rightarrow> job list \<Rightarrow> 'n fetchSys \<Rightarrow> bool" where
  "conserves j s j' jobs s' \<longleftrightarrow>
     (\<exists>new repaid. fs_granted s' = fs_granted s @ new \<and> fs_repaid s' = fs_repaid s @ repaid \<and>
        mset repaid + mset (jobsOf leasesOf j') + mset (spawned leasesOf jobs) \<subseteq># mset new + mset (leasesOf j))"

lemma conservesI:
  "fs_granted s' = fs_granted s @ new \<Longrightarrow> fs_repaid s' = fs_repaid s @ repaid \<Longrightarrow>
     mset repaid + mset (jobsOf leasesOf j') + mset (spawned leasesOf jobs) \<subseteq># mset new + mset (leasesOf j) \<Longrightarrow>
     conserves j s j' jobs s'"
  unfolding conserves_def by blast

lemma conserves_keeps:
  assumes "fs_granted s' = fs_granted s" "fs_repaid s' = fs_repaid s"
    and "mset (jobsOf leasesOf j') + mset (spawned leasesOf jobs) \<subseteq># mset (leasesOf j)"
  shows "conserves j s j' jobs s'"
  by (rule conservesI [of s' s "[]" "[]"]) (use assms in simp_all)

lemma conserves_repays:
  assumes "fs_granted s' = fs_granted s" "fs_repaid s' = fs_repaid s @ [l]" and "leasesOf j = l # ls"
    and "jobsOf leasesOf j' = ls" "jobs = []"
  shows "conserves j s j' jobs s'"
  by (rule conservesI [of s' s "[]" "[l]"]) (use assms in simp_all)

section \<open>Reads\<close>

text \<open>A batch of reads adds to the leases won, and to nothing else that is owed.\<close>

definition extends :: "tally \<Rightarrow> tally \<Rightarrow> bool" where
  "extends ta ta' \<longleftrightarrow> (\<exists>ls rs. ta_lead ta' = ta_lead ta @ ls \<and> ta_refresh ta' = ta_refresh ta @ rs)"

lemma extends_refl: "extends ta ta"
  by (simp add: extends_def)

lemma extends_trans: "extends ta ta' \<Longrightarrow> extends ta' ta'' \<Longrightarrow> extends ta ta''"
  unfolding extends_def by (metis append.assoc)

lemma extends_lead: "extends ta (ta\<lparr>ta_lead := ta_lead ta @ ls\<rparr>)"
  by (simp add: extends_def)

lemma extends_local: "extends ta (ta\<lparr>ta_local := ks\<rparr>)"
  by (simp add: extends_def)

lemma extends_found: "extends ta (ta\<lparr>ta_found := vs, ta_refresh := ta_refresh ta @ rs\<rparr>)"
  by (simp add: extends_def)

lemma triage_extends: "triage env c ctx rs ta busy w = ((ta', busy', err), w') \<Longrightarrow> extends ta ta'"
proof (induction env c ctx rs ta busy w rule: triage.induct)
  case (2 env c ctx key result rest ta busy w)
  show ?case
  proof (cases "or_Err result")
    case (Some e)
    then show ?thesis using 2 by (auto intro: extends_refl extends_trans [OF extends_local] split: if_splits)
  next
    case None
    show ?thesis
    proof (cases "or_Get result")
      case (Some r)
      show ?thesis
      proof (cases "classify r")
        case (LeadWith cas)
        have "extends (ta\<lparr>ta_lead := ta_lead ta @ [(key, cas)]\<rparr>) ta'" using 2 None Some LeadWith by simp
        then show ?thesis by (rule extends_trans [OF extends_lead])
      qed (use 2 None Some in \<open>auto dest: extends_trans [OF extends_local] extends_trans [OF extends_found]\<close>)
    qed (use 2 None in \<open>simp add: extends_refl\<close>)
  qed
qed (simp add: extends_refl)

lemma extends_won:
  "extends ta ta' \<Longrightarrow> mset (ta_lead ta' @ ta_refresh ta') = mset (won ta ta') + mset (ta_lead ta @ ta_refresh ta)"
  by (auto simp: extends_def won_def)

lemma conserves_readKeys:
  assumes st: "readKeys env c call ta pending attempt s = Some (j', jobs, s')"
  shows "conserves (Many call ta (ReadKeys pending attempt)) s j' jobs s'"
proof -
  obtain out w where b: "batch env c (fm_ctx call)
      (map (\<lambda>key. Struct (GetOperation key (fp_read (fm_plan call)))) pending) (fs_world s) = (out, w)" by fastforce
  show ?thesis
  proof (cases out)
    case (Inl e)
    then have "j' = Some (AnswerMany (fm_keys call) (Inl e))" "jobs = []" "s' = s\<lparr>fs_world := w\<rparr>"
      using st b by (auto simp: readKeys_def goOn_def)
    then show ?thesis by (intro conserves_keeps) simp_all
  next
    case (Inr results)
    obtain ta' busy err w' where t: "triage env c (fm_ctx call) (zip pending results) ta [] w = ((ta', busy, err), w')"
      by (metis prod_cases3 surj_pair)
    note won = extends_won [OF triage_extends [OF t]]
    have "jobs = []" "fs_granted s' = fs_granted s @ won ta ta'" "fs_repaid s' = fs_repaid s"
      "mset (jobsOf leasesOf j') \<subseteq># mset (ta_lead ta' @ ta_refresh ta')"
      using st b Inr t by (auto simp: readKeys_def goOn_def grant_def Let_def split: if_splits option.splits)
    then show ?thesis using won by (intro conservesI [of s' s "won ta ta'" "[]"]) simp_all
  qed
qed

lemma conserves_read:
  assumes st: "fetchRead env c call attempt s = Some (j', jobs, s')"
  shows "conserves (FetchRead call attempt) s j' jobs s'"
proof -
  obtain out w where r: "readWire env c (fc_ctx call) (fc_key call) (fp_read (fc_plan call)) (fc_command call) (fs_world s)
      = (out, w)" by fastforce
  show ?thesis
  proof (cases out)
    case (Inl e)
    then have "jobsOf leasesOf j' = []" "jobs = []" "fs_granted s' = fs_granted s" "fs_repaid s' = fs_repaid s"
      using st r by (auto simp: fetchRead_def goOn_def leaseFor_def split: if_splits)
    then show ?thesis by (intro conserves_keeps) simp_all
  next
    case (Inr result)
    have "jobs = []" "fs_granted s' = fs_granted s @ jobsOf leasesOf j'" "fs_repaid s' = fs_repaid s"
      using st r Inr
      by (auto simp: fetchRead_def goOn_def grant_def Let_def leaseFor_def split: verdict.splits option.splits)
    then show ?thesis by (intro conservesI [of s' s "jobsOf leasesOf j'" "[]"]) simp_all
  qed
qed

section \<open>Steps\<close>

lemma mineOf_subset: "mset (mineOf active holders) \<subseteq># mset holders"
  by (induction active holders rule: mineOf.induct) (auto intro: subset_mset.order_trans)

lemma conserves_stage:
  assumes st: "stageStep env c inp call ta stage s = Some (j', jobs, s')"
  shows "conserves (Many call ta stage) s j' jobs s'"
proof (cases stage)
  case (ReadKeys pending attempt)
  then show ?thesis using st conserves_readKeys by simp
next
  case SpawnRefreshMany
  define mine where "mine = (if ctxEnded env RootCtx s \<noteq> None then [] else mineOf (fs_refreshing s) (ta_refresh ta))"
  have mine: "mset mine \<subseteq># mset (ta_refresh ta)" by (simp add: mine_def mineOf_subset)
  have eq: "fs_granted s' = fs_granted s" "fs_repaid s' = fs_repaid s" "j' = Some (afterRefresh call ta)"
    "spawned leasesOf jobs = mine"
    using st unfolding SpawnRefreshMany stageStep.simps spawnRefreshMany_def goOn_def Let_def mine_def [symmetric]
    by (auto split: if_splits)
  have "jobsOf leasesOf j' = ta_lead ta" using eq(3) by (simp add: afterRefresh_def)
  then show ?thesis using SpawnRefreshMany eq mine by (intro conserves_keeps) simp_all
next
  case RunFlights
  obtain own joins s1 where reg: "registerAll (map fst (ta_lead ta) @ ta_local ta) [] [] s = (own, joins, s1)"
    by (metis prod_cases3)
  then have "jobs = []" "s' = s1" "jobsOf leasesOf j' = ta_lead ta"
    using st RunFlights by (auto simp: runFlights_def goOn_def)
  then show ?thesis using RunFlights registerAll_frame [OF reg] by (intro conserves_keeps) simp_all
next
  case (SettleLeads leads computed err)
  show ?thesis
  proof (cases leads)
    case Nil
    then show ?thesis using st SettleLeads by (intro conserves_keeps) (auto simp: settleLeads_def goOn_def)
  next
    case (Cons lead rest)
    obtain key cas where "lead = (key, cas)" by fastforce
    then show ?thesis using st SettleLeads Cons
      by (intro conserves_repays [of s' s lead _ rest]) (auto simp: settleLeads_def goOn_def repay_def Let_def)
  qed
next
  case (Collect joins vals firstErr)
  have "fs_granted s' = fs_granted s" "fs_repaid s' = fs_repaid s" "jobs = []" "jobsOf leasesOf j' = ta_lead ta"
    using st Collect by (auto simp: collect_def goOn_def split: if_splits option.splits list.splits)
  then show ?thesis using Collect by (intro conserves_keeps) simp_all
next
  case (JoinKeys busy remaining attempt)
  have "fs_granted s' = fs_granted s" "fs_repaid s' = fs_repaid s" "jobs = []"
    "jobsOf leasesOf j' = ta_lead ta @ ta_refresh ta"
    using st JoinKeys by (auto simp: joinKeys_def goOn_def split: if_splits option.splits list.splits)
  then show ?thesis using JoinKeys by (intro conserves_keeps) simp_all
next
  case (AwaitKey key f busy remaining attempt)
  have "fs_granted s' = fs_granted s" "fs_repaid s' = fs_repaid s" "jobs = []"
    "mset (jobsOf leasesOf j') \<subseteq># mset (ta_lead ta @ ta_refresh ta)"
    using st AwaitKey by (auto simp: awaitKey_def goOn_def Let_def split: if_splits option.splits)
  then show ?thesis using AwaitKey by (intro conserves_keeps) simp_all
next
  case (WaitKeys remaining attempt)
  have "fs_granted s' = fs_granted s" "fs_repaid s' = fs_repaid s" "jobs = []"
    "mset (jobsOf leasesOf j') \<subseteq># mset (ta_lead ta @ ta_refresh ta)"
    using st WaitKeys by (auto simp: waitKeys_def goOn_def split: if_splits option.splits)
  then show ?thesis using WaitKeys by (intro conserves_keeps) simp_all
qed (use st in \<open>intro conserves_keeps; auto simp: publishMany_def closeFlights_def goOn_def split: prod.splits\<close>)+

lemma conserves_refreshManyWrite:
  assumes "refreshManyWrite env c mine vals keys ttl s = Some (j', jobs, s')"
  shows "conserves (RefreshManyWrite mine vals keys ttl) s j' jobs s'"
proof (cases mine)
  case Nil
  then show ?thesis using assms by (intro conserves_keeps) (auto simp: refreshManyWrite_def goOn_def)
next
  case (Cons l rest)
  obtain key cas where l: "l = (key, cas)" by fastforce
  show ?thesis
  proof (cases "sliceBytes (slotOf vals key) = []")
    case True
    then have "fs_granted s' = fs_granted s" "fs_repaid s' = fs_repaid s" "jobs = []" "jobsOf leasesOf j' = rest"
      using assms Cons l by (auto simp: refreshManyWrite_def goOn_def Let_def)
    then show ?thesis using Cons by (intro conserves_keeps) simp_all
  next
    case False
    then show ?thesis using assms Cons l
      by (intro conserves_repays [of s' s l _ rest]) (auto simp: refreshManyWrite_def goOn_def repay_def Let_def)
  qed
qed

lemma conserves_step:
  assumes js: "jobStep env c inp j s = Some (j', jobs, s')"
  shows "conserves j s j' jobs s'"
proof (cases j)
  case (Many call ta stage)
  then show ?thesis using js conserves_stage by simp
next
  case (FetchRead call attempt)
  then show ?thesis using js conserves_read by simp
next
  case (RefreshManyWrite mine vals keys ttl)
  then show ?thesis using js conserves_refreshManyWrite by simp
next
  case (LeadSettle call cas f out)
  then show ?thesis using js
    by (intro conserves_repays [of s' s "(fc_key call, cas)" _ "[]"]) (auto simp: leadSettle_def goOn_def repay_def Let_def)
next
  case (RefreshWrite l val ttl)
  then show ?thesis using js
    by (intro conserves_repays [of s' s l _ "[]"]) (auto simp: refreshWrite_def goOn_def repay_def)
next
  case (LoadOne call cas f)
  then show ?thesis using js
    by (intro conserves_keeps) (auto simp: loadOne_def goOn_def leaseFor_def split: option.splits)
next
  case (RefreshManyLoad mine ttl)
  then show ?thesis using js
    by (intro conserves_keeps) (auto simp: refreshManyLoad_def goOn_def split: option.splits prod.splits)
qed (use js in \<open>intro conserves_keeps; auto simp: fetchJoin_def fetchWait_def awaitFlight_def runFlight_def leaseFor_def
      spawnRefresh_def publish_def closeFlights_def refreshLoad_def refreshEnd_def goOn_def Let_def
      split: if_splits option.splits prod.splits\<close>)+

section \<open>Reachable states\<close>

lemma solvent_step:
  assumes num: "numbered s" and job: "fs_job s g = Some j" and js: "jobStep env c inp j s = Some (j', jobs, s')"
    and sol: "solvent s"
  shows "solvent (start jobs (s'\<lparr>fs_job := (fs_job s')(g := j')\<rparr>))"
proof -
  let ?t = "start jobs (s'\<lparr>fs_job := (fs_job s')(g := j')\<rparr>)"
  obtain new repaid where n: "fs_granted s' = fs_granted s @ new" "fs_repaid s' = fs_repaid s @ repaid"
    "mset repaid + mset (jobsOf leasesOf j') + mset (spawned leasesOf jobs) \<subseteq># mset new + mset (leasesOf j)"
    using conserves_step [OF js] unfolding conserves_def by blast
  have "mset (jobsOf leasesOf j') = (case j' of None \<Rightarrow> {#} | Some i \<Rightarrow> mset (leasesOf i))"
    "mset (spawned leasesOf jobs) = sum_list (map (\<lambda>j. mset (leasesOf j)) jobs)"
    by (simp split: option.split) (induction jobs; simp)
  then have "owing ?t + mset (leasesOf j) = owing s + mset (jobsOf leasesOf j') + mset (spawned leasesOf jobs)"
    using total_step [OF num job js, of "\<lambda>j. mset (leasesOf j)"] by (simp add: owing_def)
  then have "mset (fs_repaid ?t) + owing ?t + mset (leasesOf j) =
      (mset (fs_repaid s) + owing s) + (mset repaid + mset (jobsOf leasesOf j') + mset (spawned leasesOf jobs))"
    by (simp add: n(2) ac_simps)
  also have "\<dots> \<subseteq># mset (fs_granted s) + (mset new + mset (leasesOf j))"
    using sol n(3) unfolding solvent_def by (rule subset_mset.add_mono)
  finally show ?thesis unfolding solvent_def by (simp add: n(1) add.assoc [symmetric])
qed

lemma begun_owes: "begun env c w j \<Longrightarrow> leasesOf j = []"
  by (erule begun.cases) (auto simp: beginFetch_def beginFetchMany_def Let_def split: sum.splits)

lemma reachable_solvent: "fetchReachable env c s \<Longrightarrow> solvent s"
proof (induction rule: reachable_invariant)
  case (init w)
  show ?case by (simp add: solvent_def owing_def total_def initFetch_def)
next
  case (begins s j)
  have "owing (start [j] s) = owing s" using begun_owes [OF begins(2)] by (simp add: owing_def total_begin)
  then show ?case using begins(3) by (simp add: solvent_def)
next
  case (steps s g j inp j' jobs s')
  then show ?case using solvent_step reachable_numbered by blast
qed (simp add: solvent_def owing_def total_def)

end
