(* ===== verification/Progress.thy ===== *)
theory Progress
  imports Answers Leases
begin

text \<open>
  Every call ends. The steps a goroutine can still take are bounded by a number that each of
  its steps lowers, those of the goroutine it starts included; and while some goroutine has
  not ended, one of them can take a step.
\<close>

section \<open>How much a goroutine still does\<close>

definition weight :: "tally \<Rightarrow> nat" where
  "weight ta = length (ta_lead ta) + length (ta_refresh ta) + length (ta_local ta)"

text \<open>What is left after the reads of a call with \<open>n\<close> keys, and what one round of reads costs.\<close>

definition afterReads :: "nat \<Rightarrow> nat" where
  "afterReads n = 2 * n + 11"

definition rounds :: "nat \<Rightarrow> nat \<Rightarrow> nat" where
  "rounds k n = k * (2 * n + 4)"

fun stageRank :: "tally \<Rightarrow> stage \<Rightarrow> nat" where
  "stageRank ta (ReadKeys pending attempt) =
     (let n = weight ta + length pending in rounds (5 - attempt) n + (2 * n + 3) + afterReads n)"
| "stageRank ta (JoinKeys busy remaining attempt) =
     (let n = weight ta + length busy + length remaining
      in rounds (5 - attempt) n + (2 * length busy + 1) + afterReads n)"
| "stageRank ta (AwaitKey key f busy remaining attempt) =
     (let n = weight ta + Suc (length busy) + length remaining
      in rounds (5 - attempt) n + (2 * length busy + 2) + afterReads n)"
| "stageRank ta (WaitKeys remaining attempt) =
     (let n = weight ta + length remaining in rounds (4 - attempt) n + (2 * n + 4) + afterReads n)"
| "stageRank ta SpawnRefreshMany = 2 * length (ta_lead ta) + length (ta_local ta) + length (ta_refresh ta) + 10"
| "stageRank ta RunFlights = 2 * length (ta_lead ta) + length (ta_local ta) + 6"
| "stageRank ta (LoadMany own joins) = length joins + length (ta_lead ta) + 5"
| "stageRank ta (PublishMany own joins loaded err) = length joins + length (ta_lead ta) + 4"
| "stageRank ta (CloseFlights own joins loaded err) = length joins + length (ta_lead ta) + 3"
| "stageRank ta (Collect joins vals err) = length joins + length (ta_lead ta) + 2"
| "stageRank ta (SettleLeads leads computed err) = length leads + 1"

fun rank :: "job \<Rightarrow> nat" where
  "rank (FetchRead call attempt) = 3 * (5 - attempt) + 8"
| "rank (FetchJoin call attempt) = 3 * (5 - attempt) + 7"
| "rank (FetchWait call attempt) = 3 * (4 - attempt) + 9"
| "rank (SpawnRefresh call cas val) = 4"
| "rank (RunFlight call cas) = 5"
| "rank (AwaitFlight call f) = 1"
| "rank (LoadOne call cas f) = 4"
| "rank (LeadSettle call cas f out) = 3"
| "rank (Publish key f out) = 2"
| "rank (CloseFlight key f out) = 1"
| "rank (Answer key out src) = 0"
| "rank (RefreshLoad l ttl) = 3"
| "rank (RefreshWrite l val ttl) = 2"
| "rank (RefreshEnd keys) = 1"
| "rank (Many call ta stage) = stageRank ta stage"
| "rank (AnswerMany keys out) = 0"
| "rank (RefreshManyLoad mine ttl) = length mine + 3"
| "rank (RefreshManyWrite mine vals keys ttl) = length mine + 2"

definition work :: "'n fetchSys \<Rightarrow> nat" where
  "work s = total rank s"

definition costs :: "job option \<Rightarrow> job list \<Rightarrow> nat" where
  "costs j' jobs = (case j' of None \<Rightarrow> 0 | Some j \<Rightarrow> rank j) + sum_list (map rank jobs)"

lemma costs_simps [simp]: "costs (Some j) [] = rank j" "costs None [] = 0" "costs (Some j) [i] = rank j + rank i"
  by (simp_all add: costs_def)

section \<open>Every step lowers it\<close>

lemma rounds_mono: "m \<le> n \<Longrightarrow> rounds k m \<le> rounds k n"
  by (simp add: rounds_def)

lemma rounds_Suc: "rounds (Suc k) n = rounds k n + (2 * n + 4)"
  by (simp add: rounds_def)

lemma triage_weight:
  "triage env c ctx rs ta busy w = ((ta', busy', err), w') \<Longrightarrow>
     weight ta' + length busy' \<le> weight ta + length busy + length rs"
proof (induction env c ctx rs ta busy w rule: triage.induct)
  case (2 env c ctx key result rest ta busy w)
  show ?case
  proof (cases "or_Err result")
    case (Some e)
    then show ?thesis using 2 by (auto simp: weight_def split: if_splits)
  next
    case None
    show ?thesis
    proof (cases "or_Get result")
      case (Some r)
      show ?thesis
      proof (cases "classify r")
        case (Serve lease)
        then show ?thesis using 2(1) [OF None Some Serve] 2(6) None Some
          by (cases lease) (simp_all add: weight_def)
      next
        case (LeadWith cas)
        then show ?thesis using 2(2) [OF None Some LeadWith] 2(6) None Some by (simp add: weight_def)
      next
        case ComputeLocally
        then show ?thesis using 2(3) [OF None Some ComputeLocally] 2(6) None Some by (simp add: weight_def)
      next
        case HeldElsewhere
        then show ?thesis using 2(4) [OF None Some HeldElsewhere] 2(6) None Some by simp
      qed
    qed (use 2 None in simp)
  qed
qed simp

lemma readKeys_costs:
  assumes st: "readKeys env c call ta pending attempt s = Some (j', jobs, s')"
  shows "costs j' jobs < stageRank ta (ReadKeys pending attempt)"
proof -
  obtain out w where b: "batch env c (fm_ctx call)
      (map (\<lambda>key. Struct (GetOperation key (fp_read (fm_plan call)))) pending) (fs_world s) = (out, w)" by fastforce
  let ?n = "weight ta + length pending"
  show ?thesis
  proof (cases out)
    case (Inl e)
    then have "j' = Some (AnswerMany (fm_keys call) (Inl e))" "jobs = []" using st b by (auto simp: readKeys_def goOn_def)
    then show ?thesis by (simp add: Let_def)
  next
    case (Inr results)
    obtain ta' busy err w' where t: "triage env c (fm_ctx call) (zip pending results) ta [] w = ((ta', busy, err), w')"
      by (metis prod_cases3 surj_pair)
    have n: "weight ta' + length busy \<le> ?n" using triage_weight [OF t] by simp
    have "jobs = []" "costs j' jobs \<le> rounds (5 - attempt) (weight ta' + length busy) +
        (2 * length busy + 1) + afterReads (weight ta' + length busy)"
      using st b Inr t
      by (auto simp: readKeys_def goOn_def Let_def afterReads_def weight_def split: if_splits option.splits)
    then show ?thesis using n rounds_mono [OF n, of "5 - attempt"] by (simp add: Let_def afterReads_def)
  qed
qed

lemma registerAll_length:
  "registerAll keys own joins s = (own', joins', s') \<Longrightarrow> length own' + length joins' = length own + length joins + length keys"
  by (induction keys own joins s rule: registerAll.induct) (auto simp: Let_def split: option.splits)

lemma mineOf_length: "length (mineOf active holders) \<le> length holders"
  by (induction active holders rule: mineOf.induct) auto

lemma joinKeys_costs:
  assumes st: "joinKeys call ta busy remaining attempt s = Some (j', jobs, s')"
  shows "costs j' jobs < stageRank ta (JoinKeys busy remaining attempt)"
proof (cases busy)
  case Nil
  show ?thesis
  proof (cases "remaining = [] \<or> 5 \<le> attempt")
    case True
    then have "jobs = []" "costs j' jobs \<le> 2 * (weight ta + length remaining) + 10"
      using st Nil by (auto simp: joinKeys_def goOn_def fetchWaitBackoff_def weight_def split: if_splits)
    then show ?thesis using Nil by (simp add: Let_def afterReads_def)
  next
    case False
    then have "5 - attempt = Suc (4 - attempt)" by auto
    moreover have "costs j' jobs = stageRank ta (WaitKeys remaining attempt)"
      using st Nil False by (auto simp: joinKeys_def goOn_def fetchWaitBackoff_def)
    ultimately show ?thesis using Nil by (simp add: Let_def rounds_Suc)
  qed
next
  case (Cons key rest)
  then show ?thesis using st by (auto simp: joinKeys_def goOn_def Let_def split: option.splits)
qed

lemma awaitKey_costs:
  assumes st: "awaitKey env ctxFirst call ta key f busy remaining attempt s = Some (j', jobs, s')"
  shows "costs j' jobs < stageRank ta (AwaitKey key f busy remaining attempt)"
proof -
  let ?n = "weight ta + length busy + length remaining"
  have "costs j' jobs \<le> rounds (5 - attempt) ?n + (2 * length busy + 1) + afterReads ?n"
    using st by (auto simp: awaitKey_def goOn_def Let_def weight_def split: if_splits option.splits)
  then show ?thesis using rounds_mono [of ?n "Suc ?n" "5 - attempt"] by (simp add: Let_def afterReads_def)
qed

lemma waitKeys_costs:
  "waitKeys env ctxFirst call ta remaining attempt s = Some (j', jobs, s') \<Longrightarrow>
     costs j' jobs < stageRank ta (WaitKeys remaining attempt)"
  by (auto simp: waitKeys_def goOn_def Let_def split: if_splits option.splits)

lemma spawnRefreshMany_costs:
  assumes st: "spawnRefreshMany env call ta s = Some (j', jobs, s')"
  shows "costs j' jobs < stageRank ta SpawnRefreshMany"
proof -
  define mine where "mine = (if ctxEnded env RootCtx s \<noteq> None then [] else mineOf (fs_refreshing s) (ta_refresh ta))"
  have "length mine \<le> length (ta_refresh ta)" by (simp add: mine_def mineOf_length)
  moreover have "rank (afterRefresh call ta) \<le> 2 * length (ta_lead ta) + length (ta_local ta) + 6"
    by (simp add: afterRefresh_def)
  moreover have "costs j' jobs \<le> rank (afterRefresh call ta) + length mine + 3"
    using st unfolding spawnRefreshMany_def goOn_def Let_def mine_def [symmetric] by (auto split: if_splits)
  ultimately show ?thesis by simp
qed

lemma stage_costs:
  assumes st: "stageStep env c inp call ta stage s = Some (j', jobs, s')"
  shows "costs j' jobs < stageRank ta stage"
proof (cases stage)
  case (ReadKeys pending attempt)
  then show ?thesis using st readKeys_costs by (metis stageStep.simps(1))
next
  case (JoinKeys busy remaining attempt)
  then show ?thesis using st joinKeys_costs by (metis stageStep.simps(2))
next
  case (AwaitKey key f busy remaining attempt)
  then show ?thesis using st awaitKey_costs by (metis stageStep.simps(3))
next
  case (WaitKeys remaining attempt)
  then show ?thesis using st waitKeys_costs by (metis stageStep.simps(4))
next
  case SpawnRefreshMany
  then show ?thesis using st spawnRefreshMany_costs by (metis stageStep.simps(5))
next
  case RunFlights
  obtain own joins s1 where reg: "registerAll (map fst (ta_lead ta) @ ta_local ta) [] [] s = (own, joins, s1)"
    by (metis prod_cases3)
  have "length joins + (if own = [] then 0 else 1) \<le> length (ta_lead ta) + length (ta_local ta)"
    using registerAll_length [OF reg] by (cases own) auto
  then show ?thesis using st RunFlights reg by (auto simp: runFlights_def goOn_def split: if_splits)
next
  case (Collect joins vals firstErr)
  then show ?thesis using st by (auto simp: collect_def goOn_def split: if_splits option.splits list.splits)
next
  case (SettleLeads leads computed err)
  then show ?thesis using st by (auto simp: settleLeads_def goOn_def Let_def split: list.splits)
qed (use st in \<open>auto simp: publishMany_def goOn_def split: prod.splits\<close>)

lemma read_costs:
  "fetchRead env c call attempt s = Some (j', jobs, s') \<Longrightarrow> costs j' jobs < rank (FetchRead call attempt)"
  unfolding fetchRead_def goOn_def
  by (auto simp: Let_def split: if_splits sum.splits prod.splits verdict.splits option.splits)

lemma step_costs:
  assumes js: "jobStep env c inp j s = Some (j', jobs, s')"
  shows "costs j' jobs < rank j"
proof (cases j)
  case (Many call ta stage)
  then show ?thesis using js stage_costs by simp
next
  case (FetchRead call attempt)
  then show ?thesis using js read_costs by simp
next
  case (FetchJoin call attempt)
  then show ?thesis using js
    by (auto simp: fetchJoin_def goOn_def fetchWaitBackoff_def split: if_splits option.splits)
next
  case (RefreshManyWrite mine vals keys ttl)
  then show ?thesis using js
    by (auto simp: refreshManyWrite_def goOn_def Let_def split: list.splits if_splits)
next
  case (RefreshManyLoad mine ttl)
  then show ?thesis using js by (auto simp: refreshManyLoad_def goOn_def split: option.splits prod.splits)
qed (use js in \<open>auto simp: fetchWait_def spawnRefresh_def runFlight_def awaitFlight_def
      loadOne_def leadSettle_def publish_def refreshLoad_def refreshWrite_def refreshEnd_def goOn_def Let_def
      split: if_splits option.splits prod.splits\<close>)

lemma work_step:
  assumes num: "numbered s" and job: "fs_job s g = Some j" and js: "jobStep env c inp j s = Some (j', jobs, s')"
  shows "work (start jobs (s'\<lparr>fs_job := (fs_job s')(g := j')\<rparr>)) < work s"
  using total_step [OF num job js, of rank] step_costs [OF js] by (simp add: work_def costs_def)

section \<open>Some goroutine can take a step\<close>

definition ended :: "job \<Rightarrow> bool" where
  "ended j \<longleftrightarrow> (case j of Answer key out src \<Rightarrow> True | AnswerMany keys out \<Rightarrow> True | _ \<Rightarrow> False)"

definition allEnded :: "'n fetchSys \<Rightarrow> bool" where
  "allEnded s \<longleftrightarrow> (\<forall>g j. fs_job s g = Some j \<longrightarrow> ended j)"

text \<open>A goroutine that has not ended and cannot go on waits for a flight that is open.\<close>

lemma stuck_stage:
  assumes "stageStep env c inp call ta stage s = None" and "\<not> fi_ctx inp" and "stageTold s stage"
  shows "\<exists>f. isOpen s f"
proof (cases stage)
  case (ReadKeys pending attempt)
  then show ?thesis using assms
    by (auto simp: readKeys_def goOn_def Let_def split: sum.splits prod.splits option.splits if_splits)
next
  case (Collect joins vals firstErr)
  then show ?thesis using assms
    by (auto simp: collect_def goOn_def isOpen_def joined_def split: list.splits if_splits option.splits)
next
  case (AwaitKey key f busy remaining attempt)
  then show ?thesis using assms
    by (auto simp: awaitKey_def goOn_def isOpen_def joined_def Let_def split: if_splits option.splits)
qed (use assms in \<open>auto simp: joinKeys_def waitKeys_def spawnRefreshMany_def runFlights_def publishMany_def
      settleLeads_def goOn_def Let_def split: list.splits if_splits option.splits prod.splits\<close>)

lemma stuck:
  assumes "jobStep env c inp j s = None" and "\<not> fi_ctx inp" and "told c s j" and "\<not> ended j"
  shows "\<exists>f. isOpen s f"
proof (cases j)
  case (Many call ta stage)
  then show ?thesis using assms stuck_stage by (metis jobStep.simps(14) told.simps(8))
next
  case (FetchRead call attempt)
  then show ?thesis using assms
    by (auto simp: fetchRead_def goOn_def Let_def split: sum.splits prod.splits verdict.splits option.splits if_splits)
next
  case (AwaitFlight call f)
  then show ?thesis using assms
    by (auto simp: awaitFlight_def goOn_def Let_def isOpen_def joined_def split: if_splits)
qed (use assms in \<open>auto simp: ended_def fetchJoin_def fetchWait_def spawnRefresh_def runFlight_def loadOne_def
      leadSettle_def publish_def refreshLoad_def refreshWrite_def refreshEnd_def refreshManyLoad_def
      refreshManyWrite_def goOn_def Let_def split: list.splits if_splits option.splits prod.splits\<close>)

text \<open>One that has a flight to close never waits.\<close>

lemma opener_steps: "f \<in> set (opens j) \<Longrightarrow> \<exists>out. jobStep env c inp j s = Some out"
proof (cases j)
  case (Many call ta stage)
  then show "f \<in> set (opens j) \<Longrightarrow> ?thesis"
    by (cases stage) (auto simp: publishMany_def goOn_def split: prod.splits)
qed (auto simp: loadOne_def leadSettle_def publish_def goOn_def Let_def)

lemma reachable_progress:
  assumes reach: "fetchReachable env c s" and inp: "\<not> fi_ctx inp" and busy: "\<not> allEnded s"
  shows "\<exists>g. work (fetchStep env c g inp s) < work s"
proof -
  obtain g j where j: "fs_job s g = Some j" "\<not> ended j" using busy unfolding allEnded_def by blast
  have "\<exists>g j out. fs_job s g = Some j \<and> jobStep env c inp j s = Some out"
  proof (cases "jobStep env c inp j s")
    case None
    have "told c s j" using reachable_truthful [OF reach] j(1) unfolding truthful_def by blast
    then obtain f where "isOpen s f" using stuck [OF None inp] j(2) by blast
    then obtain h i where "fs_job s h = Some i" "f \<in> set (opens i)" using openers.taken_held [OF reach] by blast
    then show ?thesis using opener_steps by blast
  qed (use j(1) in blast)
  then obtain h i j' jobs s' where "fs_job s h = Some i" "jobStep env c inp i s = Some (j', jobs, s')"
    by (metis prod_cases3)
  then have "work (fetchStep env c h inp s) < work s"
    using work_step [OF reachable_numbered [OF reach]] by (simp add: fetchStep_def)
  then show ?thesis by blast
qed

end
