(* ===== verification/Many_Keys.thy ===== *)
theory Many_Keys
  imports Leases
begin

text \<open>
  The keys of a \<open>FetchMany\<close>. At every stage a key that was asked for is at most once among the
  ones found, the ones to compute with and without a lease and the ones still undecided; what
  is computed is computed for keys of the call, so that its result has no others.
\<close>

section \<open>Unique keys\<close>

lemma uniqueLoop_keys:
  "distinct (uniqueLoop seen keys) \<and> set (uniqueLoop seen keys) = set keys - set seen"
  by (induction seen keys rule: uniqueLoop.induct) auto

lemma uniqueKeys_keys: "distinct (uniqueKeys keys)" "set (uniqueKeys keys) = set keys"
  using uniqueLoop_keys [of "[]" keys] by (simp_all add: uniqueKeys_def)

section \<open>Where the keys are\<close>

abbreviation keysOf :: "('k \<times> 'a) list \<Rightarrow> 'k multiset" where
  "keysOf ps \<equiv> mset (map fst ps)"

fun undecided :: "stage \<Rightarrow> bytes list" where
  "undecided (ReadKeys pending attempt) = pending"
| "undecided (JoinKeys busy remaining attempt) = busy @ remaining"
| "undecided (AwaitKey key f busy remaining attempt) = key # busy @ remaining"
| "undecided (WaitKeys remaining attempt) = remaining"
| "undecided _ = []"

definition sorted_out :: "tally \<Rightarrow> bytes multiset" where
  "sorted_out ta = keysOf (ta_found ta) + keysOf (ta_lead ta) + mset (ta_local ta)"

text \<open>The keys a stage names that are to be computed.\<close>

fun computing :: "stage \<Rightarrow> bytes list" where
  "computing (LoadMany own joins) = map fst own @ map fst joins"
| "computing (PublishMany own joins loaded err) = map fst own @ map fst joins"
| "computing (CloseFlights own joins loaded err) = map fst own @ map fst joins"
| "computing (Collect joins vals err) = map fst joins @ map fst vals"
| "computing (SettleLeads leads computed err) = map fst computed"
| "computing _ = []"

fun asked :: "job \<Rightarrow> bool" where
  "asked (Many call ta stage) \<longleftrightarrow>
     sorted_out ta + mset (undecided stage) \<subseteq># mset (uniqueKeys (fm_keys call)) \<and>
     set (computing stage) \<subseteq> set (map fst (ta_lead ta) @ ta_local ta)"
| "asked (AnswerMany keys out) \<longleftrightarrow>
     (case out of Inl e \<Rightarrow> True | Inr found \<Rightarrow> distinct (map fst found) \<and> set (map fst found) \<subseteq> set keys)"
| "asked _ \<longleftrightarrow> True"

lemma keysOf_update: "keysOf (AList.update k v ps) \<subseteq># add_mset k (keysOf ps)"
  by (induction ps) auto

lemma triage_keys:
  "triage env c ctx rs ta busy w = ((ta', busy', err), w') \<Longrightarrow>
     sorted_out ta' + mset busy' \<subseteq># sorted_out ta + mset busy + keysOf rs"
proof (induction env c ctx rs ta busy w rule: triage.induct)
  case (2 env c ctx key result rest ta busy w)
  let ?all = "sorted_out ta + mset busy + keysOf ((key, result) # rest)"
  have weaken: "sorted_out ta' + mset busy' \<subseteq># t + keysOf rest \<Longrightarrow> t \<subseteq># add_mset key (sorted_out ta + mset busy) \<Longrightarrow>
      sorted_out ta' + mset busy' \<subseteq># ?all" for t
    using subset_mset.order_trans [OF _ subset_mset.add_right_mono] by fastforce
  show ?case
  proof (cases "or_Err result")
    case (Some e)
    then show ?thesis using 2(5,6)
      by (auto simp: sorted_out_def split: if_splits intro: subset_mset.add_increasing2)
  next
    case None
    show ?thesis
    proof (cases "or_Get result")
      case (Some r)
      show ?thesis
      proof (cases "classify r")
        case (Serve lease)
        show ?thesis
          by (rule weaken, use 2(1) [OF None Some Serve] 2(6) None Some Serve in \<open>simp\<close>)
            (use keysOf_update [of key "gr_Value r" "ta_found ta"] in \<open>simp add: sorted_out_def\<close>)
      next
        case (LeadWith cas)
        show ?thesis
          by (rule weaken, use 2(2) [OF None Some LeadWith] 2(6) None Some LeadWith in \<open>simp\<close>)
            (simp add: sorted_out_def)
      next
        case ComputeLocally
        show ?thesis
          by (rule weaken, use 2(3) [OF None Some ComputeLocally] 2(6) None Some ComputeLocally in \<open>simp\<close>)
            (simp add: sorted_out_def)
      next
        case HeldElsewhere
        show ?thesis
          by (rule weaken [of "add_mset key (sorted_out ta + mset busy)"])
            (use 2(4) [OF None Some HeldElsewhere] 2(6) None Some HeldElsewhere in simp_all)
      qed
    qed (use 2 None in simp)
  qed
qed simp

section \<open>Steps\<close>

definition askedAll :: "job option \<Rightarrow> job list \<Rightarrow> bool" where
  "askedAll j' jobs \<longleftrightarrow> (case j' of None \<Rightarrow> True | Some j \<Rightarrow> asked j) \<and> list_all asked jobs"

lemma keysOf_zip: "keysOf (zip ks rs) \<subseteq># mset ks"
  by (induction ks rs rule: list_induct2') auto

lemma registerAll_keys:
  "registerAll keys own joins s = (own', joins', s') \<Longrightarrow>
     set (map fst own' @ map fst joins') \<subseteq> set (map fst own @ map fst joins) \<union> set keys"
proof (induction keys own joins s rule: registerAll.induct)
  case (2 key keys own joins s)
  show ?case
  proof (cases "fs_flights s key")
    case None
    show ?thesis using 2(1) [OF None refl] 2(3) None by (simp add: Let_def del: set_map)
  next
    case (Some f)
    show ?thesis using 2(2) [OF Some] 2(3) Some by (simp del: set_map)
  qed
qed simp

lemma ownValues_keys: "set (map fst (ownValues own loaded)) \<subseteq> set (map fst own)"
proof (induction own)
  case (Cons p own)
  have "map fst (ownValues (p # own) loaded) =
      (if map_of loaded (fst p) = None then [] else [fst p]) @ map fst (ownValues own loaded)"
    by (simp add: ownValues_def split_def split: option.split)
  then show ?case using Cons by (auto simp del: set_map)
qed (simp add: ownValues_def)

lemma mergeFound_keys:
  "set (map fst (mergeFound found computed)) \<subseteq> set (map fst found) \<union> set (map fst computed) \<and>
   (distinct (map fst found) \<longrightarrow> distinct (map fst (mergeFound found computed)))"
  unfolding mergeFound_def
proof (induction computed arbitrary: found)
  case (Cons p computed)
  obtain k v where p: "p = (k, v)" by fastforce
  show ?case
    using Cons.IH [of found] Cons.IH [of "AList.update k (sliceBytes v) found"]
    by (auto simp: p dom_update distinct_update)
qed simp

lemma distinct_sub: "mset xs \<subseteq># mset ys \<Longrightarrow> distinct ys \<Longrightarrow> distinct xs"
  unfolding distinct_count_atmost_1 subseteq_mset_def
  by (metis One_nat_def count_mset_0_iff le_0_eq le_Suc_eq)

lemma sorted_out_asked:
  assumes "sorted_out ta + u \<subseteq># mset (uniqueKeys keys)"
  shows "distinct (map fst (ta_found ta))" and "set (map fst (ta_found ta)) \<subseteq> set keys"
    and "set (map fst (ta_lead ta) @ ta_local ta) \<subseteq> set keys"
proof -
  have sub: "sorted_out ta \<subseteq># mset (uniqueKeys keys)"
    using assms by (metis mset_subset_eq_add_left subset_mset.order_trans)
  then have "keysOf (ta_found ta) \<subseteq># mset (uniqueKeys keys)"
    unfolding sorted_out_def by (metis mset_subset_eq_add_left subset_mset.order_trans add.assoc)
  then show "distinct (map fst (ta_found ta))"
    using uniqueKeys_keys(1) by (rule distinct_sub)
  show "set (map fst (ta_found ta)) \<subseteq> set keys" "set (map fst (ta_lead ta) @ ta_local ta) \<subseteq> set keys"
    using set_mset_mono [OF sub] uniqueKeys_keys(2) by (auto simp: sorted_out_def)
qed

lemma asked_readKeys:
  assumes st: "readKeys env c call ta pending attempt s = Some (j', jobs, s')"
    and asked: "sorted_out ta + mset pending \<subseteq># mset (uniqueKeys (fm_keys call))"
  shows "askedAll j' jobs"
proof -
  obtain out w where b: "batch env c (fm_ctx call)
      (map (\<lambda>key. Struct (GetOperation key (fp_read (fm_plan call)))) pending) (fs_world s) = (out, w)" by fastforce
  show ?thesis
  proof (cases out)
    case (Inl e)
    then have "j' = Some (AnswerMany (fm_keys call) (Inl e))" "jobs = []" using st b by (auto simp: readKeys_def goOn_def)
    then show ?thesis by (simp add: askedAll_def)
  next
    case (Inr results)
    obtain ta' busy err w' where t: "triage env c (fm_ctx call) (zip pending results) ta [] w = ((ta', busy, err), w')"
      by (metis prod_cases3 surj_pair)
    have "sorted_out ta' + mset busy \<subseteq># sorted_out ta + keysOf (zip pending results)" using triage_keys [OF t] by simp
    also have "\<dots> \<subseteq># sorted_out ta + mset pending" by (rule subset_mset.add_left_mono [OF keysOf_zip])
    also note asked
    finally have sub: "sorted_out ta' + mset busy \<subseteq># mset (uniqueKeys (fm_keys call))" .
    have "jobs = []" "j' = Some (case err of Some e \<Rightarrow> AnswerMany (fm_keys call) (Inl e)
        | None \<Rightarrow> Many call ta' (if busy = [] then SpawnRefreshMany else JoinKeys busy [] attempt))"
      using st b Inr t by (auto simp: readKeys_def goOn_def Let_def split: if_splits option.splits)
    then show ?thesis using sub by (cases err) (auto simp: askedAll_def)
  qed
qed

lemma asked_awaitKey:
  assumes st: "awaitKey env ctxFirst call ta key f busy remaining attempt s = Some (j', jobs, s')"
    and asked: "sorted_out ta + mset (key # busy @ remaining) \<subseteq># mset (uniqueKeys (fm_keys call))"
  shows "askedAll j' jobs"
proof -
  define v where "v = sliceBytes (fl_value (fs_flight s f))"
  define ta' where "ta' = (if v = [] then ta else ta\<lparr>ta_found := AList.update key v (ta_found ta)\<rparr>)"
  have "sorted_out ta' \<subseteq># add_mset key (sorted_out ta)"
    using keysOf_update [of key v "ta_found ta"] by (auto simp: sorted_out_def ta'_def)
  then have "sorted_out ta' + mset (busy @ remaining) \<subseteq># add_mset key (sorted_out ta) + mset (busy @ remaining)"
    by (rule subset_mset.add_right_mono)
  moreover have "add_mset key (sorted_out ta) + mset (busy @ remaining) \<subseteq># mset (uniqueKeys (fm_keys call))"
    using asked by simp
  ultimately have "sorted_out ta' + mset (busy @ remaining) \<subseteq># mset (uniqueKeys (fm_keys call))"
    by (rule subset_mset.order_trans)
  then show ?thesis
    using st by (auto simp: awaitKey_def goOn_def Let_def askedAll_def ta'_def v_def split: if_splits option.splits)
qed

lemma asked_answer:
  assumes "sorted_out ta + u \<subseteq># mset (uniqueKeys keys)" and "set (map fst computed) \<subseteq> set (map fst (ta_lead ta) @ ta_local ta)"
  shows "asked (AnswerMany keys (Inr (mergeFound (ta_found ta) computed)))"
proof -
  have "set (map fst (mergeFound (ta_found ta) computed)) \<subseteq> set keys"
    using mergeFound_keys [of "ta_found ta" computed] sorted_out_asked(2,3) [OF assms(1)] assms(2) by blast
  then show ?thesis using mergeFound_keys [of "ta_found ta" computed] sorted_out_asked(1) [OF assms(1)] by simp
qed

lemma asked_collect:
  assumes st: "collect env ctxFirst call ta joins vals firstErr s = Some (j', jobs, s')"
    and asked: "asked (Many call ta (Collect joins vals firstErr))"
  shows "askedAll j' jobs"
proof (cases joins)
  case Nil
  then show ?thesis using st asked by (auto simp: collect_def goOn_def askedAll_def)
next
  case (Cons p rest)
  obtain key f where p: "p = (key, f)" by fastforce
  have keys: "asked (Many call ta (Collect rest (AList.update key v vals) err'))" for v err'
  proof -
    have "set (map fst (AList.update key v vals)) = insert key (set (map fst vals))" by (simp add: dom_update)
    then show ?thesis using asked Cons p by (simp del: set_map)
  qed
  have rest: "asked (Many call ta (Collect rest vals err'))" for err' using asked Cons p by (simp del: set_map)
  have none: "asked (Many call ta (SettleLeads (ta_lead ta) [] err'))" for err' using asked by simp
  show ?thesis
    using st Cons p keys rest none
    by (auto simp: collect_def goOn_def askedAll_def split: if_splits option.splits simp del: asked.simps)
qed

lemma asked_stage:
  assumes st: "stageStep env c inp call ta stage s = Some (j', jobs, s')" and asked: "asked (Many call ta stage)"
  shows "askedAll j' jobs"
proof (cases stage)
  case (ReadKeys pending attempt)
  then show ?thesis using st asked asked_readKeys by simp
next
  case (JoinKeys busy remaining attempt)
  then show ?thesis using st asked
    by (auto simp: joinKeys_def goOn_def askedAll_def sorted_out_def ac_simps
        split: if_splits option.splits list.splits)
next
  case (AwaitKey key f busy remaining attempt)
  then show ?thesis using st asked asked_awaitKey by simp
next
  case (WaitKeys remaining attempt)
  then show ?thesis using st asked
    by (auto simp: waitKeys_def goOn_def askedAll_def split: if_splits option.splits)
next
  case SpawnRefreshMany
  then have "askedAll j' jobs = asked (afterRefresh call ta)"
    using st by (auto simp: spawnRefreshMany_def goOn_def Let_def askedAll_def split: if_splits)
  then show ?thesis using asked SpawnRefreshMany sorted_out_asked [of ta "{#}" "fm_keys call"]
    by (auto simp: afterRefresh_def)
next
  case RunFlights
  obtain own joins s1 where reg: "registerAll (map fst (ta_lead ta) @ ta_local ta) [] [] s = (own, joins, s1)"
    by (metis prod_cases3)
  have "j' = Some (Many call ta (if own = [] then Collect joins [] None else LoadMany own joins))" "jobs = []"
    using st RunFlights reg by (auto simp: runFlights_def goOn_def)
  then show ?thesis using asked RunFlights registerAll_keys [OF reg] by (simp add: askedAll_def del: set_map)
next
  case (Collect joins vals firstErr)
  then show ?thesis using st asked asked_collect by simp
next
  case (CloseFlights own joins loaded err)
  then show ?thesis using st asked ownValues_keys [of own loaded]
    by (auto simp: goOn_def askedAll_def simp del: set_map)
next
  case (SettleLeads leads computed err)
  show ?thesis
  proof (cases leads)
    case Nil
    then have "j' = Some (AnswerMany (fm_keys call) (case err of Some e \<Rightarrow> Inl e | None \<Rightarrow> Inr (mergeFound (ta_found ta) computed)))"
      "jobs = []" using SettleLeads st by (auto simp: settleLeads_def goOn_def)
    then show ?thesis using asked_answer [of ta "{#}" "fm_keys call" computed] asked SettleLeads
      by (cases err) (simp_all add: askedAll_def)
  next
    case (Cons lead rest)
    then have "j' = Some (Many call ta (SettleLeads rest computed err))" "jobs = []"
      using SettleLeads st by (auto simp: settleLeads_def goOn_def Let_def split: prod.splits)
    then show ?thesis using asked SettleLeads by (simp add: askedAll_def)
  qed
qed (use st asked in \<open>auto simp: publishMany_def goOn_def askedAll_def split: prod.splits\<close>)

lemma asked_step:
  assumes js: "jobStep env c inp j s = Some (j', jobs, s')" and asked: "asked j"
  shows "askedAll j' jobs"
proof (cases j)
  case (Many call ta stage)
  then show ?thesis using js asked asked_stage by simp
next
  case (FetchRead call attempt)
  then show ?thesis using js
    by (auto simp: fetchRead_def goOn_def Let_def askedAll_def
        split: if_splits sum.splits prod.splits verdict.splits option.splits)
qed (use js in \<open>auto simp: fetchJoin_def fetchWait_def spawnRefresh_def runFlight_def awaitFlight_def
      loadOne_def leadSettle_def publish_def refreshLoad_def refreshWrite_def refreshEnd_def refreshManyLoad_def
      refreshManyWrite_def goOn_def Let_def askedAll_def split: if_splits option.splits prod.splits list.splits\<close>)

lemma begun_asked: "begun env c w j \<Longrightarrow> asked j"
  by (erule begun.cases) (auto simp: beginFetch_def beginFetchMany_def Let_def sorted_out_def split: sum.splits)

lemma reachable_asked: "fetchReachable env c s \<Longrightarrow> fs_job s g = Some j \<Longrightarrow> asked j"
proof (induction arbitrary: g j rule: reachable_invariant)
  case (begins s b)
  then show ?case using begun_asked [OF begins(2)] by (auto simp: start_job split: if_splits)
next
  case (steps s h i inp j' jobs s')
  have new: "askedAll j' jobs" using asked_step [OF steps(3)] steps(2,4) by blast
  then have "n < length jobs \<Longrightarrow> asked (jobs ! n)" for n by (simp add: askedAll_def list_all_length)
  moreover have "fs_job s' = fs_job s" "fs_next s' = fs_next s" using jobStep_frame [OF steps(3)] by simp_all
  ultimately show ?case using new steps(4,5)
    by (auto simp: start_job askedAll_def split: if_splits)
qed (auto simp: initFetch_def)

end
