(* ===== verification/Fetch_Properties.thy ===== *)
theory Fetch_Properties
  imports Progress Many_Keys Verb_Properties
begin

text \<open>
  The properties of \<open>Fetch\<close> and \<open>FetchMany\<close>, over every interleaving of the client's
  goroutines, and a run they are instantiated at: the server is down for the first read, so
  the first caller computes without a lease, and back for the second, which wins one.
\<close>

section \<open>A run\<close>

definition wonLease :: RawResponse where
  "wonLease = (raw_of_code ResponseValue)\<lparr>raw_Won := True, raw_Metadata := no_metadata\<lparr>md_CAS := Some 7\<rparr>\<rparr>"

definition outageEnv :: "nat env" where
  "outageEnv = demoEnv\<lparr>env_exchange := \<lambda>ctx i payload stop n.
     (if n = 0 then (([], 0, Some (EnvError ''connection refused'')), 1)
      else (([wonLease], length payload, None), Suc n))\<rparr>"

definition loadsV :: "bytes fetchInput" where
  "loadsV = \<lparr>fi_ctx = False, fi_loaded = Inr (RawBytes ''v''), fi_loadedMany = Inr []\<rparr>"

definition calmTick :: "nat \<Rightarrow> (nat, bytes) fetchEvent" where
  "calmTick g = Tick g loadsV"

definition outage :: "(nat, bytes) fetchEvent list" where
  "outage = [CallFetch (Ctx 0) ''k'' (60 * time_Second) [] True, CallFetch (Ctx 1) ''k'' (60 * time_Second) [] True,
     calmTick 0, calmTick 0, calmTick 1]"

definition afterOutage :: "nat \<Rightarrow> nat list \<Rightarrow> nat fetchSys" where
  "afterOutage n gs = happens outageEnv hookClient (take n outage @ map calmTick gs) (initFetch demoWorld)"

lemma outage_reachable: "fetchReachable outageEnv hookClient (afterOutage n gs)"
  unfolding afterOutage_def by (intro fetchReachable_happens fetchReachable_init)

section \<open>One loader per key\<close>


lemma outage_jobs:
  "map_option flightKeys (fs_job (afterOutage 5 []) 0) = Some [''k'']"
  "map_option flightKeys (fs_job (afterOutage 5 []) 1) = Some []"
  by code_simp+


section \<open>Answers\<close>

lemma filter_unique: "distinct (map fst ps) \<Longrightarrow> (k, v) \<in> set ps \<Longrightarrow> filter (\<lambda>p. fst p = k) ps = [(k, v)]"
proof (induction ps)
  case (Cons p ps)
  show ?case
  proof (cases "fst p = k")
    case True
    then have "k \<notin> fst ` set ps" using Cons.prems(1) by auto
    then have "filter (\<lambda>p. fst p = k) ps = []" "(k, v) \<notin> set ps" by (auto simp: filter_empty_conv image_iff)
    then show ?thesis using True Cons.prems(2) by auto
  next
    case False
    then show ?thesis using Cons by auto
  qed
qed simp

text \<open>
  C8: every \<open>Fetch\<close> that returns gives a value of the cache, which is not empty, an error of
  its arguments or of its context, the error of a read when the client does not degrade, or
  the outcome of a flight: and that flight is one of the key of the call, its loader ran
  exactly once, and what the caller gets is what that run came to. So all callers that share a
  flight get the same answer, and with \<open>WithDegrade\<close> no failure of the cache reaches them.
\<close>

theorem fetch_answers:
  assumes "fetchReachable env c s" and "fs_job s g = Some (Answer key out src)"
  shows "case src of
      FromCall \<Rightarrow> isl out
    | FromContext \<Rightarrow> isl out
    | FromRead \<Rightarrow> isl out \<and> \<not> cfg_degrade (cl_config c)
    | FromCache \<Rightarrow> \<exists>v. out = Inr (Some v) \<and> v \<noteq> []
    | FromFlight f \<Rightarrow> \<exists>oc. filter (\<lambda>p. fst p = f) (fs_outcomes s) = [(f, key, oc)] \<and> out = answerOf oc"
proof -
  have "told c s (Answer key out src)" using reachable_truthful [OF assms(1)] assms(2) unfolding truthful_def by blast
  then have "answered c s key out src" by simp
  note ans = this
  show ?thesis
  proof (cases src)
    case (FromFlight f)
    then obtain oc where oc: "(f, key, oc) \<in> set (fs_outcomes s)" "out = answerOf oc"
      using ans unfolding answered_def settled_def by auto
    show ?thesis using FromFlight oc(2) filter_unique [OF reachable_once [OF assms(1)] oc(1)] by auto
  qed (use ans in \<open>auto simp: answered_def\<close>)
qed

text \<open>The caller that lost the lease it won waits for the other's flight and gets its value.\<close>

lemma outage_publish: "fs_job (afterOutage 5 [1, 0]) 0 = Some (Publish ''k'' 0 (Some ''v'', None))"
  by code_simp

lemma outage_waits:
  "case fs_job (afterOutage 5 [1, 0]) 1 of Some (AwaitFlight call f) \<Rightarrow> fc_key call = ''k'' \<and> f = 0 | _ \<Rightarrow> False"
  by code_simp

lemma afterOutage_ticks:
  "afterOutage n (gs @ hs) = happens outageEnv hookClient (map calmTick hs) (afterOutage n gs)"
  by (simp add: afterOutage_def happens_def)

lemma shared_answer:
  assumes "fs_job s 0 = Some (Publish key 0 out)" and "fs_job s 1 = Some (AwaitFlight call 0)"
  shows "fs_job (happens env c (map calmTick [0, 0, 1]) s) 1 = Some (Answer (fc_key call) (answerOf out) (FromFlight 0))"
  using assms
  by (simp add: happens_def calmTick_def loadsV_def fetchStep_def publish_def goOn_def closeFlights_def awaitFlight_def)

lemma outage_answer: "fs_job (afterOutage 5 [1, 0, 0, 0, 1]) 1 = Some (Answer ''k'' (Inr (Some ''v'')) (FromFlight 0))"
proof -
  obtain call where "fs_job (afterOutage 5 [1, 0]) 1 = Some (AwaitFlight call 0)" "fc_key call = ''k''"
    using outage_waits by (auto split: option.splits job.splits)
  then show ?thesis
    using shared_answer [OF outage_publish, of call outageEnv hookClient] afterOutage_ticks [of 5 "[1, 0]" "[0, 0, 1]"]
    by (simp add: answerOf_def)
qed

theorem fetch_answers_witness:
  "\<exists>oc. filter (\<lambda>p. fst p = 0) (fs_outcomes (afterOutage 5 [1, 0, 0, 0, 1])) = [(0, ''k'', oc)] \<and>
     Inr (Some ''v'') = answerOf oc"
  using fetch_answers [OF outage_reachable outage_answer] by simp

section \<open>Leases\<close>

text \<open>
  C10: no lease is repaid that no read won, and none twice. The conditional writes and deletes
  issued so far and the leases still in the hands of a goroutine are, each counted, among the
  leases that reads of this client won.
\<close>

theorem leases_repaid:
  assumes "fetchReachable env c s"
  shows "mset (fs_repaid s) + owing s \<subseteq># mset (fs_granted s)"
  using reachable_solvent [OF assms] by (simp add: solvent_def)

theorem leases_repaid_witness:
  "mset (fs_repaid (afterOutage 5 [])) + owing (afterOutage 5 []) \<subseteq># mset [(''k'', 7)]"
proof -
  have "fs_granted (afterOutage 5 []) = [(''k'', 7)]" by code_simp
  then show ?thesis using leases_repaid [OF outage_reachable, of 5 "[]"] by simp
qed


lemma outage_flight: "fs_flights (afterOutage 5 []) ''k'' = Some 0"
  by code_simp

lemma outage_wins: "\<exists>call. fs_job (afterOutage 5 []) 1 = Some (RunFlight call (Some 7)) \<and> fc_key call = ''k''"
proof -
  have "case fs_job (afterOutage 5 []) 1 of Some (RunFlight call cas) \<Rightarrow> fc_key call = ''k'' \<and> cas = Some 7 | _ \<Rightarrow> False"
    by code_simp
  then show ?thesis by (auto split: option.splits job.splits)
qed


text \<open>
  A \<open>FetchMany\<close> that fails because a flight it waited for failed drops every lease it has won
  so far: its error return comes before the loop that settles them.
\<close>

theorem leases_abandoned:
  assumes "fetchReachable env c s" and "fs_job s g = Some (Many call ta (AwaitKey key f busy remaining attempt))"
    and "\<not> fi_ctx inp" and "fl_done (fs_flight s f)" and "fl_err (fs_flight s f) = Some e"
  shows "fs_job (fetchStep env c g inp s) g = Some (AnswerMany (fm_keys call) (Inl e)) \<and>
    owing s = owing (fetchStep env c g inp s) + mset (ta_lead ta @ ta_refresh ta) \<and>
    fs_repaid (fetchStep env c g inp s) = fs_repaid s"
proof -
  let ?j = "Many call ta (AwaitKey key f busy remaining attempt)"
  have js: "jobStep env c inp ?j s = Some (Some (AnswerMany (fm_keys call) (Inl e)), [], s)"
    using assms(3-5) by (simp add: awaitKey_def goOn_def)
  show ?thesis
    using total_step [OF reachable_numbered [OF assms(1)] assms(2) js, of "\<lambda>j. mset (leasesOf j)"] assms(2) js
    by (simp add: owing_def fetchStep_def)
qed

section \<open>Many keys\<close>

text \<open>
  C11: \<open>FetchMany\<close> computes and returns only keys it was asked for, each once, however often a
  key was given: the loader is run for a list of different keys of the call, and the result has
  values for different keys of the call, none of them empty.
\<close>

theorem fetch_many_keys:
  assumes "fetchReachable env c s" and "fs_job s g = Some j"
  shows "case j of
      Many call ta (LoadMany own joins) \<Rightarrow> distinct (map fst own) \<and> set (map fst own) \<subseteq> set (fm_keys call)
    | AnswerMany keys (Inr found) \<Rightarrow>
        distinct (map fst found) \<and> set (map fst found) \<subseteq> set keys \<and> list_all (\<lambda>p. snd p \<noteq> []) found
    | _ \<Rightarrow> True"
proof -
  have asked: "asked j" by (rule reachable_asked [OF assms])
  have told: "told c s j" using reachable_truthful [OF assms(1)] assms(2) unfolding truthful_def by blast
  show ?thesis
  proof (cases j)
    case (Many call ta stage)
    show ?thesis
    proof (cases stage)
      case (LoadMany own joins)
      have "distinct (map fst own)" using flights.holds_distinct [OF assms] Many LoadMany by (simp add: flightKeys_def)
      moreover have "set (map fst own) \<subseteq> set (fm_keys call)"
      proof (rule subset_trans)
        show "set (map fst own) \<subseteq> set (map fst (ta_lead ta) @ ta_local ta)" using asked Many LoadMany by simp
        show "\<dots> \<subseteq> set (fm_keys call)"
          using asked sorted_out_asked(3) [of ta "{#}" "fm_keys call"] Many LoadMany by simp
      qed
      ultimately show ?thesis using Many LoadMany by simp
    qed (use Many in simp_all)
  next
    case (AnswerMany keys out)
    then show ?thesis using asked told by (cases out) (auto simp: noneEmpty_def list_all_iff)
  qed simp_all
qed

definition manyCalls :: "(nat, bytes) fetchEvent list" where
  "manyCalls = [CallFetchMany (Ctx 0) [''k'', ''k''] (60 * time_Second) [] True, calmTick 0, calmTick 0, calmTick 0]"

lemma many_loads:
  "case fs_job (happens outageEnv hookClient manyCalls (initFetch demoWorld)) 0 of
     Some (Many call ta (LoadMany own joins)) \<Rightarrow> fm_keys call = [''k'', ''k''] \<and> own = [(''k'', 0)] | _ \<Rightarrow> False"
  by code_simp

theorem fetch_many_keys_witness:
  "\<exists>call ta own joins. fs_job (happens outageEnv hookClient manyCalls (initFetch demoWorld)) 0 =
       Some (Many call ta (LoadMany own joins)) \<and> fm_keys call = [''k'', ''k''] \<and> map fst own = [''k''] \<and>
     distinct (map fst own) \<and> set (map fst own) \<subseteq> set (fm_keys call)"
proof -
  obtain call ta own joins where j: "fs_job (happens outageEnv hookClient manyCalls (initFetch demoWorld)) 0 =
       Some (Many call ta (LoadMany own joins))" "fm_keys call = [''k'', ''k'']" "own = [(''k'', 0)]"
    using many_loads by (auto split: option.splits job.splits stage.splits)
  show ?thesis using fetch_many_keys [OF fetchReachable_happens [OF fetchReachable_init] j(1)] j by auto
qed

section \<open>Termination\<close>

text \<open>
  C9: every call of \<open>Fetch\<close> and \<open>FetchMany\<close> returns and every background refresh ends, if
  exchanges and loaders do. A step that changes anything lowers the work left, so that no run
  takes more steps than that; and as long as some goroutine has not ended, one of them can
  take a step, without any context ending: no two callers wait for each other.
\<close>

theorem fetch_terminates:
  assumes "fetchReachable env c s"
  shows "(fetchStep env c g inp s = s \<or> work (fetchStep env c g inp s) < work s) \<and>
    (allEnded s \<or> (\<exists>h. work (fetchStep env c h (inp\<lparr>fi_ctx := False\<rparr>) s) < work s))"
proof
  show "fetchStep env c g inp s = s \<or> work (fetchStep env c g inp s) < work s"
  proof (cases rule: fetchStep_cases [of env c g inp s])
    case (steps j j' jobs s')
    then show ?thesis using work_step [OF reachable_numbered [OF assms] steps(1,2)] by simp
  qed simp
  show "allEnded s \<or> (\<exists>h. work (fetchStep env c h (inp\<lparr>fi_ctx := False\<rparr>) s) < work s)"
    using reachable_progress [OF assms, of "inp\<lparr>fi_ctx := False\<rparr>"] by auto
qed

theorem fetch_terminates_witness:
  "work (afterOutage 5 []) = 9 \<and> (\<exists>h. work (fetchStep outageEnv hookClient h loadsV (afterOutage 5 [])) < 9)"
proof -
  have w: "work (afterOutage 5 []) = 9" by code_simp
  obtain call where "fs_job (afterOutage 5 []) 1 = Some (RunFlight call (Some 7))" using outage_wins by blast
  then have "\<not> allEnded (afterOutage 5 [])" unfolding allEnded_def by (auto simp: ended_def intro!: exI [of _ 1])
  then show ?thesis using fetch_terminates [OF outage_reachable, of 0 loadsV 5 "[]"] w
    by (simp add: loadsV_def)
qed

section \<open>Plans\<close>

text \<open>
  C13: what a call resolves before it reads. The window that bounds a background refresh is
  positive, and shorter than the TTL when the call refreshes ahead and the value expires; the
  read always asks for the CAS token and for a lease of 30 seconds on a miss, and for a
  refresh lease exactly within that window.
\<close>

theorem plan_window:
  assumes "planFetch c now ttl opts = Inr pl"
  shows "0 \<le> ttl \<and> fp_expiration pl = ExpiresIn now ttl \<and> 0 < fp_window pl \<and>
    fp_read pl = zero_MetaGetOptions\<lparr>mg_ReturnCAS := True, mg_VivifyTTL := Some 30,
      mg_RefreshBefore := mg_RefreshBefore (fp_read pl)\<rparr> \<and>
    (mg_RefreshBefore (fp_read pl) = None \<and> fp_window pl = 30 * time_Second \<or>
     mg_RefreshBefore (fp_read pl) = Some (ExpiresIn now (fp_window pl)) \<and> (ttl = 0 \<or> fp_window pl < ttl))"
proof -
  have lease: "ExpiresIn now fetchLeaseTTL = 30"
  proof -
    have "fetchLeaseTTL = seconds 30" by (simp add: fetchLeaseTTL_def seconds_def time_Second_def in_int64_def)
    then show ?thesis using ExpiresIn_seconds [of 30 now] by simp
  qed
  show ?thesis
    using assms lease
    by (auto simp: planFetch_def resolveTTL_def and_then_Inr fetchRead_options_def fetchLeaseTTL_def time_Second_def
        zero_MetaGetOptions_def split: option.splits if_splits)
qed

definition aheadOptions :: "FetchOption option list" where
  "aheadOptions = [Some (RefreshAheadOption (10 * time_Second))]"

lemma ahead_plan:
  "case planFetch hookClient 0 (60 * time_Second) aheadOptions of
     Inl e \<Rightarrow> False | Inr pl \<Rightarrow> mg_RefreshBefore (fp_read pl) = Some 10"
  by code_simp

theorem plan_window_witness:
  "\<exists>pl. planFetch hookClient 0 (60 * time_Second) aheadOptions = Inr pl \<and>
     ExpiresIn 0 (fp_window pl) = 10 \<and> fp_window pl < 60 * time_Second"
proof -
  obtain pl where pl: "planFetch hookClient 0 (60 * time_Second) aheadOptions = Inr pl" "mg_RefreshBefore (fp_read pl) = Some 10"
    using ahead_plan by (auto split: sum.splits)
  show ?thesis using plan_window [OF pl(1)] pl by (auto simp: time_Second_def)
qed

text \<open>
  The comparison is of durations, but both go out in whole seconds, rounded up: a window that
  is accepted because it is shorter than the TTL may be as long as the TTL on the wire.
\<close>

theorem window_rounds_to_ttl:
  "case planFetch hookClient 0 1500000000 [Some (RefreshAheadOption 1400000000)] of
     Inl e \<Rightarrow> False | Inr pl \<Rightarrow> fp_expiration pl = 2 \<and> mg_RefreshBefore (fp_read pl) = Some 2"
  by code_simp

end
