(* ===== verification/Spec2Isabelle.thy ===== *)
theory Spec2Isabelle
  imports Optimistic Transport_Runs Fetch_Properties
begin

text \<open>
  A verification library for go-memcache, a Go client of the memcached meta protocol
  (package \<open>memcache\<close>, the \<open>.go\<close> files of the repository).

  \<^bold>\<open>The program.\<close> A caller's verb (\<open>Get\<close>, \<open>Set\<close>, \<open>Update\<close>, ...) becomes a command of the meta
  protocol, which is routed by its key to one server, framed, and exchanged for a response
  over that server's pool of multiplexed connections; the response is classified into a
  result. Batches group their operations by server and send each group as one pipeline of
  quiet commands behind a barrier. A failed mutation whose bytes may have taken effect is
  reported as ambiguous; under \<open>Degrade\<close> other failures are absorbed and reported to a hook.

  \<^bold>\<open>The theories\<close>, in the order in which they build on each other:

  \<^item> \<open>Prelude\<close>, \<open>Go_Std\<close>: fact collections, lists and results; what is used of Go's
    standard library (\<open>strconv\<close>, base 64, field splitting, the buffered reader).
  \<^item> \<open>Errors\<close>, \<open>Types\<close>: \<open>errors.go\<close> and \<open>types.go\<close>; an error value is a datatype with its
    chain of wrapped errors, its message a format with arguments.
  \<^item> \<open>Wire\<close>, \<open>Wire_Commands\<close>, \<open>Wire_Responses\<close>: \<open>wire.go\<close>; marshalling and its injection
    freedom, reading a response, round trips, bounds and prefix freedom.
  \<^item> \<open>Commands\<close>: the builders and interpreters of \<open>client.go\<close>.
  \<^item> \<open>Config\<close>, \<open>Routing\<close>: \<open>options.go\<close>, \<open>New\<close> and the choice of a server; the interface
    of a router is a locale with the rendezvous router as its interpretation.
  \<^item> \<open>Execute\<close>, \<open>Execution\<close>: \<open>executeMeta\<close>, \<open>absorb\<close> and \<open>meta.go\<close> over an environment; what
    they rely on of the transport is the locale \<open>exchanger\<close>.
  \<^item> \<open>Batch\<close>, \<open>Batching\<close>, \<open>Batch_Results\<close>: \<open>batch.go\<close>; the pipelines, and the matching
    of responses to operations by their opaque tokens.
  \<^item> \<open>Verbs\<close>, \<open>Writes\<close>, \<open>Verb_Facts\<close>, \<open>Verb_Properties\<close>, \<open>Optimistic\<close>: \<open>codec.go\<close>, \<open>get.go\<close>,
    \<open>set.go\<close>, \<open>delete.go\<close>, \<open>counter.go\<close> and \<open>update.go\<close>.
  \<^item> \<open>Fetch\<close>: \<open>fetch.go\<close>, over the reads and writes above. The maps the client's goroutines
    share, of the loader runs in flight and the keys being refreshed, and what each goroutine
    does next are the record \<open>fetchSys\<close>; \<open>jobStep\<close> is one exchange, critical section, loader
    run or select of one goroutine, \<open>happen\<close> adds the beginning of calls and the changes of
    the world outside, and \<open>fetchReachable\<close> is what any sequence of these leads to.
  \<^item> \<open>Flights\<close>, \<open>Sharing\<close>: the locale \<open>key_table\<close>, for a table whose entries are each held by
    one goroutine, interpreted for the flights, the refreshes, the flights still open and the
    flights whose loader has not run.
  \<^item> \<open>Answers\<close>, \<open>Leases\<close>, \<open>Many_Keys\<close>, \<open>Progress\<close>: what a goroutine knows of the flights it
    names; what it owes of the leases won; where the keys of a \<open>FetchMany\<close> are; a rank that
    every step lowers, and the absence of deadlock.
  \<^item> \<open>Fetch_Properties\<close>: the properties of \<open>Fetch\<close> and \<open>FetchMany\<close>, and two ways in which a
    lease is lost.
  \<^item> \<open>Transport\<close>, \<open>Goroutines\<close>: \<open>transport.go\<close>. The state of a pool with all that hangs off
    it is the record \<open>sys\<close>; requests and connections are named by numbers. A goroutine is
    the stack of calls it has still to make; \<open>step\<close> runs the first call of one goroutine up
    to its next release of a mutex, channel operation or system call; \<open>occur\<close> adds the
    beginning of a call and the closing of the client, and \<open>reachable\<close> is what any sequence
    of these, with any network, clock and contexts, leads to.
  \<^item> \<open>Ownership\<close>, \<open>Reading\<close>, \<open>Accounting\<close>, \<open>Accounting_Writer\<close>: a request that has bytes to
    be written is in one place only, and the bytes reported to its caller bound the bytes
    that sockets took of it.
  \<^item> \<open>Matching\<close>, \<open>Matching_Steps\<close>: with a server that answers only what it was sent
    (\<open>honestly\<close>), the answers go to the requests in the order in which these were sent.
  \<^item> \<open>Callers\<close>, \<open>Calls\<close>: a caller is answered once; a call returns when its context ends.
  \<^item> \<open>Pool\<close>, \<open>Framing\<close>: the choice of a connection, the pool's mutex, its bound and its
    closing; the bytes a socket sees.
  \<^item> \<open>Exchange\<close>: \<open>exchange\<close> as a function over the histories of a client's pools, with the
    interpretation of \<open>exchanger\<close> that connects the transport to the layers above it.
  \<^item> \<open>Transport_Properties\<close>, \<open>Transport_Runs\<close>: the properties of the transport, the two ends
    of the program composed, and three schedules that go wrong.

  \<^bold>\<open>Granularity and ghosts.\<close> A connection's mutex is never held across a step; the pool's
  mutex is, over the call of \<open>add\<close>, and its holder is a component of the state. A
  non-blocking send that follows the release of a mutex happens in the same step. Ghost
  components record what the code forgets: the result of a call, the bytes of a request that
  sockets took, and a connection's bytes, commands sent and commands answered; of \<open>Fetch\<close>, the
  leases won and repaid, the outcome of each loader run, and the source of an answer. A step
  of \<open>Fetch\<close> is coarser: an exchange, the batch of reads of a \<open>FetchMany\<close> included, is one
  step of it, as the layers below return it. A slice
  expression out of range sets \<open>sy_panicked\<close>, after which nothing happens.

  \<^bold>\<open>Bounds and fuel.\<close> \<open>Update\<close> and \<open>Take\<close> make at most the sixteen attempts of the code,
  counted down by recursion. \<open>writeAll\<close> terminates by the bytes left. \<open>endCall\<close> gives the
  holder of the pool's mutex as many steps as its stack needs and the caller five, which is
  proved to be enough. A wait of \<open>Fetch\<close> is repeated at most five times, by the length of the
  code's schedule. Nothing else runs on fuel.

  \<^bold>\<open>Assumptions.\<close> Routers, codecs and the exchanges below the protocol layer are arguments,
  constrained by named locales or hypotheses; the transport discharges the latter. What a
  caller's loader returns is the input of the step that runs it. Integers
  of the wire are words of 64 bits, durations and times unbounded integers of nanoseconds.

  \<^bold>\<open>Not modelled.\<close> The contexts handed to loaders (\<open>detachedContext\<close>, the timeout of a
  refresh), since a loader is the caller's; a loader that returns nil bytes without an error,
  which counts as an empty slice; the text of error messages; \<open>encoding/json\<close>; the reuse of a connection's write buffer; \<open>SetNoDelay\<close>; tests,
  examples and benchmarks.
\<close>

end
